(* ===== verification/Prelude.thy ===== *)
theory Prelude
  imports Main "HOL-Library.Word" "HOL-Library.AList"
begin

text \<open>
  What the components of hpserver share: names for the machine types, the Linux error numbers the
  code compares against, a model of \<^verbatim>\<open>std::vector\<close> indexed by file descriptor, the
  pieces of the C and C++ string library the sources call (\<^verbatim>\<open>find\<close>,
  \<^verbatim>\<open>rfind\<close>, \<^verbatim>\<open>substr\<close>, \<^verbatim>\<open>tolower\<close>,
  \<^verbatim>\<open>isspace\<close>, \<^verbatim>\<open>std::to_string\<close>, \<^verbatim>\<open>strtoul\<close>) and
  the generic lemmas about them. Strings are char lists: a \<^typ>\<open>char\<close> is one byte.
\<close>

unbundle bit_operations_syntax

section \<open>Types and constants\<close>

type_synonym u8 = "8 word"
type_synonym u16 = "16 word"
type_synonym u32 = "32 word"
type_synonym u64 = "64 word"
type_synonym fd = int
type_synonym errno = int

text \<open>The collection \<open>errno_simps\<close> unfolds the error numbers, which are those of Linux
  (\<^verbatim>\<open>EWOULDBLOCK\<close> is \<^verbatim>\<open>EAGAIN\<close> there).\<close>

named_theorems errno_simps

definition ENOENT :: errno where [errno_simps]: "ENOENT = 2"
definition EINTR :: errno where [errno_simps]: "EINTR = 4"
definition EIO :: errno where [errno_simps]: "EIO = 5"
definition EBADF :: errno where [errno_simps]: "EBADF = 9"
definition EAGAIN :: errno where [errno_simps]: "EAGAIN = 11"
definition EWOULDBLOCK :: errno where [errno_simps]: "EWOULDBLOCK = 11"
definition EEXIST :: errno where [errno_simps]: "EEXIST = 17"
definition EINVAL :: errno where [errno_simps]: "EINVAL = 22"
definition EPIPE :: errno where [errno_simps]: "EPIPE = 32"
definition ERANGE :: errno where [errno_simps]: "ERANGE = 34"
definition EPROTO :: errno where [errno_simps]: "EPROTO = 71"
definition ECONNABORTED :: errno where [errno_simps]: "ECONNABORTED = 103"
definition ECONNRESET :: errno where [errno_simps]: "ECONNRESET = 104"
definition ENOTCONN :: errno where [errno_simps]: "ENOTCONN = 107"
definition ETIMEDOUT :: errno where [errno_simps]: "ETIMEDOUT = 110"
definition EINPROGRESS :: errno where [errno_simps]: "EINPROGRESS = 115"

definition would_block :: "errno \<Rightarrow> bool" where
  "would_block e \<longleftrightarrow> e = EAGAIN \<or> e = EWOULDBLOCK"

section \<open>Vectors\<close>

text \<open>A \<^verbatim>\<open>std::vector\<close> as its size and its contents. Reading or writing past the size is
  undefined in C++; the code guards its accesses, and the models keep those guards.\<close>

record 'a vec =
  vsize :: nat
  vat :: "nat \<Rightarrow> 'a"

definition vec_replicate :: "nat \<Rightarrow> 'a \<Rightarrow> 'a vec" where
  "vec_replicate n x = \<lparr>vsize = n, vat = (\<lambda>_. x)\<rparr>"

definition vec_set :: "'a vec \<Rightarrow> nat \<Rightarrow> 'a \<Rightarrow> 'a vec" where
  "vec_set v i x = v\<lparr>vat := (vat v)(i := x)\<rparr>"

lemma vsize_vec_set [simp]: "vsize (vec_set v i x) = vsize v"
  by (simp add: vec_set_def)

lemma vat_vec_set [simp]: "vat (vec_set v i x) j = (if j = i then x else vat v j)"
  by (simp add: vec_set_def)

lemma vsize_vec_replicate [simp]: "vsize (vec_replicate n x) = n"
  by (simp add: vec_replicate_def)

lemma vat_vec_replicate [simp]: "vat (vec_replicate n x) i = x"
  by (simp add: vec_replicate_def)

section \<open>Strings\<close>

text \<open>\<open>find_char c s p\<close> is \<^verbatim>\<open>s.find(c, p)\<close>, with \<open>None\<close> for
  \<^verbatim>\<open>npos\<close>; \<open>find_str\<close> looks for a substring and \<open>rfind_char\<close> for the last
  occurrence.\<close>

fun find_index_from :: "(char \<Rightarrow> bool) \<Rightarrow> string \<Rightarrow> nat \<Rightarrow> nat option" where
  "find_index_from P [] i = None"
| "find_index_from P (c # cs) i = (if P c then Some i else find_index_from P cs (Suc i))"

definition find_char :: "char \<Rightarrow> string \<Rightarrow> nat \<Rightarrow> nat option" where
  "find_char c s p = find_index_from (\<lambda>d. d = c) (drop p s) p"

fun find_str_from :: "string \<Rightarrow> string \<Rightarrow> nat \<Rightarrow> nat option" where
  "find_str_from pat [] i = (if pat = [] then Some i else None)"
| "find_str_from pat (c # cs) i =
     (if take (length pat) (c # cs) = pat then Some i else find_str_from pat cs (Suc i))"

definition find_str :: "string \<Rightarrow> string \<Rightarrow> nat \<Rightarrow> nat option" where
  "find_str pat s p = (if p \<le> length s then find_str_from pat (drop p s) p else None)"

definition rfind_char :: "char \<Rightarrow> string \<Rightarrow> nat option" where
  "rfind_char c s = map_option (\<lambda>i. length s - Suc i) (find_char c (rev s) 0)"

definition starts_with :: "string \<Rightarrow> string \<Rightarrow> bool" where
  "starts_with pre s \<longleftrightarrow> take (length pre) s = pre"

definition substr :: "string \<Rightarrow> nat \<Rightarrow> nat \<Rightarrow> string" where
  "substr s p n = take n (drop p s)"

definition char_code :: "char \<Rightarrow> nat" where
  "char_code c = of_char c"

text \<open>\<^verbatim>\<open>std::tolower\<close> and \<^verbatim>\<open>std::isspace\<close> in the C locale, the one the program
  runs in (it never calls \<^verbatim>\<open>setlocale\<close>).\<close>

definition tolower :: "char \<Rightarrow> char" where
  "tolower c = (if 65 \<le> char_code c \<and> char_code c \<le> 90 then char_of (char_code c + 32) else c)"

definition isspace :: "char \<Rightarrow> bool" where
  "isspace c \<longleftrightarrow> char_code c = 32 \<or> (9 \<le> char_code c \<and> char_code c \<le> 13)"

definition isdigit :: "char \<Rightarrow> bool" where
  "isdigit c \<longleftrightarrow> 48 \<le> char_code c \<and> char_code c \<le> 57"

definition digit_val :: "char \<Rightarrow> nat" where
  "digit_val c = char_code c - 48"

definition CR :: char where "CR = CHR 0x0D"
definition LF :: char where "LF = CHR 0x0A"
definition CRLF :: string where "CRLF = [CR, LF]"

text \<open>\<^verbatim>\<open>std::to_string\<close> on unsigned values, and the value of a digit string.\<close>

fun to_string :: "nat \<Rightarrow> string" where
  "to_string n =
     (if n < 10 then [char_of (48 + n)] else to_string (n div 10) @ [char_of (48 + n mod 10)])"

declare to_string.simps [simp del]

definition to_string_int :: "int \<Rightarrow> string" where
  "to_string_int i = (if i < 0 then CHR ''-'' # to_string (nat (- i)) else to_string (nat i))"

definition digits_val :: "nat \<Rightarrow> string \<Rightarrow> nat" where
  "digits_val a ds = foldl (\<lambda>v d. 10 * v + digit_val d) a ds"

text \<open>
  \<^verbatim>\<open>strtoul\<close>/\<^verbatim>\<open>strtoull\<close> in base 10 on a 64-bit target: white space, an optional
  sign, digits. The result is the value, whether it was out of range (then the value is the largest
  one and \<^verbatim>\<open>errno\<close> is \<^verbatim>\<open>ERANGE\<close>), and how many characters were consumed (0 when
  there is no digit). A minus sign negates in the unsigned type.
\<close>

record strtoul_result =
  st_value :: u64
  st_range :: bool
  st_used :: nat

definition strtoul :: "string \<Rightarrow> strtoul_result" where
  "strtoul s =
     (let ws = takeWhile isspace s;
          r1 = drop (length ws) s;
          sgn = (case r1 of c # _ \<Rightarrow> c = CHR ''-'' \<or> c = CHR ''+'' | [] \<Rightarrow> False);
          neg = (case r1 of c # _ \<Rightarrow> c = CHR ''-'' | [] \<Rightarrow> False);
          r2 = (if sgn then drop 1 r1 else r1);
          ds = takeWhile isdigit r2;
          v = digits_val 0 ds
      in if ds = [] then \<lparr>st_value = 0, st_range = False, st_used = 0\<rparr>
         else if v \<ge> 2 ^ 64 then
           \<lparr>st_value = - 1, st_range = True,
            st_used = length ws + (if sgn then 1 else 0) + length ds\<rparr>
         else
           \<lparr>st_value = (if neg then - of_nat v else of_nat v), st_range = False,
            st_used = length ws + (if sgn then 1 else 0) + length ds\<rparr>)"

text \<open>\<^verbatim>\<open>std::stoi\<close>: the same scan into an \<^verbatim>\<open>int\<close>, throwing when there is no
  digit or the value does not fit. Characters after the digits are ignored.\<close>

datatype stoi_error = InvalidArgument | OutOfRange

definition stoi :: "string \<Rightarrow> stoi_error + int" where
  "stoi s =
     (let r1 = dropWhile isspace s;
          sgn = (case r1 of c # _ \<Rightarrow> c = CHR ''-'' \<or> c = CHR ''+'' | [] \<Rightarrow> False);
          neg = (case r1 of c # _ \<Rightarrow> c = CHR ''-'' | [] \<Rightarrow> False);
          ds = takeWhile isdigit (if sgn then drop 1 r1 else r1);
          v = (if neg then - int (digits_val 0 ds) else int (digits_val 0 ds))
      in if ds = [] then Inl InvalidArgument
         else if v < - (2 ^ 31) \<or> 2 ^ 31 \<le> v then Inl OutOfRange
         else Inr v)"

text \<open>A string read as a C string ends at its first NUL byte.\<close>

definition c_str :: "string \<Rightarrow> string" where
  "c_str s = takeWhile (\<lambda>c. char_code c \<noteq> 0) s"

text \<open>The lines \<^verbatim>\<open>std::getline\<close> reads from a file's contents.\<close>

function getlines :: "string \<Rightarrow> string list" where
  "getlines [] = []"
| "getlines (c # cs) =
     (let l = takeWhile (\<lambda>d. d \<noteq> LF) (c # cs) in l # getlines (drop (Suc (length l)) (c # cs)))"
  by pat_completeness auto
termination
  by (relation "measure length") auto

section \<open>Lemmas on strings\<close>

lemma char_code_char_of [simp]: "n < 256 \<Longrightarrow> char_code (char_of n) = n"
  by (simp add: char_code_def)

lemma digit_chars:
  "char_of (48::nat) = CHR ''0''" "char_of (49::nat) = CHR ''1''" "char_of (50::nat) = CHR ''2''"
  "char_of (51::nat) = CHR ''3''" "char_of (52::nat) = CHR ''4''" "char_of (53::nat) = CHR ''5''"
  "char_of (54::nat) = CHR ''6''" "char_of (55::nat) = CHR ''7''" "char_of (56::nat) = CHR ''8''"
  "char_of (57::nat) = CHR ''9''"
  by (simp_all add: char_of_def bit_0)

text \<open>Evaluates \<open>to_string\<close> on a numeral.\<close>

lemmas to_string_eval = to_string.simps digit_chars

lemma isdigit_char_of [simp]: "d < 10 \<Longrightarrow> isdigit (char_of (48 + d :: nat))"
  by (simp add: isdigit_def)

lemma digit_val_char_of [simp]: "d < 10 \<Longrightarrow> digit_val (char_of (48 + d :: nat)) = d"
  by (simp add: digit_val_def)

lemma digits_val_append [simp]: "digits_val a (xs @ ys) = digits_val (digits_val a xs) ys"
  by (simp add: digits_val_def)

lemma digits_val_simps [simp]:
  "digits_val a [] = a"
  "digits_val a (d # ds) = digits_val (10 * a + digit_val d) ds"
  by (simp_all add: digits_val_def)

lemma to_string_nonempty [simp]: "to_string n \<noteq> []"
  by (subst to_string.simps) simp

lemma to_string_digits: "c \<in> set (to_string n) \<Longrightarrow> isdigit c"
proof (induction n rule: to_string.induct)
  case (1 n)
  then show ?case by (subst (asm) to_string.simps) (auto split: if_splits)
qed

lemma digits_val_to_string [simp]: "digits_val 0 (to_string n) = n"
proof (induction n rule: to_string.induct)
  case (1 n)
  then show ?case by (subst to_string.simps) auto
qed

lemma to_string_inject [simp]: "to_string m = to_string n \<longleftrightarrow> m = n"
  by (metis digits_val_to_string)

lemma takeWhile_isdigit_to_string [simp]: "takeWhile isdigit (to_string n) = to_string n"
  by (simp add: takeWhile_eq_all_conv to_string_digits)

lemma isdigit_not_space: "isdigit c \<Longrightarrow> \<not> isspace c"
  by (auto simp: isdigit_def isspace_def)

lemma isdigit_not_sign: "isdigit c \<Longrightarrow> c \<noteq> CHR ''-'' \<and> c \<noteq> CHR ''+''"
  by (auto simp: isdigit_def char_code_def)

lemma strtoul_digits:
  assumes "ds \<noteq> []" and "\<forall>c \<in> set ds. isdigit c" and "digits_val 0 ds < 2 ^ 64"
  shows "strtoul ds = \<lparr>st_value = of_nat (digits_val 0 ds), st_range = False, st_used = length ds\<rparr>"
proof -
  obtain c cs where c: "ds = c # cs" using assms(1) by (cases ds) simp_all
  then have d: "isdigit c" using assms(2) by simp
  have ws: "takeWhile isspace ds = []" using c d by (simp add: isdigit_not_space)
  have sg: "(case ds of c # _ \<Rightarrow> c = CHR ''-'' \<or> c = CHR ''+'' | [] \<Rightarrow> False) = False"
    "(case ds of c # _ \<Rightarrow> c = CHR ''-'' | [] \<Rightarrow> False) = False"
    using c isdigit_not_sign [OF d] by simp_all
  have tw: "takeWhile isdigit ds = ds" using assms(2) by (simp add: takeWhile_eq_all_conv)
  show ?thesis using assms(1,3) by (simp add: strtoul_def Let_def ws sg tw)
qed

lemma strtoul_to_string:
  "n < 2 ^ 64 \<Longrightarrow> strtoul (to_string n) =
     \<lparr>st_value = of_nat n, st_range = False, st_used = length (to_string n)\<rparr>"
  using strtoul_digits [of "to_string n"] by (auto simp: to_string_digits)

lemma tolower_idem [simp]: "tolower (tolower c) = tolower c"
  by (simp add: tolower_def)

lemma find_index_from_None: "find_index_from P s i = None \<longleftrightarrow> (\<forall>c \<in> set s. \<not> P c)"
  by (induction s arbitrary: i) auto

lemma find_index_from_Some:
  "find_index_from P s i = Some k \<Longrightarrow>
     i \<le> k \<and> k < i + length s \<and> P (s ! (k - i)) \<and> (\<forall>j < k - i. \<not> P (s ! j))"
proof (induction s arbitrary: i)
  case (Cons c cs)
  show ?case
  proof (cases "P c")
    case False
    with Cons.prems have "find_index_from P cs (Suc i) = Some k" by simp
    from Cons.IH [OF this] False show ?thesis
      by (auto simp: nth_Cons' Suc_le_eq less_Suc_eq_0_disj)
  qed (use Cons.prems in auto)
qed simp

lemma find_index_from_append:
  "\<forall>c \<in> set xs. \<not> P c \<Longrightarrow> P y \<Longrightarrow> find_index_from P (xs @ y # ys) i = Some (i + length xs)"
  by (induction xs arbitrary: i) auto

lemma find_char_None: "find_char c s p = None \<longleftrightarrow> c \<notin> set (drop p s)"
  by (auto simp: find_char_def find_index_from_None)

lemma find_char_append:
  "c \<notin> set xs \<Longrightarrow> find_char c (xs @ c # ys) 0 = Some (length xs)"
  using find_index_from_append [of xs "\<lambda>d. d = c" c ys 0] by (auto simp: find_char_def)

lemma rfind_char_append:
  assumes "c \<notin> set ys"
  shows "rfind_char c (xs @ c # ys) = Some (length xs)"
proof -
  have "find_char c (rev ys @ c # rev xs) 0 = Some (length ys)"
    using find_char_append [of c "rev ys" "rev xs"] assms by simp
  then show ?thesis by (simp add: rfind_char_def)
qed

lemma rfind_char_None: "rfind_char c s = None \<longleftrightarrow> c \<notin> set s"
  by (simp add: rfind_char_def find_char_None)

section \<open>Sums of machine words\<close>

lemma unat_sum_list:
  fixes f :: "'a \<Rightarrow> u64"
  shows "(\<Sum>x\<leftarrow>xs. unat (f x)) < 2 ^ 64 \<Longrightarrow> unat (\<Sum>x\<leftarrow>xs. f x) = (\<Sum>x\<leftarrow>xs. unat (f x))"
proof (induction xs)
  case (Cons x xs)
  then have IH: "unat (\<Sum>x\<leftarrow>xs. f x) = (\<Sum>x\<leftarrow>xs. unat (f x))" by simp
  with Cons.prems have "unat (f x) + unat (\<Sum>x\<leftarrow>xs. f x) < 2 ^ LENGTH(64)" by simp
  then have "unat (f x + (\<Sum>x\<leftarrow>xs. f x)) = unat (f x) + unat (\<Sum>x\<leftarrow>xs. f x)"
    by (rule iffD1 [OF unat_add_lem])
  with IH show ?case by simp
qed simp

lemma sum_list_take_le: "(\<Sum>x\<leftarrow>take m xs. f x :: nat) \<le> (\<Sum>x\<leftarrow>xs. f x)"
proof (induction xs arbitrary: m)
  case (Cons x xs)
  then show ?case by (cases m) auto
qed simp

end
