(* ===== verification/Socket_Ops.thy ===== *)
theory Socket_Ops
  imports Prelude "HOL-Library.Monad_Syntax"
begin

text \<open>
  The system interface as the networking code sees it, and the two thin wrappers over it:
  \<^verbatim>\<open>src/net/core/socket_ops.h\<close>/\<^verbatim>\<open>.cpp\<close> (an owned file descriptor) and
  \<^verbatim>\<open>src/net/core/poller.h\<close>/\<^verbatim>\<open>.cpp\<close> (an owned epoll instance). A system call is an argument: a
  function of the state of the kernel, of type \<open>'k\<close>, that returns its result and the new state.
\<close>

section \<open>Results of system calls\<close>

text \<open>A \<^verbatim>\<open>recv\<close> of zero bytes is the end of the stream: \<open>Received []\<close>.\<close>

datatype recv_result = Received string | Recv_failed errno

datatype send_result = Sent nat | Send_failed errno

text \<open>The consecutive results of one call repeated from a state of the kernel.\<close>

inductive trace :: "('k \<Rightarrow> 'r \<times> 'k) \<Rightarrow> 'k \<Rightarrow> 'r list \<Rightarrow> 'k \<Rightarrow> bool" for call where
  trace_Nil: "trace call k [] k"
| trace_Cons: "call k = (r, k1) \<Longrightarrow> trace call k1 rs k2 \<Longrightarrow> trace call k (r # rs) k2"

inductive_simps trace_Nil_iff [simp]: "trace call k [] k2"
inductive_simps trace_Cons_iff [simp]: "trace call k (r # rs) k2"

text \<open>A kernel that replays a list of results.\<close>

definition replay :: "'r \<Rightarrow> 'r list \<Rightarrow> 'r \<times> 'r list" where
  "replay d rs = (case rs of [] \<Rightarrow> (d, []) | r # rs' \<Rightarrow> (r, rs'))"

lemma trace_replay: "trace (replay d) (rs @ qs) rs qs"
  by (induction rs) (auto simp: replay_def)

section \<open>socket_ops\<close>

record socket_ops =
  so_fd :: fd

text \<open>The descriptors closed so far are threaded through the operations that close.\<close>

definition socket_ops_new :: socket_ops where
  "socket_ops_new = \<lparr>so_fd = -1\<rparr>"

definition socket_ops_of :: "fd \<Rightarrow> socket_ops" where
  "socket_ops_of f = \<lparr>so_fd = f\<rparr>"

definition socket_valid :: "socket_ops \<Rightarrow> bool" where
  "socket_valid s \<longleftrightarrow> so_fd s \<ge> 0"

definition socket_release :: "socket_ops \<Rightarrow> fd \<times> socket_ops" where
  "socket_release s = (so_fd s, s\<lparr>so_fd := -1\<rparr>)"

definition socket_reset :: "fd \<Rightarrow> socket_ops \<times> fd list \<Rightarrow> socket_ops \<times> fd list" where
  "socket_reset new_fd x =
     (case x of (s, closed) \<Rightarrow>
        (s\<lparr>so_fd := new_fd\<rparr>, if so_fd s \<noteq> -1 then closed @ [so_fd s] else closed))"

definition socket_move_construct :: "socket_ops \<Rightarrow> socket_ops \<times> socket_ops" where
  "socket_move_construct other = (\<lparr>so_fd = so_fd other\<rparr>, other\<lparr>so_fd := -1\<rparr>)"

text \<open>Move assignment from a different object; assignment from itself does nothing.\<close>

definition socket_move_assign :: "socket_ops \<Rightarrow> socket_ops \<Rightarrow> fd list \<Rightarrow> socket_ops \<times> socket_ops \<times> fd list" where
  "socket_move_assign this other closed =
     (case socket_reset (-1) (this, closed) of (t, closed') \<Rightarrow>
        (t\<lparr>so_fd := so_fd other\<rparr>, other\<lparr>so_fd := -1\<rparr>, closed'))"

definition socket_destroy :: "socket_ops \<Rightarrow> fd list \<Rightarrow> fd list" where
  "socket_destroy s closed = snd (socket_reset (-1) (s, closed))"

text \<open>
  The remaining members call the system function of the same name on the descriptor and print a
  message when it fails, some of them not for the errors of a non-blocking descriptor. The result of
  the system call is the value, or -1 with an error number; the message is the second component.
\<close>

definition reported :: "string \<Rightarrow> errno list \<Rightarrow> errno + int \<Rightarrow> int \<times> string option" where
  "reported name quiet r =
     (case r of Inr v \<Rightarrow> (v, None)
      | Inl e \<Rightarrow> (-1, if e \<in> set quiet then None else Some name))"

definition socket_open :: "errno + int \<Rightarrow> socket_ops \<times> string option" where
  "socket_open r = (case reported ''socket'' [] r of (v, m) \<Rightarrow> (\<lparr>so_fd = v\<rparr>, m))"

definition socket_bind :: "(fd \<Rightarrow> errno + int) \<Rightarrow> socket_ops \<Rightarrow> int \<times> string option" where
  "socket_bind call s = reported ''bind'' [] (call (so_fd s))"

definition socket_listen :: "(fd \<Rightarrow> errno + int) \<Rightarrow> socket_ops \<Rightarrow> int \<times> string option" where
  "socket_listen call s = reported ''listen'' [] (call (so_fd s))"

definition socket_accept :: "(fd \<Rightarrow> errno + int) \<Rightarrow> socket_ops \<Rightarrow> int \<times> string option" where
  "socket_accept call s = reported ''accept'' [EAGAIN, EWOULDBLOCK, EINTR] (call (so_fd s))"

definition socket_connect :: "(fd \<Rightarrow> errno + int) \<Rightarrow> socket_ops \<Rightarrow> int \<times> string option" where
  "socket_connect call s = reported ''connect'' [EINPROGRESS, EINTR] (call (so_fd s))"

definition socket_shutdown :: "(fd \<Rightarrow> errno + int) \<Rightarrow> socket_ops \<Rightarrow> int \<times> string option" where
  "socket_shutdown call s = reported ''shutdown'' [] (call (so_fd s))"

definition socket_read :: "(fd \<Rightarrow> errno + int) \<Rightarrow> socket_ops \<Rightarrow> int \<times> string option" where
  "socket_read call s = reported ''read'' [] (call (so_fd s))"

definition socket_write :: "(fd \<Rightarrow> errno + int) \<Rightarrow> socket_ops \<Rightarrow> int \<times> string option" where
  "socket_write call s = reported ''write'' [] (call (so_fd s))"

definition socket_recv :: "(fd \<Rightarrow> errno + int) \<Rightarrow> socket_ops \<Rightarrow> int \<times> string option" where
  "socket_recv call s = reported ''recv'' [EAGAIN, EWOULDBLOCK, EINTR] (call (so_fd s))"

definition socket_send :: "(fd \<Rightarrow> errno + int) \<Rightarrow> socket_ops \<Rightarrow> int \<times> string option" where
  "socket_send call s = reported ''send'' [EAGAIN, EWOULDBLOCK, EINTR] (call (so_fd s))"

definition socket_get_option :: "(fd \<Rightarrow> errno + int) \<Rightarrow> socket_ops \<Rightarrow> int \<times> string option" where
  "socket_get_option call s = reported ''getsockopt'' [] (call (so_fd s))"

definition socket_set_option :: "(fd \<Rightarrow> errno + int) \<Rightarrow> socket_ops \<Rightarrow> int \<times> string option" where
  "socket_set_option call s = reported ''setsockopt'' [] (call (so_fd s))"

section \<open>poller\<close>

datatype epoll_op = EPOLL_CTL_ADD | EPOLL_CTL_MOD | EPOLL_CTL_DEL

definition EPOLLIN :: u32 where "EPOLLIN = 0x001"
definition EPOLLOUT :: u32 where "EPOLLOUT = 0x004"
definition EPOLLERR :: u32 where "EPOLLERR = 0x008"
definition EPOLLHUP :: u32 where "EPOLLHUP = 0x010"
definition EPOLLRDHUP :: u32 where "EPOLLRDHUP = 0x2000"
definition EPOLLET :: u32 where "EPOLLET = 0x80000000"

record poller =
  po_epoll_fd :: fd

text \<open>\<^verbatim>\<open>epoll_ctl\<close>: the epoll descriptor, the operation, the target, and the event mask with the
  descriptor stored as user data, or no event. The result is 0, or -1 with an error number.\<close>

type_synonym 'k epoll_ctl = "fd \<Rightarrow> epoll_op \<Rightarrow> fd \<Rightarrow> (u32 \<times> fd) option \<Rightarrow> 'k \<Rightarrow> (errno + unit) \<times> 'k"

definition poller_move_construct :: "poller \<Rightarrow> poller \<times> poller" where
  "poller_move_construct other = (\<lparr>po_epoll_fd = po_epoll_fd other\<rparr>, other\<lparr>po_epoll_fd := -1\<rparr>)"

definition poller_move_assign :: "poller \<Rightarrow> poller \<Rightarrow> fd list \<Rightarrow> poller \<times> poller \<times> fd list" where
  "poller_move_assign this other closed =
     (this\<lparr>po_epoll_fd := po_epoll_fd other\<rparr>, other\<lparr>po_epoll_fd := -1\<rparr>,
      if po_epoll_fd this \<noteq> -1 then closed @ [po_epoll_fd this] else closed)"

definition poller_destroy :: "poller \<Rightarrow> fd list \<Rightarrow> fd list" where
  "poller_destroy p closed = (if po_epoll_fd p \<noteq> -1 then closed @ [po_epoll_fd p] else closed)"

definition poller_control :: "'k epoll_ctl \<Rightarrow> epoll_op \<Rightarrow> fd \<Rightarrow> u32 \<Rightarrow> poller \<Rightarrow> 'k \<Rightarrow> (errno + unit) \<times> 'k" where
  "poller_control ctl op f events p k =
     (if po_epoll_fd p = -1 then (Inl EBADF, k)
      else ctl (po_epoll_fd p) op f (if op = EPOLL_CTL_DEL then None else Some (events, f)) k)"

definition poller_add :: "'k epoll_ctl \<Rightarrow> fd \<Rightarrow> u32 \<Rightarrow> poller \<Rightarrow> 'k \<Rightarrow> (errno + unit) \<times> 'k" where
  "poller_add ctl f events p k = poller_control ctl EPOLL_CTL_ADD f events p k"

definition poller_modify :: "'k epoll_ctl \<Rightarrow> fd \<Rightarrow> u32 \<Rightarrow> poller \<Rightarrow> 'k \<Rightarrow> (errno + unit) \<times> 'k" where
  "poller_modify ctl f events p k = poller_control ctl EPOLL_CTL_MOD f events p k"

definition poller_remove :: "'k epoll_ctl \<Rightarrow> fd \<Rightarrow> poller \<Rightarrow> 'k \<Rightarrow> (errno + unit) \<times> 'k" where
  "poller_remove ctl f p k = poller_control ctl EPOLL_CTL_DEL f 0 p k"

text \<open>\<^verbatim>\<open>wait\<close>: \<open>has_buffer\<close> says whether the event array is non-null.\<close>

definition poller_wait ::
  "(fd \<Rightarrow> int \<Rightarrow> int \<Rightarrow> 'k \<Rightarrow> (errno + (fd \<times> u32) list) \<times> 'k) \<Rightarrow> bool \<Rightarrow> int \<Rightarrow> int \<Rightarrow> poller \<Rightarrow> 'k \<Rightarrow>
   (errno + (fd \<times> u32) list) \<times> 'k" where
  "poller_wait wait has_buffer max_events timeout_ms p k =
     (if po_epoll_fd p = -1 then (Inl EBADF, k)
      else if \<not> has_buffer \<or> max_events \<le> 0 then (Inl EINVAL, k)
      else wait (po_epoll_fd p) max_events timeout_ms k)"

section \<open>Ownership\<close>

text \<open>What a set of sockets owns, and that every operation closes or hands over each descriptor once.\<close>

definition owns :: "socket_ops \<Rightarrow> fd list" where
  "owns s = (if so_fd s = -1 then [] else [so_fd s])"

lemma reset_owns:
  "socket_reset f (s, closed) = (s', closed') \<Longrightarrow> closed' = closed @ owns s \<and> owns s' = (if f = -1 then [] else [f])"
  by (auto simp: socket_reset_def owns_def)


end
