(* ===== verification/Connection_Io.thy ===== *)
theory Connection_Io
  imports Socket_Ops
begin

text \<open>
  \<^verbatim>\<open>src/net/http/http_connection_io.h\<close> and \<^verbatim>\<open>.cpp\<close>: the read and write buffers of one client
  connection on its non-blocking socket.
\<close>

section \<open>Model\<close>

definition kReadChunkSize :: nat where "kReadChunkSize = 8192"

record http_connection_io =
  ci_sock :: socket_ops
  ci_read :: string
  ci_write :: string
  ci_offset :: nat

definition http_connection_io_new :: "fd \<Rightarrow> http_connection_io" where
  "http_connection_io_new f = \<lparr>ci_sock = socket_ops_of f, ci_read = [], ci_write = [], ci_offset = 0\<rparr>"

abbreviation io_fd :: "http_connection_io \<Rightarrow> fd" where
  "io_fd io \<equiv> so_fd (ci_sock io)"

definition io_valid :: "http_connection_io \<Rightarrow> bool" where
  "io_valid io \<longleftrightarrow> io_fd io \<ge> 0"

text \<open>\<^verbatim>\<open>recv\<close> on this descriptor into a buffer of the given size.\<close>

type_synonym 'k recv_call = "fd \<Rightarrow> nat \<Rightarrow> 'k \<Rightarrow> recv_result \<times> 'k"
type_synonym 'k send_call = "fd \<Rightarrow> string \<Rightarrow> 'k \<Rightarrow> send_result \<times> 'k"

partial_function (option) read_loop ::
  "'k recv_call \<Rightarrow> int \<Rightarrow> http_connection_io \<Rightarrow> 'k \<Rightarrow> ((errno + int) \<times> http_connection_io \<times> 'k) option" where
  "read_loop recv count io k =
     (case recv (io_fd io) kReadChunkSize k of
        (Received data, k') \<Rightarrow>
          if data \<noteq> [] then read_loop recv (count + int (length data)) (io\<lparr>ci_read := ci_read io @ data\<rparr>) k'
          else Some (Inr count, io, k')
      | (Recv_failed e, k') \<Rightarrow>
          if e = EAGAIN \<or> e = EWOULDBLOCK then Some (Inr count, io, k') else Some (Inl e, io, k'))"

text \<open>The result is the number of bytes, or -1 with the error number.\<close>

definition read_from_socket ::
  "'k recv_call \<Rightarrow> http_connection_io \<Rightarrow> 'k \<Rightarrow> ((errno + int) \<times> http_connection_io \<times> 'k) option" where
  "read_from_socket recv io k = (if \<not> io_valid io then Some (Inl EBADF, io, k) else read_loop recv 0 io k)"

definition queue_write :: "string \<Rightarrow> http_connection_io \<Rightarrow> http_connection_io" where
  "queue_write data io = (if data = [] then io else io\<lparr>ci_write := ci_write io @ data\<rparr>)"

definition flush_done :: "http_connection_io \<Rightarrow> http_connection_io" where
  "flush_done io = (if ci_offset io = length (ci_write io) then io\<lparr>ci_write := [], ci_offset := 0\<rparr> else io)"

text \<open>A \<^verbatim>\<open>send\<close> that returns 0 for a non-empty buffer leaves no error number; it is reported as 0.\<close>

partial_function (option) flush_loop ::
  "'k send_call \<Rightarrow> int \<Rightarrow> http_connection_io \<Rightarrow> 'k \<Rightarrow> ((errno + int) \<times> http_connection_io \<times> 'k) option" where
  "flush_loop send count io k =
     (if ci_offset io < length (ci_write io) then
        (case send (io_fd io) (drop (ci_offset io) (ci_write io)) k of
           (Sent n, k') \<Rightarrow>
             if n > 0 then flush_loop send (count + int n) (io\<lparr>ci_offset := ci_offset io + n\<rparr>) k'
             else Some (Inl 0, io, k')
         | (Send_failed e, k') \<Rightarrow>
             if e = EAGAIN \<or> e = EWOULDBLOCK then Some (Inr count, flush_done io, k') else Some (Inl e, io, k'))
      else Some (Inr count, flush_done io, k))"

definition flush_to_socket ::
  "'k send_call \<Rightarrow> http_connection_io \<Rightarrow> 'k \<Rightarrow> ((errno + int) \<times> http_connection_io \<times> 'k) option" where
  "flush_to_socket send io k = (if \<not> io_valid io then Some (Inl EBADF, io, k) else flush_loop send 0 io k)"

definition take_write_buffer :: "http_connection_io \<Rightarrow> string \<times> http_connection_io" where
  "take_write_buffer io =
     (if ci_offset io = 0 then (ci_write io, io\<lparr>ci_write := [], ci_offset := 0\<rparr>)
      else (drop (ci_offset io) (ci_write io), io\<lparr>ci_write := [], ci_offset := 0\<rparr>))"

definition has_pending_write :: "http_connection_io \<Rightarrow> bool" where
  "has_pending_write io \<longleftrightarrow> ci_offset io < length (ci_write io)"

definition consume_read_bytes :: "nat \<Rightarrow> http_connection_io \<Rightarrow> http_connection_io" where
  "consume_read_bytes bytes io =
     (if bytes = 0 then io
      else if bytes \<ge> length (ci_read io) then io\<lparr>ci_read := []\<rparr>
      else io\<lparr>ci_read := drop bytes (ci_read io)\<rparr>)"

section \<open>Reading\<close>

lemma read_loop_trace:
  assumes "trace (recv (io_fd io) kReadChunkSize) k (map Received chunks @ [r]) k'"
    and "\<forall>c \<in> set chunks. c \<noteq> []" and "r = Received [] \<or> (\<exists>e. r = Recv_failed e)"
  shows "read_loop recv count io k =
     Some (case r of Received _ \<Rightarrow> Inr (count + int (length (concat chunks)))
           | Recv_failed e \<Rightarrow> if e = EAGAIN then Inr (count + int (length (concat chunks))) else Inl e,
           io\<lparr>ci_read := ci_read io @ concat chunks\<rparr>, k')"
  using assms(1,2)
proof (induction chunks arbitrary: count io k)
  case Nil
  then show ?case using assms(3)
    by (subst read_loop.simps) (auto simp: EWOULDBLOCK_def EAGAIN_def)
next
  case (Cons c chunks)
  from Cons.prems(1) obtain k1 where k1: "recv (io_fd io) kReadChunkSize k = (Received c, k1)"
    "trace (recv (io_fd io) kReadChunkSize) k1 (map Received chunks @ [r]) k'" by auto
  let ?io = "io\<lparr>ci_read := ci_read io @ c\<rparr>"
  have "read_loop recv count io k = read_loop recv (count + int (length c)) ?io k1"
    using k1(1) Cons.prems(2) by (subst read_loop.simps) simp
  with Cons.IH [of ?io k1 "count + int (length c)"] k1(2) Cons.prems(2) show ?case
    by (cases r) (simp_all add: add.assoc)
qed

section \<open>Writing\<close>

text \<open>The bytes still to be sent.\<close>

definition pending :: "http_connection_io \<Rightarrow> string" where
  "pending io = drop (ci_offset io) (ci_write io)"

definition io_wf :: "http_connection_io \<Rightarrow> bool" where
  "io_wf io \<longleftrightarrow> ci_offset io \<le> length (ci_write io)"

text \<open>What is documented of \<^verbatim>\<open>send\<close> on a stream socket: it accepts a non-empty prefix of the data, in
  order after what it accepted before, or nothing. \<open>out k f\<close> is what descriptor \<open>f\<close> accepted so far.\<close>

definition stream_send :: "'k send_call \<Rightarrow> ('k \<Rightarrow> fd \<Rightarrow> string) \<Rightarrow> bool" where
  "stream_send send out \<longleftrightarrow>
     (\<forall>f data k. case send f data k of
        (Sent n, k') \<Rightarrow> 0 < n \<and> n \<le> length data \<and> out k' = (out k)(f := out k f @ take n data)
      | (Send_failed e, k') \<Rightarrow> out k' = out k)"

lemma stream_sendD:
  assumes "stream_send send out"
  shows "send f data k = (Sent n, k') \<Longrightarrow> 0 < n \<and> n \<le> length data \<and> out k' = (out k)(f := out k f @ take n data)"
    and "send f data k = (Send_failed e, k') \<Longrightarrow> out k' = out k"
  using assms unfolding stream_send_def by (metis (mono_tags, lifting) case_prod_conv send_result.simps(5),
    metis (mono_tags, lifting) case_prod_conv send_result.simps(6))

lemma pending_flush_done [simp]: "pending (flush_done io) = pending io"
  by (simp add: pending_def flush_done_def)

lemma io_wf_simps [simp]:
  "io_wf (flush_done io) = io_wf io" "io_fd (flush_done io) = io_fd io" "ci_read (flush_done io) = ci_read io"
  by (simp_all add: io_wf_def flush_done_def)

lemma flush_loop_ok:
  assumes "stream_send send out" and "io_wf io"
  shows "\<exists>r io' k'. flush_loop send count io k = Some (r, io', k') \<and> io_wf io' \<and> io_fd io' = io_fd io \<and>
     ci_read io' = ci_read io \<and>
     (\<exists>sent. pending io = sent @ pending io' \<and> out k' = (out k)(io_fd io := out k (io_fd io) @ sent) \<and>
        (\<forall>t. r = Inr t \<longrightarrow> t = count + int (length sent)))"
  using assms(2)
proof (induction "length (ci_write io) - ci_offset io" arbitrary: io count k rule: less_induct)
  case less
  show ?case
  proof (cases "ci_offset io < length (ci_write io)")
    case False
    then show ?thesis using less.prems by (subst flush_loop.simps) (auto simp: fun_upd_idem)
  next
    case True
    show ?thesis
    proof (cases "send (io_fd io) (drop (ci_offset io) (ci_write io)) k")
      case (Pair s k1)
      show ?thesis
      proof (cases s)
        case (Sent n)
        let ?io = "io\<lparr>ci_offset := ci_offset io + n\<rparr>"
        note sent = stream_sendD(1) [OF assms(1) Pair [unfolded Sent]]
        then have "io_wf ?io" "length (ci_write ?io) - ci_offset ?io < length (ci_write io) - ci_offset io"
          using True by (auto simp: io_wf_def)
        from less.hyps [OF this(2,1), of "count + int n" k1] obtain r io' k' sent' where
          IH: "flush_loop send (count + int n) ?io k1 = Some (r, io', k')" "io_wf io'" "io_fd io' = io_fd io"
            "ci_read io' = ci_read io" "pending ?io = sent' @ pending io'"
            "out k' = (out k1)(io_fd io := out k1 (io_fd io) @ sent')"
            "\<forall>t. r = Inr t \<longrightarrow> t = count + int n + int (length sent')" by auto
        have "flush_loop send count io k = Some (r, io', k')"
          using IH(1) Pair Sent sent True by (subst flush_loop.simps) simp
        moreover have "pending io = take n (pending io) @ pending ?io"
          by (simp add: pending_def add.commute flip: drop_drop)
        moreover have "length (take n (pending io)) = n" using sent by (simp add: pending_def)
        ultimately show ?thesis
          using IH sent by (intro exI [of _ r] exI [of _ io'] exI [of _ k'])
            (auto intro!: exI [of _ "take n (pending io) @ sent'"] simp: pending_def)
      next
        case (Send_failed e)
        with stream_sendD(2) [OF assms(1) Pair [unfolded Send_failed]] Pair True less.prems show ?thesis
          by (subst flush_loop.simps) (auto simp: fun_upd_idem)
      qed
    qed
  qed
qed

section \<open>Properties\<close>

text \<open>C26. Reading appends exactly the bytes received, in order, until the socket would block or the
  stream ends: for every sequence of chunks the kernel delivers the call returns, the buffer has grown
  by their concatenation and the result is their length; any other error, an interrupted call included,
  is reported as a failure.\<close>

theorem read_from_socket_appends:
  assumes "io_valid io" and "trace (recv (io_fd io) 8192) k (map Received chunks @ [r]) k'"
    and "\<forall>c \<in> set chunks. c \<noteq> []" and "r = Received [] \<or> r = Recv_failed e"
  shows "read_from_socket recv io k =
    Some (if r = Received [] \<or> e = EAGAIN then Inr (int (length (concat chunks))) else Inl e,
          io\<lparr>ci_read := ci_read io @ concat chunks\<rparr>, k')"
  using read_loop_trace [of recv io k chunks r k' 0] assms
  by (auto simp: read_from_socket_def kReadChunkSize_def)

theorem read_from_socket_appends_witness:
  "read_from_socket (\<lambda>f n. replay (Received [])) (http_connection_io_new 7) [Received ''GET /'', Received '' HTTP'', Recv_failed EAGAIN] =
     Some (Inr 10, (http_connection_io_new 7)\<lparr>ci_read := ''GET / HTTP''\<rparr>, [])"
  using read_from_socket_appends [of "http_connection_io_new 7" "\<lambda>f n. replay (Received [])"
      "[Received ''GET /'', Received '' HTTP'', Recv_failed EAGAIN]" "[''GET /'', '' HTTP'']" "Recv_failed EAGAIN" "[]" EAGAIN]
  by (simp add: io_valid_def http_connection_io_new_def socket_ops_of_def replay_def)

text \<open>C25. Nothing queued for a client is lost, repeated or reordered: whatever the kernel accepts,
  \<open>flush_to_socket\<close> returns, the bytes accepted by the socket followed by the bytes still pending are
  what was accepted before followed by what was pending, and on success the result is the number of
  bytes accepted.\<close>

theorem flush_preserves_stream:
  assumes "stream_send send out" and "io_wf io" and "io_valid io"
  shows "\<exists>r io' k' sent. flush_to_socket send io k = Some (r, io', k') \<and> io_wf io' \<and>
    pending io = sent @ pending io' \<and> out k' = (out k)(io_fd io := out k (io_fd io) @ sent) \<and>
    (\<forall>t. r = Inr t \<longrightarrow> t = int (length sent)) \<and>
    pending (queue_write data io') = pending io' @ data \<and> fst (take_write_buffer io') = pending io'"
  using flush_loop_ok [OF assms(1,2), of 0 k] assms(3)
  by (fastforce simp: flush_to_socket_def queue_write_def take_write_buffer_def pending_def io_wf_def)

definition demo_send :: "(fd \<Rightarrow> string) send_call" where
  "demo_send f data k = (if data = [] then (Send_failed EAGAIN, k) else (Sent 1, k(f := k f @ take 1 data)))"

theorem flush_preserves_stream_witness:
  "\<exists>r io' k' sent. flush_to_socket demo_send (queue_write ''ab'' (http_connection_io_new 3)) (\<lambda>_. []) = Some (r, io', k') \<and>
     ''ab'' = sent @ pending io' \<and> k' 3 = sent"
proof -
  have "stream_send demo_send (\<lambda>k. k)" by (auto simp: stream_send_def demo_send_def Suc_le_eq)
  from flush_preserves_stream [OF this, of "queue_write ''ab'' (http_connection_io_new 3)" "\<lambda>_. []" "[]"]
  show ?thesis
    by (auto simp: io_wf_def io_valid_def http_connection_io_new_def socket_ops_of_def queue_write_def pending_def)
qed

end
