(* ===== verification/Llhttp.thy ===== *)
theory Llhttp
  imports Prelude
begin

text \<open>
  The hand-written part of the bundled parser library \<^verbatim>\<open>third_party/llhttp\<close>: the message framing
  decisions of \<^verbatim>\<open>src/http.c\<close> and the interface functions of \<^verbatim>\<open>src/api.c\<close>. The generated automaton
  \<^verbatim>\<open>src/llhttp.c\<close> is not modelled: \<^verbatim>\<open>llhttp_execute\<close> is a parameter of the parsers that use it, a
  function from the parser state and the input to the callbacks it makes, its result and the new state.
\<close>

section \<open>State and constants\<close>

text \<open>\<open>ll_current\<close> stands for the position in the automaton and its open spans.\<close>

record llhttp =
  ll_current :: nat
  ll_error :: nat
  ll_reason :: string
  ll_content_length :: u64
  ll_type :: u8
  ll_method :: u8
  ll_http_major :: u8
  ll_http_minor :: u8
  ll_lenient_flags :: u16
  ll_upgrade :: u8
  ll_finish :: u8
  ll_flags :: u16
  ll_status_code :: u16

definition HTTP_BOTH :: u8 where "HTTP_BOTH = 0"
definition HTTP_REQUEST :: u8 where "HTTP_REQUEST = 1"
definition HTTP_RESPONSE :: u8 where "HTTP_RESPONSE = 2"

definition HTTP_FINISH_SAFE :: u8 where "HTTP_FINISH_SAFE = 0"
definition HTTP_FINISH_SAFE_WITH_CB :: u8 where "HTTP_FINISH_SAFE_WITH_CB = 1"
definition HTTP_FINISH_UNSAFE :: u8 where "HTTP_FINISH_UNSAFE = 2"

definition HTTP_CONNECT :: u8 where "HTTP_CONNECT = 5"

definition HPE_OK :: nat where "HPE_OK = 0"
definition HPE_INVALID_EOF_STATE :: nat where "HPE_INVALID_EOF_STATE = 14"
definition HPE_PAUSED :: nat where "HPE_PAUSED = 21"
definition HPE_PAUSED_UPGRADE :: nat where "HPE_PAUSED_UPGRADE = 22"

text \<open>A flag is a bit of the mask.\<close>

definition F_CONNECTION_KEEP_ALIVE :: u16 where "F_CONNECTION_KEEP_ALIVE = 0x1"
definition F_CONNECTION_CLOSE :: u16 where "F_CONNECTION_CLOSE = 0x2"
definition F_CONNECTION_UPGRADE :: u16 where "F_CONNECTION_UPGRADE = 0x4"
definition F_CHUNKED :: u16 where "F_CHUNKED = 0x8"
definition F_UPGRADE :: u16 where "F_UPGRADE = 0x10"
definition F_CONTENT_LENGTH :: u16 where "F_CONTENT_LENGTH = 0x20"
definition F_SKIPBODY :: u16 where "F_SKIPBODY = 0x40"
definition F_TRAILING :: u16 where "F_TRAILING = 0x80"
definition F_TRANSFER_ENCODING :: u16 where "F_TRANSFER_ENCODING = 0x200"

datatype lenient =
    LENIENT_HEADERS | LENIENT_CHUNKED_LENGTH | LENIENT_KEEP_ALIVE | LENIENT_TRANSFER_ENCODING
  | LENIENT_VERSION | LENIENT_DATA_AFTER_CLOSE | LENIENT_OPTIONAL_LF_AFTER_CR
  | LENIENT_OPTIONAL_CRLF_AFTER_CHUNK | LENIENT_OPTIONAL_CR_BEFORE_LF
  | LENIENT_SPACES_AFTER_CHUNK_SIZE | LENIENT_HEADER_VALUE_RELAXED

fun lenient_bit :: "lenient \<Rightarrow> u16" where
  "lenient_bit LENIENT_HEADERS = 0x1"
| "lenient_bit LENIENT_CHUNKED_LENGTH = 0x2"
| "lenient_bit LENIENT_KEEP_ALIVE = 0x4"
| "lenient_bit LENIENT_TRANSFER_ENCODING = 0x8"
| "lenient_bit LENIENT_VERSION = 0x10"
| "lenient_bit LENIENT_DATA_AFTER_CLOSE = 0x20"
| "lenient_bit LENIENT_OPTIONAL_LF_AFTER_CR = 0x40"
| "lenient_bit LENIENT_OPTIONAL_CRLF_AFTER_CHUNK = 0x80"
| "lenient_bit LENIENT_OPTIONAL_CR_BEFORE_LF = 0x100"
| "lenient_bit LENIENT_SPACES_AFTER_CHUNK_SIZE = 0x200"
| "lenient_bit LENIENT_HEADER_VALUE_RELAXED = 0x400"

definition has_flag :: "llhttp \<Rightarrow> u16 \<Rightarrow> bool" where
  "has_flag p f \<longleftrightarrow> ll_flags p AND f \<noteq> 0"

definition is_lenient :: "llhttp \<Rightarrow> lenient \<Rightarrow> bool" where
  "is_lenient p l \<longleftrightarrow> ll_lenient_flags p AND lenient_bit l \<noteq> 0"

section \<open>Names\<close>

definition http_errno_map :: "(nat \<times> string) list" where
  "http_errno_map =
    [(0, ''HPE_OK''), (1, ''HPE_INTERNAL''), (2, ''HPE_STRICT''), (3, ''HPE_LF_EXPECTED''),
     (4, ''HPE_UNEXPECTED_CONTENT_LENGTH''), (5, ''HPE_CLOSED_CONNECTION''),
     (6, ''HPE_INVALID_METHOD''), (7, ''HPE_INVALID_URL''), (8, ''HPE_INVALID_CONSTANT''),
     (9, ''HPE_INVALID_VERSION''), (10, ''HPE_INVALID_HEADER_TOKEN''),
     (11, ''HPE_INVALID_CONTENT_LENGTH''), (12, ''HPE_INVALID_CHUNK_SIZE''),
     (13, ''HPE_INVALID_STATUS''), (14, ''HPE_INVALID_EOF_STATE''),
     (15, ''HPE_INVALID_TRANSFER_ENCODING''), (16, ''HPE_CB_MESSAGE_BEGIN''),
     (17, ''HPE_CB_HEADERS_COMPLETE''), (18, ''HPE_CB_MESSAGE_COMPLETE''),
     (19, ''HPE_CB_CHUNK_HEADER''), (20, ''HPE_CB_CHUNK_COMPLETE''), (21, ''HPE_PAUSED''),
     (22, ''HPE_PAUSED_UPGRADE''), (23, ''HPE_PAUSED_H2_UPGRADE''), (24, ''HPE_USER''),
     (25, ''HPE_CR_EXPECTED''), (26, ''HPE_CB_URL_COMPLETE''), (27, ''HPE_CB_STATUS_COMPLETE''),
     (28, ''HPE_CB_HEADER_FIELD_COMPLETE''), (29, ''HPE_CB_HEADER_VALUE_COMPLETE''),
     (30, ''HPE_UNEXPECTED_SPACE''), (31, ''HPE_CB_RESET''), (32, ''HPE_CB_METHOD_COMPLETE''),
     (33, ''HPE_CB_VERSION_COMPLETE''), (34, ''HPE_CB_CHUNK_EXTENSION_NAME_COMPLETE''),
     (35, ''HPE_CB_CHUNK_EXTENSION_VALUE_COMPLETE''), (38, ''HPE_CB_PROTOCOL_COMPLETE'')]"

definition http_method_map :: "(nat \<times> string) list" where
  "http_method_map =
    [(0, ''DELETE''), (1, ''GET''), (2, ''HEAD''), (3, ''POST''), (4, ''PUT''),
     (5, ''CONNECT''), (6, ''OPTIONS''), (7, ''TRACE''), (8, ''COPY''), (9, ''LOCK''),
     (10, ''MKCOL''), (11, ''MOVE''), (12, ''PROPFIND''), (13, ''PROPPATCH''), (14, ''SEARCH''),
     (15, ''UNLOCK''), (16, ''BIND''), (17, ''REBIND''), (18, ''UNBIND''), (19, ''ACL''),
     (20, ''REPORT''), (21, ''MKACTIVITY''), (22, ''CHECKOUT''), (23, ''MERGE''),
     (24, ''M-SEARCH''), (25, ''NOTIFY''), (26, ''SUBSCRIBE''), (27, ''UNSUBSCRIBE''),
     (28, ''PATCH''), (29, ''PURGE''), (30, ''MKCALENDAR''), (31, ''LINK''), (32, ''UNLINK''),
     (33, ''SOURCE''), (34, ''PRI''), (35, ''DESCRIBE''), (36, ''ANNOUNCE''), (37, ''SETUP''),
     (38, ''PLAY''), (39, ''PAUSE''), (40, ''TEARDOWN''), (41, ''GET_PARAMETER''),
     (42, ''SET_PARAMETER''), (43, ''REDIRECT''), (44, ''RECORD''), (45, ''FLUSH''),
     (46, ''QUERY'')]"

definition http_status_map :: "(nat \<times> string) list" where
  "http_status_map =
    [(100, ''CONTINUE''), (101, ''SWITCHING_PROTOCOLS''), (102, ''PROCESSING''),
     (103, ''EARLY_HINTS''), (110, ''RESPONSE_IS_STALE''), (111, ''REVALIDATION_FAILED''),
     (112, ''DISCONNECTED_OPERATION''), (113, ''HEURISTIC_EXPIRATION''),
     (199, ''MISCELLANEOUS_WARNING''), (200, ''OK''), (201, ''CREATED''), (202, ''ACCEPTED''),
     (203, ''NON_AUTHORITATIVE_INFORMATION''), (204, ''NO_CONTENT''), (205, ''RESET_CONTENT''),
     (206, ''PARTIAL_CONTENT''), (207, ''MULTI_STATUS''), (208, ''ALREADY_REPORTED''),
     (214, ''TRANSFORMATION_APPLIED''), (226, ''IM_USED''),
     (299, ''MISCELLANEOUS_PERSISTENT_WARNING''), (300, ''MULTIPLE_CHOICES''),
     (301, ''MOVED_PERMANENTLY''), (302, ''FOUND''), (303, ''SEE_OTHER''),
     (304, ''NOT_MODIFIED''), (305, ''USE_PROXY''), (306, ''SWITCH_PROXY''),
     (307, ''TEMPORARY_REDIRECT''), (308, ''PERMANENT_REDIRECT''), (400, ''BAD_REQUEST''),
     (401, ''UNAUTHORIZED''), (402, ''PAYMENT_REQUIRED''), (403, ''FORBIDDEN''),
     (404, ''NOT_FOUND''), (405, ''METHOD_NOT_ALLOWED''), (406, ''NOT_ACCEPTABLE''),
     (407, ''PROXY_AUTHENTICATION_REQUIRED''), (408, ''REQUEST_TIMEOUT''), (409, ''CONFLICT''),
     (410, ''GONE''), (411, ''LENGTH_REQUIRED''), (412, ''PRECONDITION_FAILED''),
     (413, ''PAYLOAD_TOO_LARGE''), (414, ''URI_TOO_LONG''), (415, ''UNSUPPORTED_MEDIA_TYPE''),
     (416, ''RANGE_NOT_SATISFIABLE''), (417, ''EXPECTATION_FAILED''), (418, ''IM_A_TEAPOT''),
     (419, ''PAGE_EXPIRED''), (420, ''ENHANCE_YOUR_CALM''), (421, ''MISDIRECTED_REQUEST''),
     (422, ''UNPROCESSABLE_ENTITY''), (423, ''LOCKED''), (424, ''FAILED_DEPENDENCY''),
     (425, ''TOO_EARLY''), (426, ''UPGRADE_REQUIRED''), (428, ''PRECONDITION_REQUIRED''),
     (429, ''TOO_MANY_REQUESTS''), (430, ''REQUEST_HEADER_FIELDS_TOO_LARGE_UNOFFICIAL''),
     (431, ''REQUEST_HEADER_FIELDS_TOO_LARGE''), (440, ''LOGIN_TIMEOUT''),
     (444, ''NO_RESPONSE''), (449, ''RETRY_WITH''), (450, ''BLOCKED_BY_PARENTAL_CONTROL''),
     (451, ''UNAVAILABLE_FOR_LEGAL_REASONS''), (460, ''CLIENT_CLOSED_LOAD_BALANCED_REQUEST''),
     (463, ''INVALID_X_FORWARDED_FOR''), (494, ''REQUEST_HEADER_TOO_LARGE''),
     (495, ''SSL_CERTIFICATE_ERROR''), (496, ''SSL_CERTIFICATE_REQUIRED''),
     (497, ''HTTP_REQUEST_SENT_TO_HTTPS_PORT''), (498, ''INVALID_TOKEN''),
     (499, ''CLIENT_CLOSED_REQUEST''), (500, ''INTERNAL_SERVER_ERROR''),
     (501, ''NOT_IMPLEMENTED''), (502, ''BAD_GATEWAY''), (503, ''SERVICE_UNAVAILABLE''),
     (504, ''GATEWAY_TIMEOUT''), (505, ''HTTP_VERSION_NOT_SUPPORTED''),
     (506, ''VARIANT_ALSO_NEGOTIATES''), (507, ''INSUFFICIENT_STORAGE''),
     (508, ''LOOP_DETECTED''), (509, ''BANDWIDTH_LIMIT_EXCEEDED''), (510, ''NOT_EXTENDED''),
     (511, ''NETWORK_AUTHENTICATION_REQUIRED''), (520, ''WEB_SERVER_UNKNOWN_ERROR''),
     (521, ''WEB_SERVER_IS_DOWN''), (522, ''CONNECTION_TIMEOUT''),
     (523, ''ORIGIN_IS_UNREACHABLE''), (524, ''TIMEOUT_OCCURED''),
     (525, ''SSL_HANDSHAKE_FAILED''), (526, ''INVALID_SSL_CERTIFICATE''),
     (527, ''RAILGUN_ERROR''), (529, ''SITE_IS_OVERLOADED''), (530, ''SITE_IS_FROZEN''),
     (561, ''IDENTITY_PROVIDER_AUTHENTICATION_ERROR''), (598, ''NETWORK_READ_TIMEOUT''),
     (599, ''NETWORK_CONNECT_TIMEOUT'')]"

text \<open>The functions abort on a number outside their table.\<close>

definition llhttp_errno_name :: "nat \<Rightarrow> string option" where
  "llhttp_errno_name err = map_of http_errno_map err"

definition llhttp_method_name :: "nat \<Rightarrow> string option" where
  "llhttp_method_name m = map_of http_method_map m"

definition llhttp_status_name :: "nat \<Rightarrow> string option" where
  "llhttp_status_name status = map_of http_status_map status"

section \<open>Framing decisions\<close>

definition llhttp_before_headers_complete :: "llhttp \<Rightarrow> llhttp" where
  "llhttp_before_headers_complete p =
     (if has_flag p F_UPGRADE \<and> has_flag p F_CONNECTION_UPGRADE
      then p\<lparr>ll_upgrade := (if ll_type p = HTTP_REQUEST \<or> ll_status_code p = 101 then 1 else 0)\<rparr>
      else p\<lparr>ll_upgrade := (if ll_method p = HTTP_CONNECT then 1 else 0)\<rparr>)"

definition llhttp_message_needs_eof :: "llhttp \<Rightarrow> bool" where
  "llhttp_message_needs_eof p =
     (if ll_type p = HTTP_REQUEST then False
      else if ll_status_code p div 100 = 1 \<or> ll_status_code p = 204 \<or> ll_status_code p = 304 \<or>
              has_flag p F_SKIPBODY then False
      else if has_flag p F_TRANSFER_ENCODING \<and> \<not> has_flag p F_CHUNKED then True
      else if has_flag p (F_CHUNKED OR F_CONTENT_LENGTH) then False
      else True)"

definition llhttp_should_keep_alive :: "llhttp \<Rightarrow> bool" where
  "llhttp_should_keep_alive p =
     (if ll_http_major p > 0 \<and> ll_http_minor p > 0
      then (if has_flag p F_CONNECTION_CLOSE then False else \<not> llhttp_message_needs_eof p)
      else (if \<not> has_flag p F_CONNECTION_KEEP_ALIVE then False else \<not> llhttp_message_needs_eof p))"

text \<open>
  How the body of the message is delimited. The source numbers the cases 0 (message complete),
  1 (message complete and pause), 2 (chunks), 3 (counted), 4 (until the end of the connection) and
  5 (refused).
\<close>

datatype framing = No_body | Upgrade_pause | Chunked | By_length | Until_eof | Invalid_encoding

definition llhttp_after_headers_complete :: "llhttp \<Rightarrow> framing" where
  "llhttp_after_headers_complete p =
     (let hasBody = has_flag p F_CHUNKED \<or> ll_content_length p > 0
      in if ll_upgrade p \<noteq> 0 \<and> (ll_method p = HTTP_CONNECT \<or> has_flag p F_SKIPBODY \<or> \<not> hasBody) \<or>
            ll_type p = HTTP_RESPONSE \<and> ll_status_code p = 101 then Upgrade_pause
         else if ll_type p = HTTP_RESPONSE \<and> ll_status_code p = 100 then No_body
         else if has_flag p F_SKIPBODY \<or>
                 ll_type p = HTTP_RESPONSE \<and>
                   (ll_status_code p = 102 \<or> ll_status_code p = 103 \<or> ll_status_code p = 204 \<or>
                    ll_status_code p = 304) then No_body
         else if has_flag p F_CHUNKED then Chunked
         else if has_flag p F_TRANSFER_ENCODING then
           (if ll_type p = HTTP_REQUEST \<and> \<not> is_lenient p LENIENT_CHUNKED_LENGTH \<and>
               \<not> is_lenient p LENIENT_TRANSFER_ENCODING
            then Invalid_encoding else Until_eof)
         else if \<not> has_flag p F_CONTENT_LENGTH then
           (if \<not> llhttp_message_needs_eof p then No_body else Until_eof)
         else if ll_content_length p = 0 then No_body
         else By_length)"

definition llhttp_after_message_complete :: "llhttp \<Rightarrow> bool \<times> llhttp" where
  "llhttp_after_message_complete p =
     (llhttp_should_keep_alive p, p\<lparr>ll_finish := HTTP_FINISH_SAFE, ll_flags := 0\<rparr>)"

section \<open>Interface\<close>

text \<open>\<open>start\<close> is the start state of the automaton.\<close>

definition llhttp_internal_init :: "nat \<Rightarrow> llhttp" where
  "llhttp_internal_init start =
     \<lparr>ll_current = start, ll_error = 0, ll_reason = [], ll_content_length = 0, ll_type = 0, ll_method = 0,
      ll_http_major = 0, ll_http_minor = 0, ll_lenient_flags = 0, ll_upgrade = 0, ll_finish = 0,
      ll_flags = 0, ll_status_code = 0\<rparr>"

definition llhttp_init :: "nat \<Rightarrow> u8 \<Rightarrow> llhttp" where
  "llhttp_init start type = (llhttp_internal_init start)\<lparr>ll_type := type\<rparr>"

definition llhttp_reset :: "nat \<Rightarrow> llhttp \<Rightarrow> llhttp" where
  "llhttp_reset start p =
     (llhttp_internal_init start)\<lparr>ll_type := ll_type p, ll_lenient_flags := ll_lenient_flags p\<rparr>"

text \<open>
  \<^verbatim>\<open>llhttp_finish\<close>: the first component says whether \<^verbatim>\<open>on_message_complete\<close> is called (our callbacks
  always return 0), the second is the result; \<open>None\<close> is the call to \<^verbatim>\<open>abort\<close>.
\<close>

definition llhttp_finish :: "llhttp \<Rightarrow> (bool \<times> nat \<times> llhttp) option" where
  "llhttp_finish p =
     (if ll_error p \<noteq> 0 then Some (False, 0, p)
      else if ll_finish p = HTTP_FINISH_SAFE_WITH_CB then Some (True, HPE_OK, p)
      else if ll_finish p = HTTP_FINISH_SAFE then Some (False, HPE_OK, p)
      else if ll_finish p = HTTP_FINISH_UNSAFE
      then Some (False, HPE_INVALID_EOF_STATE, p\<lparr>ll_reason := ''Invalid EOF state''\<rparr>)
      else None)"

definition llhttp_pause :: "llhttp \<Rightarrow> llhttp" where
  "llhttp_pause p = (if ll_error p \<noteq> HPE_OK then p else p\<lparr>ll_error := HPE_PAUSED, ll_reason := ''Paused''\<rparr>)"

definition llhttp_resume :: "llhttp \<Rightarrow> llhttp" where
  "llhttp_resume p = (if ll_error p \<noteq> HPE_PAUSED then p else p\<lparr>ll_error := 0\<rparr>)"

definition llhttp_resume_after_upgrade :: "llhttp \<Rightarrow> llhttp" where
  "llhttp_resume_after_upgrade p = (if ll_error p \<noteq> HPE_PAUSED_UPGRADE then p else p\<lparr>ll_error := 0\<rparr>)"

text \<open>The eleven \<^verbatim>\<open>llhttp_set_lenient_\<close> functions differ only in their bit.\<close>

definition llhttp_set_lenient :: "lenient \<Rightarrow> bool \<Rightarrow> llhttp \<Rightarrow> llhttp" where
  "llhttp_set_lenient l enabled p =
     (if enabled then p\<lparr>ll_lenient_flags := ll_lenient_flags p OR lenient_bit l\<rparr>
      else p\<lparr>ll_lenient_flags := ll_lenient_flags p AND NOT (lenient_bit l)\<rparr>)"

text \<open>The callbacks of one \<^verbatim>\<open>llhttp_execute\<close> that our settings install. A callback that looks at the
  parser sees the state given with its event.\<close>

datatype llhttp_event =
    Message_begin
  | Url string
  | Status string
  | Version string
  | Header_field string
  | Header_value string
  | Headers_complete llhttp
  | Body string
  | Message_complete

type_synonym llhttp_execute = "llhttp \<Rightarrow> string \<Rightarrow> llhttp_event list \<times> nat \<times> llhttp"

section \<open>Properties\<close>



text \<open>A connection is kept alive only after a message whose end is known without closing the
  connection: if \<open>llhttp_should_keep_alive\<close> holds for a response outside the 1xx range, its body is
  never read until the end of the connection.\<close>

theorem keep_alive_framed:
  assumes "ll_type p = HTTP_RESPONSE" and "ll_status_code p div 100 \<noteq> 1" and "llhttp_should_keep_alive p"
  shows "llhttp_after_headers_complete p \<noteq> Until_eof"
  using assms
  by (auto simp: llhttp_after_headers_complete_def llhttp_should_keep_alive_def llhttp_message_needs_eof_def Let_def
      HTTP_REQUEST_def HTTP_RESPONSE_def split: if_splits)

theorem keep_alive_framed_witness:
  "llhttp_after_headers_complete ((llhttp_init 0 HTTP_RESPONSE)
     \<lparr>ll_http_major := 1, ll_http_minor := 1, ll_status_code := 200, ll_flags := 0x20\<rparr>) \<noteq> Until_eof"
  using keep_alive_framed [of "(llhttp_init 0 HTTP_RESPONSE)
     \<lparr>ll_http_major := 1, ll_http_minor := 1, ll_status_code := 200, ll_flags := 0x20\<rparr>"]
  by (simp add: llhttp_init_def llhttp_internal_init_def llhttp_should_keep_alive_def
      llhttp_message_needs_eof_def has_flag_def HTTP_REQUEST_def HTTP_RESPONSE_def F_CONNECTION_CLOSE_def
      F_SKIPBODY_def F_TRANSFER_ENCODING_def F_CHUNKED_def F_CONTENT_LENGTH_def)

end
