(* ===== verification/Header_Assembly.thy ===== *)
theory Header_Assembly
  imports Llhttp "HOL-Library.Monad_Syntax"
begin

text \<open>
  The way both HTTP parsers collect headers from the pieces in which \<^verbatim>\<open>llhttp\<close> delivers them. The two
  classes repeat the same three member functions; the locale states what they do to the collected
  state, and its lemmas show that the headers do not depend on how the pieces were cut.
\<close>

type_synonym header_map = "(string \<times> string) list"

definition to_lower_ascii :: "string \<Rightarrow> string" where
  "to_lower_ascii v = map tolower v"

lemma to_lower_idem [simp]: "to_lower_ascii (to_lower_ascii s) = to_lower_ascii s"
  by (simp add: to_lower_ascii_def)

lemma to_lower_Nil [simp]: "to_lower_ascii s = [] \<longleftrightarrow> s = []"
  by (simp add: to_lower_ascii_def)

text \<open>What \<^verbatim>\<open>finish_pending_header\<close> does to the header map.\<close>

definition put_header :: "string \<Rightarrow> string \<Rightarrow> header_map \<Rightarrow> header_map" where
  "put_header f v h = (if f = [] then h else AList.update (to_lower_ascii f) v h)"

text \<open>
  \<open>hc_view\<close> is the pending field name, the pending value, whether a value piece came last, and the
  headers; \<open>hc_rest\<close> is everything else.
\<close>

locale header_callbacks =
  fixes hc_view :: "'p \<Rightarrow> string \<times> string \<times> bool \<times> header_map"
    and hc_rest :: "'p \<Rightarrow> 'r"
    and hc_field :: "string \<Rightarrow> 'p \<Rightarrow> 'p"
    and hc_value :: "string \<Rightarrow> 'p \<Rightarrow> 'p"
    and hc_finish :: "'p \<Rightarrow> 'p"
  assumes view_field: "hc_view p = (f, v, l, h) \<Longrightarrow>
            hc_view (hc_field s p) = (if l then (s, [], False, put_header f v h) else (f @ s, v, False, h))"
    and view_value: "hc_view p = (f, v, l, h) \<Longrightarrow> hc_view (hc_value s p) = (f, v @ s, True, h)"
    and view_finish: "hc_view p = (f, v, l, h) \<Longrightarrow> hc_view (hc_finish p) = (f, v, l, put_header f v h)"
    and rest_field: "hc_rest (hc_field s p) = hc_rest p"
    and rest_value: "hc_rest (hc_value s p) = hc_rest p"
    and rest_finish: "hc_rest (hc_finish p) = hc_rest p"
begin

definition hc_pending :: "'p \<Rightarrow> bool" where
  "hc_pending p \<longleftrightarrow> (case hc_view p of (f, v, l, h) \<Rightarrow> l \<or> f = [] \<and> v = [])"

definition hc_headers :: "'p \<Rightarrow> header_map" where
  "hc_headers p = (case hc_view p of (f, v, l, h) \<Rightarrow> put_header f v h)"

text \<open>One header, its name and value each in at least one piece.\<close>

definition hc_header :: "string list \<times> string list \<Rightarrow> 'p \<Rightarrow> 'p" where
  "hc_header x p = fold hc_value (snd x) (fold hc_field (fst x) p)"

lemma fold_field:
  "hc_view p = (f, v, False, h) \<Longrightarrow> hc_view (fold hc_field fs p) = (f @ concat fs, v, False, h)"
proof (induction fs arbitrary: p f)
  case (Cons s fs)
  then show ?case using Cons.IH [of "hc_field s p" "f @ s"] view_field [OF Cons.prems, of s] by simp
qed simp

lemma fold_value:
  "hc_view p = (f, v, l, h) \<Longrightarrow> vs \<noteq> [] \<Longrightarrow> hc_view (fold hc_value vs p) = (f, v @ concat vs, True, h)"
proof (induction vs arbitrary: p v l)
  case (Cons s vs)
  then show ?case
    using Cons.IH [of "hc_value s p" "v @ s" True] view_value [OF Cons.prems(1), of s] by (cases vs) auto
qed simp

lemma header_view:
  assumes "hc_pending p" and "fs \<noteq> []" and "vs \<noteq> []"
  shows "hc_view (hc_header (fs, vs) p) = (concat fs, concat vs, True, hc_headers p)"
proof -
  obtain f v l h where p: "hc_view p = (f, v, l, h)" by (cases "hc_view p")
  obtain s fs' where fs: "fs = s # fs'" using assms(2) by (cases fs) auto
  have "hc_view (hc_field s p) = (s, [], False, hc_headers p)"
    using assms(1) view_field [OF p, of s] p by (auto simp: hc_pending_def hc_headers_def put_header_def)
  from fold_field [OF this, of fs'] have "hc_view (fold hc_field fs p) = (concat fs, [], False, hc_headers p)"
    by (simp add: fs)
  from fold_value [OF this assms(3)] show ?thesis by (simp add: hc_header_def)
qed

lemma headers_run:
  assumes "hc_pending p" and "\<forall>(fs, vs) \<in> set hs. fs \<noteq> [] \<and> vs \<noteq> []"
  shows "hc_pending (fold hc_header hs p) \<and>
    hc_headers (fold hc_header hs p) = fold (\<lambda>(fs, vs). put_header (concat fs) (concat vs)) hs (hc_headers p)"
  using assms
proof (induction hs arbitrary: p)
  case (Cons x hs)
  obtain fs vs where x: "x = (fs, vs)" by (cases x)
  from Cons.prems x have v: "hc_view (hc_header x p) = (concat fs, concat vs, True, hc_headers p)"
    using header_view [of p fs vs] by simp
  then have "hc_pending (hc_header x p)" "hc_headers (hc_header x p) = put_header (concat fs) (concat vs) (hc_headers p)"
    by (simp_all add: hc_pending_def hc_headers_def)
  with Cons.IH [of "hc_header x p"] Cons.prems(2) x show ?case by simp
qed simp

lemma rest_run: "hc_rest (fold hc_header hs p) = hc_rest p"
proof -
  have "hc_rest (fold hc_field fs q) = hc_rest q" for fs q
    by (induction fs arbitrary: q) (simp_all add: rest_field)
  moreover have "hc_rest (fold hc_value vs q) = hc_rest q" for vs q
    by (induction vs arbitrary: q) (simp_all add: rest_value)
  ultimately show ?thesis by (induction hs arbitrary: p) (simp_all add: hc_header_def)
qed

lemma headers_finish:
  "hc_view (hc_finish p) = (fst (hc_view p), fst (snd (hc_view p)), fst (snd (snd (hc_view p))), hc_headers p)"
  by (cases "hc_view p") (simp add: view_finish hc_headers_def)

end

text \<open>The events of a header block.\<close>

definition header_events :: "(string list \<times> string list) list \<Rightarrow> llhttp_event list" where
  "header_events hs = concat (map (\<lambda>(fs, vs). map Header_field fs @ map Header_value vs) hs)"

definition assemble :: "(string list \<times> string list) list \<Rightarrow> header_map" where
  "assemble hs = fold (\<lambda>(fs, vs). put_header (concat fs) (concat vs)) hs []"

end
