(* ===== verification/Request_Parser.thy ===== *)
theory Request_Parser
  imports Header_Assembly
begin

text \<open>
  \<^verbatim>\<open>src/net/http/http_request_parser.h\<close> and \<^verbatim>\<open>.cpp\<close>: the callbacks that turn the events of
  \<^verbatim>\<open>llhttp\<close> into a request, and the parsing of the target host and port. The automaton is the
  argument \<open>execute\<close>.
\<close>

section \<open>Model\<close>

datatype parse_state = kReadingRequest | kMessageComplete | kUpgradedTunnel | kParseError

record request_info =
  ri_method :: string
  ri_url :: string
  ri_version :: string
  ri_host :: string
  ri_port :: u16
  ri_content_length :: u64
  ri_chunked :: bool
  ri_keep_alive :: bool
  ri_is_connect :: bool
  ri_headers :: header_map
  ri_body :: string

definition request_info_empty :: request_info where
  "request_info_empty =
     \<lparr>ri_method = [], ri_url = [], ri_version = [], ri_host = [], ri_port = 0, ri_content_length = 0,
      ri_chunked = False, ri_keep_alive = False, ri_is_connect = False, ri_headers = [], ri_body = []\<rparr>"

record http_request_parser =
  rp_parser :: llhttp
  rp_state :: parse_state
  rp_error :: string
  rp_request :: request_info
  rp_field :: string
  rp_value :: string
  rp_last_was_value :: bool

definition http_request_parser_new :: "nat \<Rightarrow> http_request_parser" where
  "http_request_parser_new start =
     \<lparr>rp_parser = llhttp_init start HTTP_REQUEST, rp_state = kReadingRequest, rp_error = [],
      rp_request = request_info_empty, rp_field = [], rp_value = [], rp_last_was_value = False\<rparr>"

definition clear_request_runtime :: "http_request_parser \<Rightarrow> http_request_parser" where
  "clear_request_runtime p =
     p\<lparr>rp_request := request_info_empty, rp_field := [], rp_value := [], rp_last_was_value := False\<rparr>"

definition is_message_complete :: "http_request_parser \<Rightarrow> bool" where
  "is_message_complete p \<longleftrightarrow> rp_state p = kMessageComplete \<or> rp_state p = kUpgradedTunnel"

definition is_connect_tunnel :: "http_request_parser \<Rightarrow> bool" where
  "is_connect_tunnel p \<longleftrightarrow> rp_state p = kUpgradedTunnel"

definition has_parse_error :: "http_request_parser \<Rightarrow> bool" where
  "has_parse_error p \<longleftrightarrow> rp_state p = kParseError"

text \<open>\<^verbatim>\<open>parse_host_port\<close> gives the host and the port; \<open>strip\<close> is its two trimming loops.\<close>

definition strip :: "string \<Rightarrow> string" where
  "strip s = rev (dropWhile isspace (rev (dropWhile isspace s)))"

definition port_of :: "string \<Rightarrow> u16" where
  "port_of s = ucast (st_value (strtoul (c_str s)))"

definition parse_host_port :: "string \<Rightarrow> string \<times> u16" where
  "parse_host_port host_port0 =
     (let host_port = strip host_port0
      in if host_port = [] then ([], 0)
         else if hd host_port = CHR ''['' then
           (case find_char CHR '']'' host_port 0 of
              None \<Rightarrow> (host_port, 0)
            | Some e \<Rightarrow>
                (substr host_port 1 (e - 1),
                 if e + 2 \<le> length host_port \<and> host_port ! (e + 1) = CHR '':''
                 then port_of (drop (e + 2) host_port) else 0))
         else
           (case rfind_char CHR '':'' host_port of
              None \<Rightarrow> (host_port, 0)
            | Some colon_pos \<Rightarrow>
                if find_char CHR '':'' host_port 0 \<noteq> Some colon_pos then (host_port, 0)
                else (take colon_pos host_port, port_of (drop (colon_pos + 1) host_port))))"

definition finish_pending_header :: "http_request_parser \<Rightarrow> http_request_parser" where
  "finish_pending_header p =
     (if rp_field p = [] then p
      else p\<lparr>rp_request := (rp_request p)\<lparr>ri_headers :=
              AList.update (to_lower_ascii (rp_field p)) (rp_value p) (ri_headers (rp_request p))\<rparr>\<rparr>)"

definition post_process_headers :: "request_info \<Rightarrow> request_info" where
  "post_process_headers r =
     (let r1 = (case map_of (ri_headers r) ''transfer-encoding'' of
                  None \<Rightarrow> r
                | Some te \<Rightarrow> r\<lparr>ri_chunked := (find_str ''chunked'' (to_lower_ascii te) 0 \<noteq> None)\<rparr>)
      in if ri_is_connect r1
         then (case parse_host_port (ri_url r1) of (h, p) \<Rightarrow> r1\<lparr>ri_host := h, ri_port := p\<rparr>)
         else (case map_of (ri_headers r1) ''host'' of
                 None \<Rightarrow> r1
               | Some hv \<Rightarrow>
                   (case parse_host_port hv of (h, p) \<Rightarrow>
                      r1\<lparr>ri_host := h, ri_port := (if p = 0 then 80 else p)\<rparr>)))"

definition on_message_begin_cb :: "http_request_parser \<Rightarrow> http_request_parser" where
  "on_message_begin_cb p = (clear_request_runtime p)\<lparr>rp_state := kReadingRequest\<rparr>"

definition on_url_cb :: "string \<Rightarrow> http_request_parser \<Rightarrow> http_request_parser" where
  "on_url_cb s p = p\<lparr>rp_request := (rp_request p)\<lparr>ri_url := ri_url (rp_request p) @ s\<rparr>\<rparr>"

definition on_version_cb :: "string \<Rightarrow> http_request_parser \<Rightarrow> http_request_parser" where
  "on_version_cb s p = p\<lparr>rp_request := (rp_request p)\<lparr>ri_version := ri_version (rp_request p) @ s\<rparr>\<rparr>"

definition on_header_field_cb :: "string \<Rightarrow> http_request_parser \<Rightarrow> http_request_parser" where
  "on_header_field_cb s p =
     (let p1 = (if rp_last_was_value p
                then (finish_pending_header p)\<lparr>rp_field := [], rp_value := [], rp_last_was_value := False\<rparr>
                else p)
      in p1\<lparr>rp_field := rp_field p1 @ s\<rparr>)"

definition on_header_value_cb :: "string \<Rightarrow> http_request_parser \<Rightarrow> http_request_parser" where
  "on_header_value_cb s p = p\<lparr>rp_value := rp_value p @ s, rp_last_was_value := True\<rparr>"

text \<open>\<open>None\<close>: \<^verbatim>\<open>llhttp_method_name\<close> aborts on a number that is no method.\<close>

definition on_headers_complete_cb :: "llhttp \<Rightarrow> http_request_parser \<Rightarrow> http_request_parser option" where
  "on_headers_complete_cb ll p =
     (let p1 = finish_pending_header p
      in do {
        m \<leftarrow> llhttp_method_name (unat (ll_method ll));
        Some (p1\<lparr>rp_request := post_process_headers ((rp_request p1)
                \<lparr>ri_method := m, ri_keep_alive := llhttp_should_keep_alive ll,
                 ri_content_length := ll_content_length ll, ri_is_connect := (ll_method ll = HTTP_CONNECT)\<rparr>)\<rparr>)
      })"

definition on_body_cb :: "string \<Rightarrow> http_request_parser \<Rightarrow> http_request_parser" where
  "on_body_cb s p = p\<lparr>rp_request := (rp_request p)\<lparr>ri_body := ri_body (rp_request p) @ s\<rparr>\<rparr>"

definition on_message_complete_cb :: "http_request_parser \<Rightarrow> http_request_parser" where
  "on_message_complete_cb p = p\<lparr>rp_state := kMessageComplete\<rparr>"

text \<open>The settings of \<^verbatim>\<open>init_parser\<close>: no callback for the status.\<close>

fun on_event :: "llhttp_event \<Rightarrow> http_request_parser \<Rightarrow> http_request_parser option" where
  "on_event Message_begin p = Some (on_message_begin_cb p)"
| "on_event (Url s) p = Some (on_url_cb s p)"
| "on_event (Status s) p = Some p"
| "on_event (Version s) p = Some (on_version_cb s p)"
| "on_event (Header_field s) p = Some (on_header_field_cb s p)"
| "on_event (Header_value s) p = Some (on_header_value_cb s p)"
| "on_event (Headers_complete ll) p = on_headers_complete_cb ll p"
| "on_event (Body s) p = Some (on_body_cb s p)"
| "on_event Message_complete p = Some (on_message_complete_cb p)"

fun on_events :: "llhttp_event list \<Rightarrow> http_request_parser \<Rightarrow> http_request_parser option" where
  "on_events [] p = Some p"
| "on_events (e # es) p = do { p1 \<leftarrow> on_event e p; on_events es p1 }"

definition parse :: "llhttp_execute \<Rightarrow> string \<Rightarrow> http_request_parser \<Rightarrow> (bool \<times> http_request_parser) option" where
  "parse execute data p =
     (if has_parse_error p \<or> data = [] then Some (\<not> has_parse_error p, p)
      else case execute (rp_parser p) data of (events, err, ll) \<Rightarrow>
        do {
          p1 \<leftarrow> on_events events p;
          let p2 = p1\<lparr>rp_parser := ll\<rparr>;
          (if err = HPE_OK then Some (True, p2)
           else if err = HPE_PAUSED_UPGRADE
           then Some (True, p2\<lparr>rp_state := kUpgradedTunnel, rp_parser := llhttp_resume_after_upgrade ll\<rparr>)
           else do {
             name \<leftarrow> llhttp_errno_name err;
             Some (False, p2\<lparr>rp_state := kParseError,
               rp_error := name @ (if ll_reason ll \<noteq> [] then '': '' @ ll_reason ll else [])\<rparr>)
           })
        })"

definition reset_for_next_message :: "nat \<Rightarrow> http_request_parser \<Rightarrow> http_request_parser" where
  "reset_for_next_message start p =
     (clear_request_runtime p)\<lparr>rp_state := kReadingRequest, rp_error := [],
        rp_parser := llhttp_reset start (rp_parser p)\<rparr>"

section \<open>From events to the request\<close>

lemmas header_cb_defs = on_header_field_cb_def on_header_value_cb_def finish_pending_header_def put_header_def Let_def

interpretation rp: header_callbacks
  "\<lambda>p. (rp_field p, rp_value p, rp_last_was_value p, ri_headers (rp_request p))"
  "\<lambda>p. (rp_parser p, rp_state p, rp_error p, (rp_request p)\<lparr>ri_headers := []\<rparr>)"
  on_header_field_cb on_header_value_cb finish_pending_header
  by unfold_locales (auto simp: header_cb_defs)

lemma on_events_append: "on_events (xs @ ys) p = do { q \<leftarrow> on_events xs p; on_events ys q }"
  by (induction xs arbitrary: p) (auto split: Option.bind_split)

lemma on_events_urls:
  "on_events (map Url us) p = Some (p\<lparr>rp_request := (rp_request p)\<lparr>ri_url := ri_url (rp_request p) @ concat us\<rparr>\<rparr>)"
  by (induction us arbitrary: p) (simp_all add: on_url_cb_def)

lemma on_events_versions:
  "on_events (map Version vs) p =
     Some (p\<lparr>rp_request := (rp_request p)\<lparr>ri_version := ri_version (rp_request p) @ concat vs\<rparr>\<rparr>)"
  by (induction vs arbitrary: p) (simp_all add: on_version_cb_def)

lemma on_events_bodies:
  "on_events (map Body bs) p = Some (p\<lparr>rp_request := (rp_request p)\<lparr>ri_body := ri_body (rp_request p) @ concat bs\<rparr>\<rparr>)"
  by (induction bs arbitrary: p) (simp_all add: on_body_cb_def)

lemma on_events_headers: "on_events (header_events hs) p = Some (fold rp.hc_header hs p)"
proof -
  have "on_events (map Header_field fs) q = Some (fold on_header_field_cb fs q)" for fs q
    by (induction fs arbitrary: q) simp_all
  moreover have "on_events (map Header_value vs) q = Some (fold on_header_value_cb vs q)" for vs q
    by (induction vs arbitrary: q) simp_all
  ultimately show ?thesis
    by (induction hs arbitrary: p) (auto simp: header_events_def on_events_append rp.hc_header_def)
qed

text \<open>The events of one whole request, cut into pieces in any way.\<close>

definition message_events ::
  "string list \<Rightarrow> string list \<Rightarrow> (string list \<times> string list) list \<Rightarrow> llhttp \<Rightarrow> string list \<Rightarrow> llhttp_event list" where
  "message_events us vs hs ll bs =
     Message_begin # map Url us @ map Version vs @ header_events hs @ [Headers_complete ll] @ map Body bs @
     [Message_complete]"

text \<open>The request the events describe.\<close>

definition described_request ::
  "string \<Rightarrow> string \<Rightarrow> string \<Rightarrow> header_map \<Rightarrow> llhttp \<Rightarrow> string \<Rightarrow> request_info" where
  "described_request m url version headers ll body =
     (post_process_headers
       \<lparr>ri_method = m, ri_url = url, ri_version = version, ri_host = [], ri_port = 0,
        ri_content_length = ll_content_length ll, ri_chunked = False,
        ri_keep_alive = llhttp_should_keep_alive ll, ri_is_connect = (ll_method ll = HTTP_CONNECT),
        ri_headers = headers, ri_body = []\<rparr>)\<lparr>ri_body := body\<rparr>"

lemma post_process_body [simp]: "ri_body (post_process_headers r) = ri_body r"
  by (simp add: post_process_headers_def Let_def split: option.split prod.split)

lemma header_block:
  assumes "\<forall>(fs, vs) \<in> set hs. fs \<noteq> [] \<and> vs \<noteq> []"
    and "rp_field p = []" "rp_value p = []" "\<not> rp_last_was_value p" "ri_headers (rp_request p) = []"
  shows "rp_request (finish_pending_header (fold rp.hc_header hs p)) = (rp_request p)\<lparr>ri_headers := assemble hs\<rparr>"
    and "rp_state (finish_pending_header (fold rp.hc_header hs p)) = rp_state p"
    and "rp_error (finish_pending_header (fold rp.hc_header hs p)) = rp_error p"
    and "rp_parser (finish_pending_header (fold rp.hc_header hs p)) = rp_parser p"
proof -
  let ?q = "finish_pending_header (fold rp.hc_header hs p)"
  have pend: "rp.hc_pending p" "rp.hc_headers p = []"
    using assms(2-5) by (simp_all add: rp.hc_pending_def rp.hc_headers_def put_header_def)
  have h: "ri_headers (rp_request ?q) = assemble hs"
    using rp.headers_run [OF pend(1) assms(1)] rp.headers_finish [of "fold rp.hc_header hs p"] pend(2)
    by (simp add: assemble_def)
  have r: "(rp_parser ?q, rp_state ?q, rp_error ?q, (rp_request ?q)\<lparr>ri_headers := []\<rparr>) =
      (rp_parser p, rp_state p, rp_error p, (rp_request p)\<lparr>ri_headers := []\<rparr>)"
    using rp.rest_finish rp.rest_run by metis
  then show "rp_state ?q = rp_state p" "rp_error ?q = rp_error p" "rp_parser ?q = rp_parser p" by simp_all
  from r have e: "(rp_request ?q)\<lparr>ri_headers := []\<rparr> = (rp_request p)\<lparr>ri_headers := []\<rparr>" by simp
  have "rp_request ?q = ((rp_request ?q)\<lparr>ri_headers := []\<rparr>)\<lparr>ri_headers := ri_headers (rp_request ?q)\<rparr>" by simp
  also have "\<dots> = (rp_request p)\<lparr>ri_headers := assemble hs\<rparr>" unfolding e h by simp
  finally show "rp_request ?q = (rp_request p)\<lparr>ri_headers := assemble hs\<rparr>" .
qed

lemma message_events_request:
  assumes "\<forall>(fs, vs) \<in> set hs. fs \<noteq> [] \<and> vs \<noteq> []" and "llhttp_method_name (unat (ll_method ll)) = Some m"
  shows "\<exists>q. on_events (message_events us vs hs ll bs) p = Some q \<and> rp_state q = kMessageComplete \<and>
     rp_request q = described_request m (concat us) (concat vs) (assemble hs) ll (concat bs)"
proof -
  let ?p0 = "on_message_begin_cb p"
  let ?p1 = "?p0\<lparr>rp_request := (rp_request ?p0)\<lparr>ri_url := concat us, ri_version := concat vs\<rparr>\<rparr>"
  note b = on_message_begin_cb_def clear_request_runtime_def request_info_empty_def
  have "on_events (map Url us @ map Version vs) ?p0 = Some ?p1"
    by (simp add: on_events_append on_events_urls on_events_versions b)
  then have e: "on_events (message_events us vs hs ll bs) p =
      on_events ([Headers_complete ll] @ map Body bs @ [Message_complete]) (fold rp.hc_header hs ?p1)"
    using on_events_append [of "map Url us @ map Version vs" "header_events hs @ [Headers_complete ll] @ map Body bs @ [Message_complete]" ?p0]
    by (simp add: message_events_def on_events_append on_events_headers)
  have "rp_request (finish_pending_header (fold rp.hc_header hs ?p1)) = (rp_request ?p1)\<lparr>ri_headers := assemble hs\<rparr>"
    by (rule header_block [OF assms(1)]) (simp_all add: b)
  with e assms(2) show ?thesis
    by (simp add: on_headers_complete_cb_def Let_def on_events_append on_events_bodies on_message_complete_cb_def
        described_request_def b)
qed

text \<open>Callbacks leave the automaton and the error text alone; a message begin forgets the rest.\<close>

lemma finish_pending_keeps [simp]:
  "rp_parser (finish_pending_header p) = rp_parser p" "rp_error (finish_pending_header p) = rp_error p"
  by (simp_all add: finish_pending_header_def)

lemma on_event_keeps: "on_event e p = Some q \<Longrightarrow> rp_parser q = rp_parser p \<and> rp_error q = rp_error p"
  by (cases e) (auto simp: on_message_begin_cb_def clear_request_runtime_def on_url_cb_def on_version_cb_def
      on_header_field_cb_def on_header_value_cb_def on_headers_complete_cb_def on_body_cb_def
      on_message_complete_cb_def Let_def split: Option.bind_splits)

lemma on_events_keeps: "on_events es p = Some q \<Longrightarrow> rp_parser q = rp_parser p \<and> rp_error q = rp_error p"
  by (induction es arbitrary: p) (auto split: Option.bind_splits dest: on_event_keeps)

lemma message_begin_forgets:
  "rp_parser p = rp_parser q \<Longrightarrow> rp_error p = rp_error q \<Longrightarrow> on_message_begin_cb p = on_message_begin_cb q"
  by (simp add: on_message_begin_cb_def clear_request_runtime_def)

section \<open>Host and port\<close>

lemma strip_id:
  assumes "s \<noteq> []" and "\<not> isspace (hd s)" and "\<not> isspace (last s)"
  shows "strip s = s"
proof -
  have "dropWhile isspace s = s" using assms by (cases s) auto
  moreover have "dropWhile isspace (rev s) = rev s"
    using assms by (cases "rev s") (auto simp: last_rev hd_rev [symmetric])
  ultimately show ?thesis by (simp add: strip_def)
qed

lemma c_str_digits: "c_str (to_string n) = to_string n"
  by (auto simp: c_str_def takeWhile_eq_all_conv isdigit_def dest: to_string_digits)

lemma port_of_to_string: "n < 2 ^ 64 \<Longrightarrow> port_of (to_string n) = of_nat n"
proof -
  assume n: "n < 2 ^ 64"
  have "ucast (of_nat n :: u64) = (of_nat n :: u16)"
    by (simp add: word_unat_eq_iff unsigned_ucast_eq unsigned_of_nat take_bit_take_bit)
  with n show ?thesis by (simp add: port_of_def c_str_digits strtoul_to_string)
qed

lemma last_to_string: "isdigit (last (to_string n))"
  by (rule to_string_digits [OF last_in_set]) simp

lemma to_string_no_colon: "CHR '':'' \<notin> set (to_string n)"
  using to_string_digits [of "CHR '':''" n] by (auto simp: isdigit_def char_code_def)

lemma host_colon_port:
  assumes "h \<noteq> []" and "\<not> isspace (hd h)" and "hd h \<noteq> CHR ''[''" and "CHR '':'' \<notin> set h" and "n < 2 ^ 64"
  shows "parse_host_port (h @ CHR '':'' # to_string n) = (h, of_nat n)"
proof -
  let ?s = "h @ CHR '':'' # to_string n"
  have s: "strip ?s = ?s"
    using assms(1,2) last_to_string [of n] by (intro strip_id) (auto simp: isdigit_not_space)
  have "find_char CHR '':'' ?s 0 = Some (length h)" using assms(4) by (rule find_char_append)
  moreover have "rfind_char CHR '':'' ?s = Some (length h)" by (rule rfind_char_append [OF to_string_no_colon])
  ultimately show ?thesis
    using assms(1,3,5) by (simp add: parse_host_port_def s port_of_to_string)
qed

lemma host_alone:
  assumes "h \<noteq> []" and "\<not> isspace (hd h)" and "\<not> isspace (last h)" and "hd h \<noteq> CHR ''[''" and "CHR '':'' \<notin> set h"
  shows "parse_host_port h = (h, 0)"
  using assms by (simp add: parse_host_port_def strip_id rfind_char_None [THEN iffD2])

lemma bracketed_port:
  assumes "CHR '']'' \<notin> set h" and "n < 2 ^ 64"
  shows "parse_host_port (CHR ''['' # h @ CHR '']'' # CHR '':'' # to_string n) = (h, of_nat n)"
proof -
  let ?s = "CHR ''['' # h @ CHR '']'' # CHR '':'' # to_string n"
  have s: "strip ?s = ?s"
    using last_to_string [of n] by (intro strip_id) (auto simp: isdigit_def isspace_def char_code_def)
  have "find_char CHR '']'' ((CHR ''['' # h) @ CHR '']'' # CHR '':'' # to_string n) 0 = Some (length (CHR ''['' # h))"
    using assms(1) by (intro find_char_append) auto
  then have f: "find_char CHR '']'' ?s 0 = Some (Suc (length h))" by simp
  show ?thesis
    using assms(2) by (simp add: parse_host_port_def s f substr_def port_of_to_string nth_append)
qed

section \<open>Properties\<close>

text \<open>C21. The request does not depend on how \<open>llhttp\<close> cuts its pieces: for the events of any whole
  request (URL, version and body in any number of pieces, each header name and value in at least one)
  the parser ends in the complete state with the request whose fields are the concatenated pieces,
  whose headers are keyed by lower-cased name with the last value winning, and whose host, port and
  chunked flag are derived from them.\<close>

theorem request_from_events:
  assumes "\<forall>(fs, vs) \<in> set hs. fs \<noteq> [] \<and> vs \<noteq> []" and "llhttp_method_name (unat (ll_method ll)) = Some m"
  shows "\<exists>q. on_events (message_events us vs hs ll bs) p = Some q \<and> is_message_complete q \<and>
     rp_request q = described_request m (concat us) (concat vs) (assemble hs) ll (concat bs)"
  using message_events_request [OF assms, of us vs bs p] by (auto simp: is_message_complete_def)

theorem request_from_events_witness:
  "\<exists>q. on_events (message_events [''/'', ''a''] [''1.1''] [([''Ho'', ''st''], [''x'', '':8080''])]
         ((llhttp_init 0 HTTP_REQUEST)\<lparr>ll_method := 1\<rparr>) []) (http_request_parser_new 0) = Some q \<and>
     ri_host (rp_request q) = ''x'' \<and> ri_port (rp_request q) = 8080"
proof -
  define ll where "ll = (llhttp_init 0 HTTP_REQUEST)\<lparr>ll_method := 1\<rparr>"
  define hs where "hs = [([''Ho'', ''st''], [''x'', '':8080''])]"
  have m: "llhttp_method_name (unat (ll_method ll)) = Some ''GET''"
    by (simp add: ll_def llhttp_method_name_def http_method_map_def)
  have "\<forall>(fs, vs) \<in> set hs. fs \<noteq> [] \<and> vs \<noteq> []" by (simp add: hs_def)
  from request_from_events [OF this m, of "[''/'', ''a'']" "[''1.1'']" "[]" "http_request_parser_new 0"]
  obtain q where q: "on_events (message_events [''/'', ''a''] [''1.1''] hs ll []) (http_request_parser_new 0) = Some q"
    "rp_request q = described_request ''GET'' (concat [''/'', ''a'']) (concat [''1.1'']) (assemble hs) ll (concat [])" by blast
  have "to_string 8080 = ''8080''" by (simp add: to_string_eval)
  then have "parse_host_port ''x:8080'' = (''x'', 8080)"
    using host_colon_port [of "''x''" 8080] by (simp add: isspace_def char_code_def)
  moreover have "assemble hs = [(''host'', ''x:8080'')]"
    by (simp add: hs_def assemble_def put_header_def to_lower_ascii_def tolower_def char_code_def char_of_def bit_0)
  moreover have "ll_method ll \<noteq> HTTP_CONNECT" by (simp add: ll_def HTTP_CONNECT_def)
  ultimately have "ri_host (rp_request q) = ''x'' \<and> ri_port (rp_request q) = 8080"
    unfolding q(2) described_request_def post_process_headers_def by simp
  with q(1) show ?thesis unfolding ll_def hs_def by blast
qed

text \<open>A target \<open>host:port\<close> or \<open>[host]:port\<close> is split at the right place, and a port number below
  65536 is read back exactly.\<close>

theorem parse_host_port_roundtrip:
  assumes "h \<noteq> []" and "\<not> isspace (hd h)" and "hd h \<noteq> CHR ''[''" and "CHR '':'' \<notin> set h" and "CHR '']'' \<notin> set g"
    and "n < 65536"
  shows "(case parse_host_port (h @ CHR '':'' # to_string n) of (host, port) \<Rightarrow> host = h \<and> unat port = n) \<and>
    (case parse_host_port (CHR ''['' # g @ CHR '']'' # CHR '':'' # to_string n) of (host, port) \<Rightarrow> host = g \<and> unat port = n)"
  using host_colon_port [OF assms(1-4), of n] bracketed_port [OF assms(5), of n] assms(6)
  by (simp add: unat_of_nat)

theorem parse_host_port_roundtrip_witness:
  "case parse_host_port (''h'' @ CHR '':'' # to_string 8080) of (host, port) \<Rightarrow> host = ''h'' \<and> unat port = 8080"
  using parse_host_port_roundtrip [of "''h''" "''::1''" 8080] by (simp add: isspace_def char_code_def)

text \<open>A port number above 65535 is not rejected: it is reduced modulo 65536, so \<open>host:65616\<close> is
  taken for \<open>host:80\<close>.\<close>

theorem parse_host_port_wraps:
  assumes "h \<noteq> []" and "\<not> isspace (hd h)" and "hd h \<noteq> CHR ''[''" and "CHR '':'' \<notin> set h" and "n < 2 ^ 64"
  shows "unat (snd (parse_host_port (h @ CHR '':'' # to_string n))) = n mod 65536"
  using host_colon_port [OF assms] by (simp add: unat_of_nat)

theorem parse_host_port_wraps_witness:
  "unat (snd (parse_host_port (''host'' @ CHR '':'' # to_string 65616))) = 80"
  using parse_host_port_wraps [of "''host''" 65616] by (simp add: isspace_def char_code_def)

text \<open>Pipelined requests: when a second request begins in the same input, everything the parser
  collected for the first one is gone. The state afterwards is the one the second request alone would
  have given, so a first request that was complete is neither reported as complete nor kept.\<close>

theorem pipelined_request_lost:
  assumes "on_events first p = Some q"
  shows "on_events (first @ Message_begin # second) p = on_events (Message_begin # second) p"
  using on_events_keeps [OF assms] message_begin_forgets [of q p] assms by (simp add: on_events_append)

theorem pipelined_request_lost_witness:
  "on_events ([Message_begin, Url ''/a'', Message_complete] @ Message_begin # [Url ''/b'']) (http_request_parser_new 0) =
     on_events (Message_begin # [Url ''/b'']) (http_request_parser_new 0) \<and>
   (\<exists>q. on_events [Message_begin, Url ''/a'', Message_complete] (http_request_parser_new 0) = Some q \<and> is_message_complete q)"
  using pipelined_request_lost [of "[Message_begin, Url ''/a'', Message_complete]" "http_request_parser_new 0" _ "[Url ''/b'']"]
  by (simp add: is_message_complete_def on_message_complete_cb_def)

end
