(* ===== verification/Http_Conn.thy ===== *)
theory Http_Conn
  imports Connection_Io Request_Parser
begin

text \<open>
  \<^verbatim>\<open>src/net/http/http_conn.h\<close> and \<^verbatim>\<open>.cpp\<close>: a client connection, its buffers and its request parser.
  The position up to which the read buffer was given to the parser is kept in \<open>hc_offset\<close>.
\<close>

section \<open>Model\<close>

record http_conn =
  hc_io :: http_connection_io
  hc_parser :: http_request_parser
  hc_offset :: nat

definition http_conn_new :: "nat \<Rightarrow> fd \<Rightarrow> http_conn" where
  "http_conn_new start f =
     \<lparr>hc_io = http_connection_io_new f, hc_parser = http_request_parser_new start, hc_offset = 0\<rparr>"

definition conn_read_from_socket ::
  "'k recv_call \<Rightarrow> http_conn \<Rightarrow> 'k \<Rightarrow> ((errno + int) \<times> http_conn \<times> 'k) option" where
  "conn_read_from_socket recv c k =
     map_option (\<lambda>(r, io, k'). (r, c\<lparr>hc_io := io\<rparr>, k')) (read_from_socket recv (hc_io c) k)"

definition conn_flush_to_socket ::
  "'k send_call \<Rightarrow> http_conn \<Rightarrow> 'k \<Rightarrow> ((errno + int) \<times> http_conn \<times> 'k) option" where
  "conn_flush_to_socket send c k =
     map_option (\<lambda>(r, io, k'). (r, c\<lparr>hc_io := io\<rparr>, k')) (flush_to_socket send (hc_io c) k)"

definition conn_queue_write :: "string \<Rightarrow> http_conn \<Rightarrow> http_conn" where
  "conn_queue_write data c = c\<lparr>hc_io := queue_write data (hc_io c)\<rparr>"

definition conn_has_pending_write :: "http_conn \<Rightarrow> bool" where
  "conn_has_pending_write c \<longleftrightarrow> has_pending_write (hc_io c)"

definition conn_take_write_buffer :: "http_conn \<Rightarrow> string \<times> http_conn" where
  "conn_take_write_buffer c = (case take_write_buffer (hc_io c) of (s, io) \<Rightarrow> (s, c\<lparr>hc_io := io\<rparr>))"

definition parse_available_data :: "llhttp_execute \<Rightarrow> http_conn \<Rightarrow> (bool \<times> http_conn) option" where
  "parse_available_data execute c =
     (if has_parse_error (hc_parser c) \<or> hc_offset c \<ge> length (ci_read (hc_io c))
      then Some (\<not> has_parse_error (hc_parser c), c)
      else do {
        (ok, p) \<leftarrow> parse execute (drop (hc_offset c) (ci_read (hc_io c))) (hc_parser c);
        Some (if ok then (True, c\<lparr>hc_parser := p, hc_offset := length (ci_read (hc_io c))\<rparr>)
              else (False, c\<lparr>hc_parser := p\<rparr>))
      })"

definition conn_reset_for_next_message :: "nat \<Rightarrow> http_conn \<Rightarrow> http_conn" where
  "conn_reset_for_next_message start c =
     (let io = (if hc_offset c > 0 then consume_read_bytes (hc_offset c) (hc_io c) else hc_io c)
      in c\<lparr>hc_io := io, hc_offset := 0, hc_parser := reset_for_next_message start (hc_parser c)\<rparr>)"

section \<open>Every byte is parsed once\<close>

definition conn_wf :: "http_conn \<Rightarrow> bool" where
  "conn_wf c \<longleftrightarrow> io_wf (hc_io c) \<and> hc_offset c \<le> length (ci_read (hc_io c))"

text \<open>Reading a chunk and parsing what is new, for several chunks; the parser alone on the chunks.\<close>

fun conn_feed :: "llhttp_execute \<Rightarrow> string list \<Rightarrow> http_conn \<Rightarrow> (bool \<times> http_conn) option" where
  "conn_feed execute [] c = Some (\<not> has_parse_error (hc_parser c), c)"
| "conn_feed execute (d # ds) c =
     do {
       (ok, c1) \<leftarrow> parse_available_data execute (c\<lparr>hc_io := (hc_io c)\<lparr>ci_read := ci_read (hc_io c) @ d\<rparr>\<rparr>);
       (if ok then conn_feed execute ds c1 else Some (False, c1))
     }"

fun parser_feed :: "llhttp_execute \<Rightarrow> string list \<Rightarrow> http_request_parser \<Rightarrow> (bool \<times> http_request_parser) option" where
  "parser_feed execute [] p = Some (\<not> has_parse_error p, p)"
| "parser_feed execute (d # ds) p =
     do { (ok, p1) \<leftarrow> parse execute d p; (if ok then parser_feed execute ds p1 else Some (False, p1)) }"

lemma parse_available_new:
  assumes "hc_offset c = length (ci_read (hc_io c))"
  shows "parse_available_data execute (c\<lparr>hc_io := (hc_io c)\<lparr>ci_read := ci_read (hc_io c) @ d\<rparr>\<rparr>) =
    map_option (\<lambda>(ok, p). (ok, c\<lparr>hc_io := (hc_io c)\<lparr>ci_read := ci_read (hc_io c) @ d\<rparr>, hc_parser := p,
      hc_offset := (if ok then length (ci_read (hc_io c)) + length d else hc_offset c)\<rparr>)) (parse execute d (hc_parser c))"
  using assms
  by (auto simp: parse_available_data_def parse_def map_option_bind Let_def
      split: prod.splits Option.bind_splits intro!: option.map_cong)

section \<open>Properties\<close>

text \<open>C20. Each byte received on a connection is given to the HTTP parser exactly once and in order, however
  the reads cut the stream: reading chunks into the connection's buffer and parsing after each gives the
  parser state that parsing the chunks one after the other gives.\<close>

theorem connection_feeds_parser_once:
  assumes "hc_offset c = length (ci_read (hc_io c))"
  shows "map_option (\<lambda>(ok, c'). (ok, hc_parser c')) (conn_feed execute ds c) = parser_feed execute ds (hc_parser c)"
  using assms
proof (induction ds arbitrary: c)
  case (Cons d ds)
  let ?c = "\<lambda>ok p. c\<lparr>hc_io := (hc_io c)\<lparr>ci_read := ci_read (hc_io c) @ d\<rparr>, hc_parser := p,
      hc_offset := (if ok then length (ci_read (hc_io c)) + length d else hc_offset c)\<rparr>"
  show ?case
  proof (cases "parse execute d (hc_parser c)")
    case None
    then show ?thesis using parse_available_new [OF Cons.prems] by simp
  next
    case (Some r)
    obtain ok p where r: "r = (ok, p)" by (cases r)
    with Some parse_available_new [OF Cons.prems, of execute d] have
      "parse_available_data execute (c\<lparr>hc_io := (hc_io c)\<lparr>ci_read := ci_read (hc_io c) @ d\<rparr>\<rparr>) = Some (ok, ?c ok p)" by simp
    with Some r Cons.IH [of "?c True p"] show ?thesis by (cases ok) simp_all
  qed
qed simp

theorem connection_feeds_parser_once_witness:
  "map_option (\<lambda>(ok, c'). (ok, hc_parser c'))
      (conn_feed (\<lambda>p s. ([Body s], HPE_OK, p)) [''ab'', ''c''] (http_conn_new 0 5)) =
    parser_feed (\<lambda>p s. ([Body s], HPE_OK, p)) [''ab'', ''c''] (http_request_parser_new 0)"
  using connection_feeds_parser_once [of "http_conn_new 0 5" "\<lambda>p s. ([Body s], HPE_OK, p)" "[''ab'', ''c'']"]
  by (simp add: http_conn_new_def http_connection_io_new_def)

end
