(* ===== verification/Interfaces.thy ===== *)
theory Interfaces
  imports Prelude
begin

text \<open>
  The contracts between components, as locales. A provider interprets its locale in its own theory;
  a client's lemmas are proved once inside the locale and reach the client's model through that
  interpretation.
\<close>

section \<open>Exact maps and approximate sets\<close>

text \<open>A map from keys to values, as \<^verbatim>\<open>bitwise_trie\<close> offers it.\<close>

locale key_map =
  fixes km_empty :: 'm
    and km_insert :: "'k \<Rightarrow> 'v \<Rightarrow> 'm \<Rightarrow> 'm"
    and km_remove :: "'k \<Rightarrow> 'm \<Rightarrow> bool \<times> 'm"
    and km_search :: "'k \<Rightarrow> 'm \<Rightarrow> 'v option"
  assumes search_empty: "km_search k km_empty = None"
    and search_insert: "km_search k (km_insert j v m) = (if k = j then Some v else km_search k m)"
    and search_remove: "km_search k (snd (km_remove j m)) = (if k = j then None else km_search k m)"
    and remove_found: "fst (km_remove j m) \<longleftrightarrow> km_search j m \<noteq> None"
begin

definition km_insert_all :: "('k \<times> 'v) list \<Rightarrow> 'm \<Rightarrow> 'm" where
  "km_insert_all kvs m = foldl (\<lambda>m (k, v). km_insert k v m) m kvs"

lemma search_insert_all:
  "km_search k (km_insert_all kvs m) = (case map_of (rev kvs) k of None \<Rightarrow> km_search k m | Some v \<Rightarrow> Some v)"
proof (induction kvs arbitrary: m)
  case (Cons kv kvs)
  have "km_insert_all (kv # kvs) m = km_insert_all kvs (km_insert (fst kv) (snd kv) m)"
    by (simp add: km_insert_all_def case_prod_unfold)
  with Cons.IH show ?case
    by (auto simp: search_insert map_add_def split: option.splits)
qed (simp add: km_insert_all_def)

end

text \<open>A set with false positives and no false negatives, as \<^verbatim>\<open>bloom_filter\<close> offers it.\<close>

locale approx_set =
  fixes as_invar :: "'f \<Rightarrow> bool"
    and as_add :: "'k \<Rightarrow> 'f \<Rightarrow> 'f"
    and as_contains :: "'k \<Rightarrow> 'f \<Rightarrow> bool"
  assumes invar_add: "as_invar f \<Longrightarrow> as_invar (as_add k f)"
    and contains_added: "as_invar f \<Longrightarrow> as_contains k (as_add k f)"
    and contains_mono: "as_invar f \<Longrightarrow> as_contains k f \<Longrightarrow> as_contains k (as_add j f)"

text \<open>
  A map guarded by an approximate set, as \<^verbatim>\<open>ip_filter\<close> combines the two: the set is asked
  first and the map only when the set says yes. The consistency \<open>fs_consistent\<close> says that the set
  holds every key of the map; then the guarded query is exact.
\<close>

locale filtered_set = key_map km_empty km_insert km_remove km_search
    + approx_set as_invar as_add as_contains
  for km_empty :: 'm
    and km_insert :: "'k \<Rightarrow> 'v \<Rightarrow> 'm \<Rightarrow> 'm"
    and km_remove :: "'k \<Rightarrow> 'm \<Rightarrow> bool \<times> 'm"
    and km_search :: "'k \<Rightarrow> 'm \<Rightarrow> 'v option"
    and as_invar :: "'f \<Rightarrow> bool"
    and as_add :: "'k \<Rightarrow> 'f \<Rightarrow> 'f"
    and as_contains :: "'k \<Rightarrow> 'f \<Rightarrow> bool"
begin

definition fs_consistent :: "'m \<Rightarrow> 'f \<Rightarrow> bool" where
  "fs_consistent m f \<longleftrightarrow> as_invar f \<and> (\<forall>k. km_search k m \<noteq> None \<longrightarrow> as_contains k f)"

lemma consistent_init: "as_invar f \<Longrightarrow> fs_consistent km_empty f"
  by (simp add: fs_consistent_def search_empty)

lemma consistent_add: "fs_consistent m f \<Longrightarrow> fs_consistent (km_insert k v m) (as_add k f)"
  by (auto simp: fs_consistent_def search_insert invar_add contains_added contains_mono)

lemma query_exact:
  "fs_consistent m f \<Longrightarrow> as_contains k f \<and> km_search k m \<noteq> None \<longleftrightarrow> km_search k m \<noteq> None"
  by (auto simp: fs_consistent_def)

lemma query_add:
  assumes "fs_consistent m f"
  shows "as_contains k (as_add j f) \<and> km_search k (km_insert j v m) \<noteq> None \<longleftrightarrow>
           k = j \<or> (as_contains k f \<and> km_search k m \<noteq> None)"
  using query_exact [OF consistent_add [OF assms, of j v], of k] query_exact [OF assms, of k]
  by (auto simp: search_insert)

end

section \<open>Caches\<close>

text \<open>
  A cache in front of a store, as \<^verbatim>\<open>memory_cache\<close> offers it to \<^verbatim>\<open>http_cache\<close>: it may
  forget, it never invents. \<open>vc_view\<close> is what a lookup would return.
\<close>

locale value_cache =
  fixes vc_invar :: "'c \<Rightarrow> bool"
    and vc_view :: "'c \<Rightarrow> 'k \<Rightarrow> 'v option"
    and vc_touch :: "'k \<Rightarrow> 'c \<Rightarrow> 'c"
    and vc_put :: "'k \<Rightarrow> 'v \<Rightarrow> 'c \<Rightarrow> 'c"
  assumes touch_invar: "vc_invar c \<Longrightarrow> vc_invar (vc_touch k c)"
    and put_invar: "vc_invar c \<Longrightarrow> vc_invar (vc_put k v c)"
    and view_touch: "vc_invar c \<Longrightarrow> vc_view (vc_touch k c) j = vc_view c j"
    and view_put_same: "vc_invar c \<Longrightarrow> vc_view (vc_put k v c) k = Some w \<Longrightarrow>
          w = v \<or> vc_view c k = Some w \<and> vc_put k v c = c"
    and view_put_other: "vc_invar c \<Longrightarrow> j \<noteq> k \<Longrightarrow> vc_view (vc_put k v c) j = Some w \<Longrightarrow>
          vc_view c j = Some w"
begin

text \<open>If every cached value satisfies a predicate of its key, storing a value that satisfies it
  keeps that.\<close>

definition vc_all :: "('k \<Rightarrow> 'v \<Rightarrow> bool) \<Rightarrow> 'c \<Rightarrow> bool" where
  "vc_all P c \<longleftrightarrow> (\<forall>k v. vc_view c k = Some v \<longrightarrow> P k v)"

lemma all_put: "vc_invar c \<Longrightarrow> vc_all P c \<Longrightarrow> P k v \<Longrightarrow> vc_all P (vc_put k v c)"
  unfolding vc_all_def by (metis view_put_same view_put_other)

lemma all_touch: "vc_invar c \<Longrightarrow> vc_all P c \<Longrightarrow> vc_all P (vc_touch k c)"
  by (simp add: vc_all_def view_touch)

end

section \<open>Queues\<close>

text \<open>
  A bounded first-in first-out queue, as \<^verbatim>\<open>ring_buffer\<close> offers it to the logger: a push is
  refused exactly when the queue is full.
\<close>

locale bounded_fifo =
  fixes bq_invar :: "'q \<Rightarrow> bool"
    and bq_list :: "'q \<Rightarrow> 'a list"
    and bq_cap :: "'q \<Rightarrow> nat"
    and bq_push :: "'a \<Rightarrow> 'q \<Rightarrow> bool \<times> 'q"
    and bq_pop :: "'q \<Rightarrow> 'a option \<times> 'q"
  assumes push_full: "bq_invar q \<Longrightarrow> length (bq_list q) = bq_cap q \<Longrightarrow> bq_push x q = (False, q)"
    and push_ok: "bq_invar q \<Longrightarrow> length (bq_list q) < bq_cap q \<Longrightarrow>
          fst (bq_push x q) \<and> bq_invar (snd (bq_push x q)) \<and>
          bq_list (snd (bq_push x q)) = bq_list q @ [x] \<and> bq_cap (snd (bq_push x q)) = bq_cap q"
    and pop_empty: "bq_invar q \<Longrightarrow> bq_list q = [] \<Longrightarrow> bq_pop q = (None, q)"
    and pop_ok: "bq_invar q \<Longrightarrow> bq_list q = y # ys \<Longrightarrow>
          fst (bq_pop q) = Some y \<and> bq_invar (snd (bq_pop q)) \<and>
          bq_list (snd (bq_pop q)) = ys \<and> bq_cap (snd (bq_pop q)) = bq_cap q"
    and len_cap: "bq_invar q \<Longrightarrow> length (bq_list q) \<le> bq_cap q"
begin

text \<open>A run of pushes (\<open>Some x\<close>) and pops (\<open>None\<close>): the accepted and the delivered elements.\<close>

fun bq_run :: "'a option list \<Rightarrow> 'q \<Rightarrow> 'a list \<times> 'a list \<times> 'q" where
  "bq_run [] q = ([], [], q)"
| "bq_run (Some x # ops) q =
     (let r = bq_push x q; (acc, del, q') = bq_run ops (snd r)
      in ((if fst r then x # acc else acc), del, q'))"
| "bq_run (None # ops) q =
     (let r = bq_pop q; (acc, del, q') = bq_run ops (snd r)
      in (acc, (case fst r of Some y \<Rightarrow> y # del | None \<Rightarrow> del), q'))"

lemma run_fifo:
  "bq_invar q \<Longrightarrow> bq_run ops q = (acc, del, q') \<Longrightarrow>
     bq_invar q' \<and> bq_cap q' = bq_cap q \<and> del @ bq_list q' = bq_list q @ acc"
proof (induction ops q arbitrary: acc del q' rule: bq_run.induct)
  case (2 x ops q)
  obtain acc1 q1 where r: "bq_run ops (snd (bq_push x q)) = (acc1, del, q1)"
    using "2.prems"(2) by (auto simp: Let_def split: prod.splits)
  consider "length (bq_list q) = bq_cap q" | "length (bq_list q) < bq_cap q"
    using len_cap [OF "2.prems"(1)] by linarith
  then show ?case
  proof cases
    case 1
    with 2 show ?thesis by (auto simp: push_full Let_def split: prod.splits)
  next
    case 2
    from push_ok [OF "2.prems"(1) this, of x] "2.IH" [OF refl _ r] "2.prems"(2) r
    show ?thesis by (auto simp: Let_def)
  qed
next
  case (3 ops q)
  obtain del1 where r: "bq_run ops (snd (bq_pop q)) = (acc, del1, q')"
    using "3.prems"(2) by (auto simp: Let_def split: prod.splits)
  show ?case
  proof (cases "bq_list q")
    case Nil
    with 3 show ?thesis by (auto simp: pop_empty Let_def split: prod.splits)
  next
    case (Cons y ys)
    from pop_ok [OF "3.prems"(1) this] "3.IH" [OF refl _ r] "3.prems"(2) r Cons
    show ?thesis by (auto simp: Let_def)
  qed
qed simp

end

text \<open>
  An unbounded first-in first-out queue over allocated nodes, as \<^verbatim>\<open>threadsafe_queue\<close> offers it to the
  thread pool. The result \<open>None\<close> of an operation is an access to memory that is not there; a push takes
  the address of its new node, which must be free.
\<close>

locale fifo_queue =
  fixes fq_invar :: "'q \<Rightarrow> 'a list \<Rightarrow> bool"
    and fq_free :: "'q \<Rightarrow> 'p \<Rightarrow> bool"
    and fq_push :: "'p \<Rightarrow> 'a \<Rightarrow> 'q \<Rightarrow> 'q option"
    and fq_pop :: "'q \<Rightarrow> ('a option \<times> 'q) option"
  assumes push_appends: "fq_invar q xs \<Longrightarrow> fq_free q p \<Longrightarrow>
          \<exists>q'. fq_push p x q = Some q' \<and> fq_invar q' (xs @ [x])"
    and pop_none: "fq_invar q [] \<Longrightarrow> fq_pop q = Some (None, q)"
    and pop_first: "fq_invar q (x # xs) \<Longrightarrow> \<exists>q'. fq_pop q = Some (Some x, q') \<and> fq_invar q' xs"
begin

text \<open>Popping until the queue reports empty, as the pool's \<open>clear_queue\<close> does, with a bound on the
  number of pops.\<close>

fun fq_drain :: "nat \<Rightarrow> 'q \<Rightarrow> ('a list \<times> 'q) option" where
  "fq_drain 0 q = None"
| "fq_drain (Suc n) q =
     (case fq_pop q of
        None \<Rightarrow> None
      | Some (None, q') \<Rightarrow> Some ([], q')
      | Some (Some x, q') \<Rightarrow> map_option (\<lambda>(xs, r). (x # xs, r)) (fq_drain n q'))"

lemma drain_all: "fq_invar q xs \<Longrightarrow> length xs < n \<Longrightarrow> \<exists>q'. fq_drain n q = Some (xs, q') \<and> fq_invar q' []"
proof (induction xs arbitrary: q n)
  case Nil
  then show ?case by (cases n) (auto simp: pop_none)
next
  case (Cons x xs)
  then obtain m where n: "n = Suc m" "length xs < m" by (cases n) auto
  from pop_first [OF Cons.prems(1)] obtain q1 where q1: "fq_pop q = Some (Some x, q1)" "fq_invar q1 xs" by blast
  from Cons.IH [OF q1(2) n(2)] q1(1) n(1) show ?case by auto
qed

end

end
