(* ===== verification/Memory_Cache.thy ===== *)
theory Memory_Cache
  imports Interfaces
begin

text \<open>
  \<^verbatim>\<open>src/util/memory_cache.h\<close>: the fixed-capacity LRU cache. The code keeps a
  \<^verbatim>\<open>std::list\<close> of nodes, most recently used first, and an \<^verbatim>\<open>unordered_map\<close> from keys
  to list iterators. An iterator is the identity of a list cell, so the model has an explicit store:
  cells with addresses, the list as addresses in order, and the index from keys to addresses.
  Weights and their total are \<^verbatim>\<open>size_t\<close> values at 64 bits. \<open>lru_view\<close> forgets the addresses,
  and the second half shows that the operations implement an LRU list under that view.
\<close>

section \<open>Model\<close>

record ('k, 'v) lru_node =
  lru_key :: 'k
  lru_value :: 'v
  lru_weight :: u64

record ('k, 'v) memory_cache =
  max_entries :: nat
  max_bytes :: u64
  weight_fn :: "'v \<Rightarrow> u64"
  lru_list :: "nat list"
  lru_cells :: "nat \<rightharpoonup> ('k, 'v) lru_node"
  lru_index :: "('k \<times> nat) list"
  total_weight :: u64
  next_cell :: nat

definition memory_cache_new :: "nat \<Rightarrow> u64 \<Rightarrow> ('v \<Rightarrow> u64) \<Rightarrow> ('k, 'v) memory_cache" where
  "memory_cache_new me mb wfn =
     \<lparr>max_entries = me, max_bytes = mb, weight_fn = wfn, lru_list = [], lru_cells = Map.empty,
      lru_index = [], total_weight = 0, next_cell = 0\<rparr>"

text \<open>\<^verbatim>\<open>lru_list_.splice(lru_list_.begin(), lru_list_, it)\<close> moves a cell to the front.\<close>

definition splice_front :: "nat \<Rightarrow> nat list \<Rightarrow> nat list" where
  "splice_front it l = it # remove1 it l"

definition mc_get :: "'k \<Rightarrow> ('k, 'v) memory_cache \<Rightarrow> 'v option \<times> ('k, 'v) memory_cache" where
  "mc_get key c =
     (case map_of (lru_index c) key of
        None \<Rightarrow> (None, c)
      | Some it \<Rightarrow>
          (map_option lru_value (lru_cells c it), c\<lparr>lru_list := splice_front it (lru_list c)\<rparr>))"

definition mc_with_value ::
    "'k \<Rightarrow> ('v \<Rightarrow> 's \<Rightarrow> 's) \<Rightarrow> 's \<Rightarrow> ('k, 'v) memory_cache \<Rightarrow> bool \<times> 's \<times> ('k, 'v) memory_cache" where
  "mc_with_value key fn s c =
     (case map_of (lru_index c) key of
        None \<Rightarrow> (False, s, c)
      | Some it \<Rightarrow>
          (True,
           (case lru_cells c it of Some n \<Rightarrow> fn (lru_value n) s | None \<Rightarrow> s),
           c\<lparr>lru_list := splice_front it (lru_list c)\<rparr>))"

definition over_limit :: "('k, 'v) memory_cache \<Rightarrow> bool" where
  "over_limit c \<longleftrightarrow> length (lru_index c) > max_entries c \<or> total_weight c > max_bytes c"

definition pop_back :: "('k, 'v) memory_cache \<Rightarrow> ('k, 'v) memory_cache" where
  "pop_back c =
     (let it = last (lru_list c)
      in case lru_cells c it of
           None \<Rightarrow> c\<lparr>lru_list := butlast (lru_list c)\<rparr>
         | Some n \<Rightarrow>
             c\<lparr>total_weight := total_weight c - lru_weight n,
               lru_index := AList.delete (lru_key n) (lru_index c),
               lru_list := butlast (lru_list c),
               lru_cells := (lru_cells c)(it := None)\<rparr>)"

lemma lru_list_pop_back [simp]: "lru_list (pop_back c) = butlast (lru_list c)"
  by (simp add: pop_back_def Let_def split: option.splits)

function evict_if_needed :: "('k, 'v) memory_cache \<Rightarrow> ('k, 'v) memory_cache" where
  "evict_if_needed c =
     (if lru_list c \<noteq> [] \<and> over_limit c then evict_if_needed (pop_back c) else c)"
  by pat_completeness auto
termination
  by (relation "measure (\<lambda>c. length (lru_list c))") auto

declare evict_if_needed.simps [simp del]

definition do_put :: "'k \<Rightarrow> 'v \<Rightarrow> ('k, 'v) memory_cache \<Rightarrow> ('k, 'v) memory_cache" where
  "do_put key v c =
     (let new_weight = weight_fn c v
      in case map_of (lru_index c) key of
           Some it \<Rightarrow>
             (let old = (case lru_cells c it of Some n \<Rightarrow> lru_weight n | None \<Rightarrow> 0)
              in evict_if_needed
                   (c\<lparr>lru_cells := (lru_cells c)(it \<mapsto>
                        \<lparr>lru_key = key, lru_value = v, lru_weight = new_weight\<rparr>),
                      total_weight := total_weight c - old + new_weight,
                      lru_list := splice_front it (lru_list c)\<rparr>))
         | None \<Rightarrow>
             (let it = next_cell c
              in evict_if_needed
                   (c\<lparr>lru_cells := (lru_cells c)(it \<mapsto>
                        \<lparr>lru_key = key, lru_value = v, lru_weight = new_weight\<rparr>),
                      next_cell := Suc it,
                      lru_list := it # lru_list c,
                      lru_index := AList.update key it (lru_index c),
                      total_weight := total_weight c + new_weight\<rparr>)))"

definition mc_put :: "'k \<Rightarrow> 'v \<Rightarrow> ('k, 'v) memory_cache \<Rightarrow> ('k, 'v) memory_cache" where
  "mc_put key v c = (if max_entries c = 0 \<or> max_bytes c = 0 then c else do_put key v c)"

definition mc_erase :: "'k \<Rightarrow> ('k, 'v) memory_cache \<Rightarrow> bool \<times> ('k, 'v) memory_cache" where
  "mc_erase key c =
     (case map_of (lru_index c) key of
        None \<Rightarrow> (False, c)
      | Some it \<Rightarrow>
          (True,
           c\<lparr>total_weight := total_weight c -
                (case lru_cells c it of Some n \<Rightarrow> lru_weight n | None \<Rightarrow> 0),
             lru_list := remove1 it (lru_list c),
             lru_cells := (lru_cells c)(it := None),
             lru_index := AList.delete key (lru_index c)\<rparr>))"

definition mc_clear :: "('k, 'v) memory_cache \<Rightarrow> ('k, 'v) memory_cache" where
  "mc_clear c = c\<lparr>lru_list := [], lru_cells := Map.empty, lru_index := [], total_weight := 0\<rparr>"

definition mc_size :: "('k, 'v) memory_cache \<Rightarrow> nat" where
  "mc_size c = length (lru_index c)"

section \<open>Invariant and view\<close>

text \<open>
  \<open>mc_wf\<close>: the cells are those of the list, each cell's key is indexed by that cell's address and
  nothing else is, the recorded weights are those of the weight function and the total is their sum
  (in the ring of 64-bit values).
\<close>

definition node_at :: "('k, 'v) memory_cache \<Rightarrow> nat \<Rightarrow> ('k, 'v) lru_node" where
  "node_at c i = the (lru_cells c i)"

definition mc_wf :: "('k, 'v) memory_cache \<Rightarrow> bool" where
  "mc_wf c \<longleftrightarrow>
     distinct (lru_list c) \<and>
     dom (lru_cells c) = set (lru_list c) \<and>
     (\<forall>i \<in> set (lru_list c). i < next_cell c) \<and>
     distinct (map fst (lru_index c)) \<and>
     set (lru_index c) = (\<lambda>i. (lru_key (node_at c i), i)) ` set (lru_list c) \<and>
     (\<forall>i \<in> set (lru_list c). lru_weight (node_at c i) = weight_fn c (lru_value (node_at c i))) \<and>
     total_weight c = (\<Sum>i\<leftarrow>lru_list c. lru_weight (node_at c i))"

definition lru_view :: "('k, 'v) memory_cache \<Rightarrow> ('k \<times> 'v) list" where
  "lru_view c = map (\<lambda>i. (lru_key (node_at c i), lru_value (node_at c i))) (lru_list c)"

lemma mc_wf_new: "mc_wf (memory_cache_new me mb wfn)"
  by (simp add: mc_wf_def memory_cache_new_def)

lemma lru_view_new [simp]: "lru_view (memory_cache_new me mb wfn) = []"
  by (simp add: lru_view_def memory_cache_new_def)

text \<open>Facts of a well-formed cache.\<close>

lemma mc_wf_index:
  "mc_wf c \<Longrightarrow> map_of (lru_index c) k = Some i \<longleftrightarrow> i \<in> set (lru_list c) \<and> lru_key (node_at c i) = k"
  by (auto simp: mc_wf_def map_of_eq_Some_iff)

lemma mc_wf_key_inj:
  "mc_wf c \<Longrightarrow> i \<in> set (lru_list c) \<Longrightarrow> j \<in> set (lru_list c) \<Longrightarrow>
     lru_key (node_at c i) = lru_key (node_at c j) \<Longrightarrow> i = j"
  by (metis mc_wf_index option.inject)

lemma mc_wf_index_None:
  "mc_wf c \<Longrightarrow> map_of (lru_index c) k = None \<longleftrightarrow> (\<forall>i \<in> set (lru_list c). lru_key (node_at c i) \<noteq> k)"
  by (metis mc_wf_index not_Some_eq)

lemma mc_wf_cell: "mc_wf c \<Longrightarrow> i \<in> set (lru_list c) \<Longrightarrow> lru_cells c i = Some (node_at c i)"
  by (metis domIff mc_wf_def node_at_def option.collapse)

lemma mc_wf_no_cell: "mc_wf c \<Longrightarrow> i \<notin> set (lru_list c) \<Longrightarrow> lru_cells c i = None"
  by (auto simp: mc_wf_def)

lemma mc_wf_length_index:
  assumes "mc_wf c" shows "length (lru_index c) = length (lru_list c)"
proof -
  have di: "distinct (lru_index c)"
    and si: "set (lru_index c) = (\<lambda>i. (lru_key (node_at c i), i)) ` set (lru_list c)"
    using assms unfolding mc_wf_def distinct_map by blast+
  have "length (lru_index c) = card (set (lru_index c))" using di by (simp add: distinct_card)
  also have "\<dots> = card (set (lru_list c))" unfolding si by (simp add: card_image inj_on_def)
  also have "\<dots> = length (lru_list c)"
    using assms by (simp add: mc_wf_def distinct_card)
  finally show ?thesis .
qed

lemma fst_index: "mc_wf c \<Longrightarrow> fst ` set (lru_index c) = (\<lambda>i. lru_key (node_at c i)) ` set (lru_list c)"
  by (simp add: mc_wf_def image_image)

lemma alist_update_new: "k \<notin> fst ` set al \<Longrightarrow> AList.update k v al = al @ [(k, v)]"
  by (induction al) auto

lemma alist_delete_set: "set (AList.delete k al) = {p \<in> set al. fst p \<noteq> k}"
  by (auto simp: AList.delete_eq)

lemma distinct_fst_delete: "distinct (map fst al) \<Longrightarrow> distinct (map fst (AList.delete k al))"
  by (simp add: AList.distinct_delete)

lemma lru_view_distinct: "mc_wf c \<Longrightarrow> distinct (map fst (lru_view c))"
  by (auto simp: lru_view_def distinct_map inj_on_def comp_def dest: mc_wf_key_inj)
    (simp add: mc_wf_def)

lemma map_of_lru_view:
  assumes "mc_wf c"
  shows "map_of (lru_view c) k = map_option (\<lambda>i. lru_value (node_at c i)) (map_of (lru_index c) k)"
proof (cases "map_of (lru_index c) k")
  case None
  with assms have "k \<notin> fst ` set (lru_view c)" by (auto simp: mc_wf_index_None lru_view_def)
  then have "map_of (lru_view c) k = None" by (simp add: map_of_eq_None_iff)
  then show ?thesis using None by (simp only: option.map)
next
  case (Some i)
  then have "i \<in> set (lru_list c)" "lru_key (node_at c i) = k"
    using mc_wf_index [OF assms, of k i] by simp_all
  then have "(k, lru_value (node_at c i)) \<in> set (lru_view c)" by (force simp: lru_view_def)
  then show ?thesis using Some lru_view_distinct [OF assms] by simp
qed

section \<open>The abstract LRU list\<close>

text \<open>
  An LRU cache as a list of key-value pairs, most recent first: a hit moves its pair to the front, a
  store puts the pair at the front and then drops pairs from the end while a limit is exceeded.
\<close>

definition lru_touch :: "'k \<Rightarrow> ('k \<times> 'v) list \<Rightarrow> ('k \<times> 'v) list" where
  "lru_touch k xs =
     (case map_of xs k of None \<Rightarrow> xs | Some v \<Rightarrow> (k, v) # filter (\<lambda>p. fst p \<noteq> k) xs)"

definition within :: "nat \<Rightarrow> u64 \<Rightarrow> ('v \<Rightarrow> u64) \<Rightarrow> ('k \<times> 'v) list \<Rightarrow> bool" where
  "within me mb wfn xs \<longleftrightarrow> length xs \<le> me \<and> (\<Sum>p\<leftarrow>xs. wfn (snd p)) \<le> mb"

fun lru_trim_to :: "nat \<Rightarrow> nat \<Rightarrow> u64 \<Rightarrow> ('v \<Rightarrow> u64) \<Rightarrow> ('k \<times> 'v) list \<Rightarrow> ('k \<times> 'v) list" where
  "lru_trim_to 0 me mb wfn xs = []"
| "lru_trim_to (Suc n) me mb wfn xs =
     (if within me mb wfn (take (Suc n) xs) then take (Suc n) xs else lru_trim_to n me mb wfn xs)"

definition lru_trim :: "nat \<Rightarrow> u64 \<Rightarrow> ('v \<Rightarrow> u64) \<Rightarrow> ('k \<times> 'v) list \<Rightarrow> ('k \<times> 'v) list" where
  "lru_trim me mb wfn xs = lru_trim_to (length xs) me mb wfn xs"

definition lru_store ::
    "nat \<Rightarrow> u64 \<Rightarrow> ('v \<Rightarrow> u64) \<Rightarrow> 'k \<Rightarrow> 'v \<Rightarrow> ('k \<times> 'v) list \<Rightarrow> ('k \<times> 'v) list" where
  "lru_store me mb wfn k v xs = lru_trim me mb wfn ((k, v) # filter (\<lambda>p. fst p \<noteq> k) xs)"

lemma lru_trim_to_prefix: "\<exists>m \<le> n. lru_trim_to n me mb wfn xs = take m xs"
  by (induction n) (auto intro: le_SucI)

lemma lru_trim_to_within: "lru_trim_to n me mb wfn xs = [] \<or> within me mb wfn (lru_trim_to n me mb wfn xs)"
  by (induction n) auto

lemma lru_trim_to_longest:
  "m \<le> n \<Longrightarrow> n \<le> length xs \<Longrightarrow> within me mb wfn (take m xs) \<Longrightarrow>
     m \<le> length (lru_trim_to n me mb wfn xs)"
  by (induction n) (auto simp: le_Suc_eq)

lemma within_Nil: "within me mb wfn []"
  by (simp add: within_def)

section \<open>The operations implement the LRU list\<close>

lemma filter_lru_list:
  assumes "mc_wf c" and "it \<in> set (lru_list c)"
  shows "filter (\<lambda>p. fst p \<noteq> lru_key (node_at c it)) (lru_view c) =
     map (\<lambda>i. (lru_key (node_at c i), lru_value (node_at c i))) (remove1 it (lru_list c))"
proof -
  have d: "distinct (lru_list c)" using assms(1) by (simp add: mc_wf_def)
  have "filter (\<lambda>i. lru_key (node_at c i) \<noteq> lru_key (node_at c it)) (lru_list c) =
      filter (\<lambda>i. i \<noteq> it) (lru_list c)"
    using assms by (auto intro!: filter_cong dest: mc_wf_key_inj)
  also have "\<dots> = remove1 it (lru_list c)"
    using d by (auto simp: distinct_remove1_removeAll removeAll_filter_not_eq intro: filter_cong)
  finally show ?thesis by (simp add: lru_view_def filter_map comp_def)
qed

lemma splice_wf:
  assumes "mc_wf c" and "it \<in> set (lru_list c)"
  shows "mc_wf (c\<lparr>lru_list := splice_front it (lru_list c)\<rparr>)"
proof -
  have d: "distinct (lru_list c)" using assms(1) by (simp add: mc_wf_def)
  have st: "set (splice_front it (lru_list c)) = set (lru_list c)"
    using assms(2) d by (auto simp: splice_front_def)
  have sm: "(\<Sum>i\<leftarrow>splice_front it (lru_list c). f i) = (\<Sum>i\<leftarrow>lru_list c. f i)" for f :: "nat \<Rightarrow> u64"
    using sum_list_map_remove1 [OF assms(2), of f] by (simp add: splice_front_def)
  have "distinct (splice_front it (lru_list c))" using d by (simp add: splice_front_def)
  then show ?thesis using assms(1) by (simp add: mc_wf_def node_at_def st sm)
qed

lemma splice_view:
  assumes "mc_wf c" and "it \<in> set (lru_list c)"
  shows "lru_view (c\<lparr>lru_list := splice_front it (lru_list c)\<rparr>) =
     (lru_key (node_at c it), lru_value (node_at c it)) #
       filter (\<lambda>p. fst p \<noteq> lru_key (node_at c it)) (lru_view c)"
  using filter_lru_list [OF assms] by (simp add: lru_view_def splice_front_def node_at_def)

lemma pop_back_wf_view:
  assumes "mc_wf c" and "lru_list c \<noteq> []"
  shows "mc_wf (pop_back c)" and "lru_view (pop_back c) = butlast (lru_view c)"
proof -
  define it where "it = last (lru_list c)"
  define l where "l = butlast (lru_list c)"
  have ls: "lru_list c = l @ [it]" using assms(2) by (simp add: it_def l_def)
  have itin: "it \<in> set (lru_list c)" by (simp add: ls)
  have d: "distinct l" "it \<notin> set l" using assms(1) by (auto simp: mc_wf_def ls)
  let ?n = "node_at c it"
  have pb: "pop_back c = c\<lparr>total_weight := total_weight c - lru_weight ?n,
      lru_index := AList.delete (lru_key ?n) (lru_index c), lru_list := l,
      lru_cells := (lru_cells c)(it := None)\<rparr>"
    using mc_wf_cell [OF assms(1) itin] by (simp add: pop_back_def Let_def it_def l_def)
  have na: "node_at (pop_back c) i = node_at c i" if "i \<in> set l" for i
    using that d by (auto simp: pb node_at_def)
  have idx: "set (AList.delete (lru_key ?n) (lru_index c)) = (\<lambda>i. (lru_key (node_at c i), i)) ` set l"
  proof -
    have "set (lru_index c) = (\<lambda>i. (lru_key (node_at c i), i)) ` set (lru_list c)"
      using assms(1) by (simp add: mc_wf_def)
    moreover have "lru_key (node_at c i) \<noteq> lru_key ?n" if "i \<in> set l" for i
      using mc_wf_key_inj [OF assms(1) _ itin, of i] that d by (auto simp: ls)
    ultimately show ?thesis by (auto simp: alist_delete_set ls)
  qed
  have tw: "total_weight c - lru_weight ?n = (\<Sum>i\<leftarrow>l. lru_weight (node_at c i))"
    using assms(1) by (simp add: mc_wf_def ls)
  have eqs: "(\<lambda>i. (lru_key (node_at (pop_back c) i), i)) ` set l = (\<lambda>i. (lru_key (node_at c i), i)) ` set l"
    "map (\<lambda>i. lru_weight (node_at (pop_back c) i)) l = map (\<lambda>i. lru_weight (node_at c i)) l"
    using na by auto
  have pbs: "lru_list (pop_back c) = l" "total_weight (pop_back c) = total_weight c - lru_weight ?n"
    "lru_index (pop_back c) = AList.delete (lru_key ?n) (lru_index c)"
    "lru_cells (pop_back c) = (lru_cells c)(it := None)" "next_cell (pop_back c) = next_cell c"
    "weight_fn (pop_back c) = weight_fn c"
    by (simp_all add: pb)
  have c: "dom (lru_cells c) = set (lru_list c)" "\<forall>i \<in> set (lru_list c). i < next_cell c"
    "distinct (map fst (lru_index c))"
    "\<forall>i \<in> set (lru_list c). lru_weight (node_at c i) = weight_fn c (lru_value (node_at c i))"
    using assms(1) unfolding mc_wf_def by blast+
  have "dom ((lru_cells c)(it := None)) = set l" using c(1) d by (auto simp: ls)
  moreover have "\<forall>i \<in> set l. i < next_cell c" using c(2) by (simp add: ls)
  moreover have "\<forall>i \<in> set l. lru_weight (node_at (pop_back c) i) =
      weight_fn c (lru_value (node_at (pop_back c) i))" using c(4) na by (simp add: ls)
  ultimately show "mc_wf (pop_back c)"
    unfolding mc_wf_def pbs eqs idx tw using d c(3) by (simp add: distinct_fst_delete)
  show "lru_view (pop_back c) = butlast (lru_view c)"
    using na by (simp add: lru_view_def pbs ls)
qed

text \<open>Eviction drops pairs from the end of the view until the limits hold.\<close>

lemma lru_trim_to_cong: "take n xs = take n ys \<Longrightarrow> lru_trim_to n me mb wfn xs = lru_trim_to n me mb wfn ys"
proof (induction n)
  case (Suc n)
  then have "take n xs = take n ys" by (metis Suc_leD order_refl take_take min_def)
  with Suc show ?case by simp
qed simp

lemma lru_trim_unfold:
  "lru_trim me mb wfn xs =
     (if xs = [] \<or> within me mb wfn xs then xs else lru_trim me mb wfn (butlast xs))"
proof (cases xs rule: rev_cases)
  case (snoc ys y)
  have "lru_trim_to (length ys) me mb wfn (ys @ [y]) = lru_trim_to (length ys) me mb wfn ys"
    by (rule lru_trim_to_cong) simp
  with snoc show ?thesis by (simp add: lru_trim_def)
qed (simp add: lru_trim_def)

lemma pop_back_limits [simp]:
  "max_entries (pop_back c) = max_entries c" "max_bytes (pop_back c) = max_bytes c"
  "weight_fn (pop_back c) = weight_fn c" "next_cell (pop_back c) = next_cell c"
  by (simp_all add: pop_back_def Let_def split: option.splits)

lemma length_lru_view [simp]: "length (lru_view c) = length (lru_list c)"
  by (simp add: lru_view_def)

lemma lru_view_empty [simp]: "lru_view c = [] \<longleftrightarrow> lru_list c = []"
  by (simp add: lru_view_def)

lemma total_weight_view:
  "mc_wf c \<Longrightarrow> total_weight c = (\<Sum>p\<leftarrow>lru_view c. weight_fn c (snd p))"
proof -
  assume "mc_wf c"
  then have "map (\<lambda>i. lru_weight (node_at c i)) (lru_list c) =
      map (\<lambda>i. weight_fn c (lru_value (node_at c i))) (lru_list c)"
    and "total_weight c = (\<Sum>i\<leftarrow>lru_list c. lru_weight (node_at c i))"
    unfolding mc_wf_def by auto
  then show ?thesis by (auto simp: lru_view_def comp_def intro!: arg_cong [where f = sum_list])
qed

lemma over_limit_view:
  "mc_wf c \<Longrightarrow>
     over_limit c \<longleftrightarrow> \<not> within (max_entries c) (max_bytes c) (weight_fn c) (lru_view c)"
  by (auto simp: over_limit_def within_def mc_wf_length_index total_weight_view)

lemma evict_refines:
  "mc_wf c \<Longrightarrow> mc_wf (evict_if_needed c) \<and>
     lru_view (evict_if_needed c) = lru_trim (max_entries c) (max_bytes c) (weight_fn c) (lru_view c)"
proof (induction c rule: evict_if_needed.induct)
  case (1 c)
  show ?case
  proof (cases "lru_list c \<noteq> [] \<and> over_limit c")
    case True
    with 1 pop_back_wf_view [of c] show ?thesis
      by (simp add: evict_if_needed.simps [of c]
          lru_trim_unfold [of "max_entries c" "max_bytes c" "weight_fn c" "lru_view c"] over_limit_view)
  next
    case False
    with 1 show ?thesis
      by (auto simp: evict_if_needed.simps [of c] over_limit_view
          lru_trim_unfold [of "max_entries c" "max_bytes c" "weight_fn c" "lru_view c"])
  qed
qed

lemma evict_limits [simp]:
  "max_entries (evict_if_needed c) = max_entries c \<and> max_bytes (evict_if_needed c) = max_bytes c \<and>
   weight_fn (evict_if_needed c) = weight_fn c"
  by (induction c rule: evict_if_needed.induct) (subst (1 2 3) evict_if_needed.simps, simp)

text \<open>Overwriting a cell's value, and adding a cell at the front.\<close>

lemma overwrite_wf:
  assumes wf: "mc_wf c" and it: "it \<in> set (lru_list c)" and k: "lru_key n = lru_key (node_at c it)"
    and w: "lru_weight n = weight_fn c (lru_value n)"
  shows "mc_wf (c\<lparr>lru_cells := (lru_cells c)(it \<mapsto> n),
           total_weight := total_weight c - lru_weight (node_at c it) + lru_weight n\<rparr>)" (is "mc_wf ?c")
proof -
  let ?l = "lru_list c" and ?r = "remove1 it (lru_list c)"
  define c' where "c' = ?c"
  have na: "node_at c' i = (if i = it then n else node_at c i)" for i
    by (simp add: c'_def node_at_def)
  have ks: "lru_key (node_at c' i) = lru_key (node_at c i)" for i by (simp add: na k)
  have d: "distinct ?l" using wf by (simp add: mc_wf_def)
  have s1: "(\<Sum>i\<leftarrow>?l. lru_weight (node_at c' i)) = lru_weight n + (\<Sum>i\<leftarrow>?r. lru_weight (node_at c' i))"
    using sum_list_map_remove1 [OF it, of "\<lambda>i. lru_weight (node_at c' i)"] by (simp add: na)
  have s2: "(\<Sum>i\<leftarrow>?r. lru_weight (node_at c' i)) = (\<Sum>i\<leftarrow>?r. lru_weight (node_at c i))"
    using d by (auto simp: na intro!: arg_cong [where f = sum_list])
  have s3: "total_weight c = lru_weight (node_at c it) + (\<Sum>i\<leftarrow>?r. lru_weight (node_at c i))"
    using wf sum_list_map_remove1 [OF it, of "\<lambda>i. lru_weight (node_at c i)"] by (simp add: mc_wf_def)
  have "dom ((lru_cells c)(it \<mapsto> n)) = set ?l" using wf it unfolding mc_wf_def by auto
  moreover have "\<forall>i \<in> set ?l. lru_weight (node_at c' i) = weight_fn c (lru_value (node_at c' i))"
    using wf w unfolding mc_wf_def by (simp add: na)
  moreover have "total_weight c' = (\<Sum>i\<leftarrow>?l. lru_weight (node_at c' i))"
    unfolding s1 s2 by (simp add: c'_def s3)
  moreover have "lru_list c' = ?l" "lru_index c' = lru_index c" "next_cell c' = next_cell c"
    "weight_fn c' = weight_fn c" "lru_cells c' = (lru_cells c)(it \<mapsto> n)" by (simp_all add: c'_def)
  ultimately have "mc_wf c'" using wf unfolding mc_wf_def by (simp add: ks)
  then show ?thesis by (simp only: c'_def)
qed

lemma push_front_wf:
  assumes wf: "mc_wf c" and k: "map_of (lru_index c) (lru_key n) = None"
    and w: "lru_weight n = weight_fn c (lru_value n)"
  shows "mc_wf (c\<lparr>lru_cells := (lru_cells c)(next_cell c \<mapsto> n), next_cell := Suc (next_cell c),
           lru_list := next_cell c # lru_list c,
           lru_index := AList.update (lru_key n) (next_cell c) (lru_index c),
           total_weight := total_weight c + lru_weight n\<rparr>)" (is "mc_wf ?c")
    and "lru_view (c\<lparr>lru_cells := (lru_cells c)(next_cell c \<mapsto> n), next_cell := Suc (next_cell c),
           lru_list := next_cell c # lru_list c,
           lru_index := AList.update (lru_key n) (next_cell c) (lru_index c),
           total_weight := total_weight c + lru_weight n\<rparr>) = (lru_key n, lru_value n) # lru_view c"
proof -
  let ?it = "next_cell c" and ?l = "lru_list c"
  define c' where "c' = ?c"
  have new: "?it \<notin> set ?l" using wf by (auto simp: mc_wf_def)
  have na: "node_at c' i = (if i = ?it then n else node_at c i)" for i
    by (simp add: c'_def node_at_def)
  have old: "node_at c' i = node_at c i" if "i \<in> set ?l" for i using that new by (auto simp: na)
  have up: "AList.update (lru_key n) ?it (lru_index c) = lru_index c @ [(lru_key n, ?it)]"
    using k by (simp add: alist_update_new map_of_eq_None_iff)
  have c: "distinct ?l" "dom (lru_cells c) = set ?l"
    "\<forall>i \<in> set ?l. i < ?it" "distinct (map fst (lru_index c))"
    "set (lru_index c) = (\<lambda>i. (lru_key (node_at c i), i)) ` set ?l"
    "\<forall>i \<in> set ?l. lru_weight (node_at c i) = weight_fn c (lru_value (node_at c i))"
    "total_weight c = (\<Sum>i\<leftarrow>?l. lru_weight (node_at c i))"
    using wf unfolding mc_wf_def by blast+
  have c': "lru_list c' = ?it # ?l" "lru_index c' = lru_index c @ [(lru_key n, ?it)]"
    "next_cell c' = Suc ?it" "weight_fn c' = weight_fn c"
    "lru_cells c' = (lru_cells c)(?it \<mapsto> n)" "total_weight c' = total_weight c + lru_weight n"
    by (simp_all add: c'_def up)
  have "(\<lambda>i. (lru_key (node_at c' i), i)) ` set ?l = set (lru_index c)" unfolding c(5) using old by auto
  then have i: "set (lru_index c') = (\<lambda>i. (lru_key (node_at c' i), i)) ` set (lru_list c')"
    by (simp add: c' na)
  have "(\<Sum>i\<leftarrow>?l. lru_weight (node_at c' i)) = (\<Sum>i\<leftarrow>?l. lru_weight (node_at c i))"
    using old by (auto intro!: arg_cong [where f = sum_list])
  then have t: "total_weight c' = (\<Sum>i\<leftarrow>lru_list c'. lru_weight (node_at c' i))"
    by (simp add: c' na c(7) add.commute)
  have g: "\<forall>i \<in> set (lru_list c'). lru_weight (node_at c' i) = weight_fn c' (lru_value (node_at c' i))"
    using c(6) old w by (simp add: c' na)
  have m: "dom (lru_cells c') = set (lru_list c')" using c(2) by (auto simp: c')
  have n: "\<forall>i \<in> set (lru_list c'). i < next_cell c'" using c(3) by (auto simp: c')
  have d: "distinct (map fst (lru_index c'))" "distinct (lru_list c')"
    using k c(1,4) new by (simp_all add: c' map_of_eq_None_iff)
  have "mc_wf c'" unfolding mc_wf_def using i t g m n d by blast
  then show "mc_wf ?c" by (simp only: c'_def)
  have "lru_view c' = (lru_key n, lru_value n) # lru_view c" using old by (simp add: lru_view_def c' na)
  then show "lru_view ?c = (lru_key n, lru_value n) # lru_view c" by (simp only: c'_def)
qed

lemma lru_view_key: "mc_wf c \<Longrightarrow> k \<in> fst ` set (lru_view c) \<longleftrightarrow> map_of (lru_index c) k \<noteq> None"
  by (metis map_of_eq_None_iff map_of_lru_view option.map_disc_iff)

lemma node_at_splice [simp]: "node_at (c\<lparr>lru_list := l\<rparr>) = node_at c"
  by (simp add: node_at_def fun_eq_iff)

lemma do_put_refines:
  assumes wf: "mc_wf c"
  shows "mc_wf (do_put k v c) \<and>
     lru_view (do_put k v c) = lru_store (max_entries c) (max_bytes c) (weight_fn c) k v (lru_view c)"
proof (cases "map_of (lru_index c) k")
  case None
  let ?n = "\<lparr>lru_key = k, lru_value = v, lru_weight = weight_fn c v\<rparr>"
  have "k \<notin> fst ` set (lru_view c)"
    unfolding lru_view_key [OF wf] by (simp only: None not_not)
  then have f: "filter (\<lambda>p. fst p \<noteq> k) (lru_view c) = lru_view c" by (auto simp: filter_id_conv)
  note p = push_front_wf [OF wf, of ?n, simplified, OF None]
  from evict_refines [OF p(1)] show ?thesis
    unfolding do_put_def Let_def None option.case lru_store_def f p(2) by simp
next
  case (Some it)
  then have it: "it \<in> set (lru_list c)" and k: "lru_key (node_at c it) = k"
    using mc_wf_index [OF wf, of k it] by simp_all
  let ?n = "\<lparr>lru_key = k, lru_value = v, lru_weight = weight_fn c v\<rparr>"
  define c1 where "c1 = c\<lparr>lru_cells := (lru_cells c)(it \<mapsto> ?n),
      total_weight := total_weight c - lru_weight (node_at c it) + weight_fn c v\<rparr>"
  define c2 where "c2 = c1\<lparr>lru_list := splice_front it (lru_list c1)\<rparr>"
  have wf1: "mc_wf c1" using overwrite_wf [OF wf it, of ?n] k by (simp add: c1_def)
  have l1: "lru_list c1 = lru_list c" by (simp add: c1_def)
  have n1: "node_at c1 i = (if i = it then ?n else node_at c i)" for i by (simp add: c1_def node_at_def)
  have wf2: "mc_wf c2" using splice_wf [OF wf1, of it] it by (simp add: c2_def l1)
  have "filter (\<lambda>p. fst p \<noteq> k) (lru_view c1) = filter (\<lambda>p. fst p \<noteq> k) (lru_view c)"
    using filter_lru_list [OF wf1, of it] filter_lru_list [OF wf, of it] it k wf
    by (simp add: n1 l1 mc_wf_def)
  then have v2: "lru_view c2 = (k, v) # filter (\<lambda>p. fst p \<noteq> k) (lru_view c)"
    using splice_view [OF wf1, of it] it by (simp add: c2_def l1 n1)
  have "do_put k v c = evict_if_needed c2"
    using mc_wf_cell [OF wf it] Some by (simp add: do_put_def c2_def c1_def Let_def)
  moreover have "max_entries c2 = max_entries c" "max_bytes c2 = max_bytes c" "weight_fn c2 = weight_fn c"
    by (simp_all add: c2_def c1_def)
  ultimately show ?thesis using evict_refines [OF wf2] by (simp add: lru_store_def v2)
qed

lemma do_put_limits [simp]:
  "max_entries (do_put k v c) = max_entries c" "max_bytes (do_put k v c) = max_bytes c"
  "weight_fn (do_put k v c) = weight_fn c"
  by (simp_all add: do_put_def Let_def split: option.splits)

lemma mc_get_refines:
  assumes wf: "mc_wf c"
  shows "fst (mc_get k c) = map_of (lru_view c) k" and "mc_wf (snd (mc_get k c))"
    and "lru_view (snd (mc_get k c)) = lru_touch k (lru_view c)"
proof -
  have "fst (mc_get k c) = map_of (lru_view c) k \<and> mc_wf (snd (mc_get k c)) \<and>
      lru_view (snd (mc_get k c)) = lru_touch k (lru_view c)"
  proof (cases "map_of (lru_index c) k")
    case None
    then have "map_of (lru_view c) k = None" unfolding map_of_lru_view [OF wf] by (simp only: option.map)
    with None wf show ?thesis by (simp add: mc_get_def lru_touch_def del: map_of_eq_None_iff)
  next
    case (Some it)
    then have it: "it \<in> set (lru_list c)" and k: "lru_key (node_at c it) = k"
      using mc_wf_index [OF wf, of k it] by simp_all
    have "map_of (lru_view c) k = Some (lru_value (node_at c it))"
      unfolding map_of_lru_view [OF wf] Some by simp
    then show ?thesis
      using Some splice_wf [OF wf it] splice_view [OF wf it] mc_wf_cell [OF wf it] k
      by (simp add: mc_get_def lru_touch_def)
  qed
  then show "fst (mc_get k c) = map_of (lru_view c) k" and "mc_wf (snd (mc_get k c))"
    and "lru_view (snd (mc_get k c)) = lru_touch k (lru_view c)" by blast+
qed

lemma mc_with_value_get:
  assumes "mc_wf c"
  shows "mc_with_value k fn s c =
     (case fst (mc_get k c) of None \<Rightarrow> (False, s, c) | Some v \<Rightarrow> (True, fn v s, snd (mc_get k c)))"
proof (cases "map_of (lru_index c) k")
  case (Some it)
  then have "it \<in> set (lru_list c)" using mc_wf_index [OF assms, of k it] by simp
  then show ?thesis using Some mc_wf_cell [OF assms] by (simp add: mc_with_value_def mc_get_def)
qed (simp add: mc_with_value_def mc_get_def del: map_of_eq_None_iff)

lemma mc_erase_refines:
  assumes wf: "mc_wf c"
  shows "mc_wf (snd (mc_erase k c))"
    and "fst (mc_erase k c) \<longleftrightarrow> map_of (lru_view c) k \<noteq> None"
    and "lru_view (snd (mc_erase k c)) = filter (\<lambda>p. fst p \<noteq> k) (lru_view c)"
proof -
  show "fst (mc_erase k c) \<longleftrightarrow> map_of (lru_view c) k \<noteq> None"
    unfolding map_of_lru_view [OF wf] by (cases "map_of (lru_index c) k") (simp_all add: mc_erase_def)
  have *: "mc_wf (snd (mc_erase k c)) \<and> lru_view (snd (mc_erase k c)) = filter (\<lambda>p. fst p \<noteq> k) (lru_view c)"
  proof (cases "map_of (lru_index c) k")
    case None
    then have "k \<notin> fst ` set (lru_view c)" unfolding lru_view_key [OF wf] by (simp only: not_not)
    then have "filter (\<lambda>p. fst p \<noteq> k) (lru_view c) = lru_view c" by (auto simp: filter_id_conv)
    then show ?thesis using None wf by (simp add: mc_erase_def del: map_of_eq_None_iff)
  next
    case (Some it)
    then have it: "it \<in> set (lru_list c)" and k: "lru_key (node_at c it) = k"
      using mc_wf_index [OF wf, of k it] by simp_all
    let ?l = "lru_list c" and ?r = "remove1 it (lru_list c)"
    define c' where "c' = snd (mc_erase k c)"
    have c': "lru_list c' = ?r" "lru_index c' = AList.delete k (lru_index c)"
      "next_cell c' = next_cell c" "weight_fn c' = weight_fn c"
      "lru_cells c' = (lru_cells c)(it := None)"
      "total_weight c' = total_weight c - lru_weight (node_at c it)"
      using mc_wf_cell [OF wf it] Some by (simp_all add: c'_def mc_erase_def)
    have d: "distinct ?l" using wf by (simp add: mc_wf_def)
    have sr: "set ?r = set ?l - {it}" using d by simp
    have na: "node_at c' i = node_at c i" if "i \<in> set ?r" for i using that by (auto simp: c' sr node_at_def)
    have "set (lru_index c) = (\<lambda>i. (lru_key (node_at c i), i)) ` set ?l" using wf by (simp add: mc_wf_def)
    moreover have "lru_key (node_at c i) \<noteq> k" if "i \<in> set ?r" for i
      using mc_wf_key_inj [OF wf _ it, of i] that k by (auto simp: sr)
    ultimately have i: "set (lru_index c') = (\<lambda>i. (lru_key (node_at c' i), i)) ` set (lru_list c')"
      using k na by (auto simp: c' alist_delete_set sr)
    have "(\<Sum>i\<leftarrow>?r. lru_weight (node_at c' i)) = (\<Sum>i\<leftarrow>?r. lru_weight (node_at c i))"
      using na by (auto intro!: arg_cong [where f = sum_list])
    then have t: "total_weight c' = (\<Sum>i\<leftarrow>lru_list c'. lru_weight (node_at c' i))"
      using sum_list_map_remove1 [OF it, of "\<lambda>i. lru_weight (node_at c i)"] wf
      by (simp add: c' mc_wf_def)
    have g: "\<forall>i \<in> set (lru_list c'). lru_weight (node_at c' i) = weight_fn c' (lru_value (node_at c' i))"
      using wf na unfolding mc_wf_def c' sr by simp
    have m: "dom (lru_cells c') = set (lru_list c')" using wf unfolding mc_wf_def c' sr by auto
    have n: "\<forall>i \<in> set (lru_list c'). i < next_cell c'" using wf unfolding mc_wf_def c' sr by simp
    have ds: "distinct (map fst (lru_index c'))" "distinct (lru_list c')"
      using wf d unfolding mc_wf_def c' by (simp_all add: distinct_fst_delete)
    have "mc_wf c'" unfolding mc_wf_def using i t g m n ds by blast
    moreover have "lru_view c' = filter (\<lambda>p. fst p \<noteq> k) (lru_view c)"
      using filter_lru_list [OF wf it] na by (simp add: k c' lru_view_def)
    ultimately show ?thesis by (simp add: c'_def)
  qed
  then show "mc_wf (snd (mc_erase k c))"
    and "lru_view (snd (mc_erase k c)) = filter (\<lambda>p. fst p \<noteq> k) (lru_view c)" by simp_all
qed

section \<open>Properties\<close>

text \<open>Every operation keeps \<open>mc_wf\<close> and acts on the view as the LRU list does.\<close>

lemma mc_put_wf: "mc_wf c \<Longrightarrow> mc_wf (mc_put k v c)"
  by (simp add: mc_put_def do_put_refines)

lemma mc_put_limits [simp]:
  "max_entries (mc_put k v c) = max_entries c" "max_bytes (mc_put k v c) = max_bytes c"
  "weight_fn (mc_put k v c) = weight_fn c"
  by (simp_all add: mc_put_def)

lemma mc_put_view:
  "mc_wf c \<Longrightarrow> lru_view (mc_put k v c) =
     (if max_entries c = 0 \<or> max_bytes c = 0 then lru_view c
      else lru_store (max_entries c) (max_bytes c) (weight_fn c) k v (lru_view c))"
  by (simp add: mc_put_def do_put_refines)

lemma mc_clear_wf: "mc_wf (mc_clear c)"
  by (simp add: mc_wf_def mc_clear_def)

lemma lru_view_clear [simp]: "lru_view (mc_clear c) = []"
  by (simp add: mc_clear_def)

text \<open>
  C13. The pointer-based cache refines the LRU list: from a well-formed cache, \<^verbatim>\<open>get\<close> returns
  what the list holds for the key and moves it to the front, \<^verbatim>\<open>put\<close> stores at the front and
  evicts from the back, \<^verbatim>\<open>erase\<close> and \<^verbatim>\<open>clear\<close> remove, and each result is
  well-formed again.
\<close>

theorem memory_cache_refines_lru:
  assumes "mc_wf c"
  shows "fst (mc_get k c) = map_of (lru_view c) k \<and>
     mc_wf (snd (mc_get k c)) \<and> lru_view (snd (mc_get k c)) = lru_touch k (lru_view c) \<and>
     mc_wf (mc_put k v c) \<and>
     lru_view (mc_put k v c) =
       (if max_entries c = 0 \<or> max_bytes c = 0 then lru_view c
        else lru_store (max_entries c) (max_bytes c) (weight_fn c) k v (lru_view c)) \<and>
     mc_wf (snd (mc_erase k c)) \<and> (fst (mc_erase k c) \<longleftrightarrow> map_of (lru_view c) k \<noteq> None) \<and>
     lru_view (snd (mc_erase k c)) = filter (\<lambda>p. fst p \<noteq> k) (lru_view c) \<and>
     mc_wf (mc_clear c) \<and> lru_view (mc_clear c) = []"
  using mc_get_refines [OF assms, of k] mc_put_wf [OF assms] mc_put_view [OF assms]
    mc_erase_refines [OF assms, of k] mc_clear_wf [of c] by simp

definition demo_cache :: "(string, string) memory_cache" where
  "demo_cache = mc_put ''a'' ''xx'' (memory_cache_new 2 10 (\<lambda>s. of_nat (length s)))"

lemma demo_cache_wf: "mc_wf demo_cache"
  by (simp add: demo_cache_def mc_put_wf mc_wf_new)

lemma memory_cache_new_limits [simp]:
  "max_entries (memory_cache_new me mb wfn) = me" "max_bytes (memory_cache_new me mb wfn) = mb"
  "weight_fn (memory_cache_new me mb wfn) = wfn"
  by (simp_all add: memory_cache_new_def)

lemma demo_cache_limits:
  "max_entries demo_cache = 2" "max_bytes demo_cache = 10"
  "weight_fn demo_cache = (\<lambda>s. of_nat (length s))"
  by (simp_all add: demo_cache_def)

lemma demo_cache_view: "lru_view demo_cache = [(''a'', ''xx'')]"
  unfolding demo_cache_def mc_put_view [OF mc_wf_new]
  by (simp add: lru_store_def lru_trim_def within_def)

theorem memory_cache_refines_lru_witness:
  "mc_wf demo_cache \<and> fst (mc_get ''a'' demo_cache) = Some ''xx''"
  using memory_cache_refines_lru [OF demo_cache_wf, of "''a''"] demo_cache_wf
  by (simp add: demo_cache_view)



lemma mc_get_after_put:
  assumes wf: "mc_wf c" and on: "max_entries c \<noteq> 0" "max_bytes c \<noteq> 0"
    and fits: "weight_fn c v \<le> max_bytes c"
  shows "fst (mc_get k (mc_put k v c)) = Some v"
proof -
  let ?xs = "(k, v) # filter (\<lambda>p. fst p \<noteq> k) (lru_view c)"
  let ?t = "lru_trim_to (length ?xs) (max_entries c) (max_bytes c) (weight_fn c) ?xs"
  have vw: "lru_view (mc_put k v c) = ?t"
    using on by (simp add: mc_put_view [OF wf] lru_store_def lru_trim_def)
  have "within (max_entries c) (max_bytes c) (weight_fn c) (take 1 ?xs)"
    using on fits by (simp add: within_def)
  then have "1 \<le> length ?t" by (intro lru_trim_to_longest) auto
  moreover obtain n where "?t = take n ?xs" using lru_trim_to_prefix [of "length ?xs"] by blast
  ultimately have "map_of ?t k = Some v" by (cases n) auto
  then show ?thesis using mc_get_refines(1) [OF mc_put_wf [OF wf, of k v], of k] vw by simp
qed

text \<open>
  A value that fits is readable right after it was put: if its weight is at most
  \<^verbatim>\<open>max_bytes\<close>, eviction never removes the entry just stored.
\<close>

theorem get_after_put:
  assumes "mc_wf c" and "max_entries c \<noteq> 0" "max_bytes c \<noteq> 0" and "weight_fn c v \<le> max_bytes c"
  shows "fst (mc_get k (mc_put k v c)) = Some v"
  using assms by (rule mc_get_after_put)

theorem get_after_put_witness: "fst (mc_get ''b'' (mc_put ''b'' ''yyyy'' demo_cache)) = Some ''yyyy''"
  by (rule get_after_put [OF demo_cache_wf]) (simp_all add: demo_cache_limits)

text \<open>
  A value heavier than \<^verbatim>\<open>max_bytes\<close> empties the cache: it is stored at the front first
  and eviction runs from the back, so every other entry is evicted before the oversized one, and in
  the end nothing is left. (The sum of the weights is assumed not to exceed \<^verbatim>\<open>size_t\<close>.)
\<close>

theorem oversized_put_empties_cache:
  assumes wf: "mc_wf c" and on: "max_entries c \<noteq> 0" "max_bytes c \<noteq> 0"
    and big: "weight_fn c v > max_bytes c"
    and nowrap: "unat (weight_fn c v) + (\<Sum>p\<leftarrow>lru_view c. unat (weight_fn c (snd p))) < 2 ^ 64"
  shows "lru_view (mc_put k v c) = []"
proof -
  let ?ys = "filter (\<lambda>p. fst p \<noteq> k) (lru_view c)"
  let ?w = "\<lambda>p. weight_fn c (snd p)"
  note sums = unat_sum_list [where f = ?w]
  have le: "(\<Sum>p\<leftarrow>take m ?ys. unat (?w p)) \<le> (\<Sum>p\<leftarrow>lru_view c. unat (?w p))" for m
  proof -
    have "(\<Sum>p\<leftarrow>take m ?ys. unat (?w p)) \<le> (\<Sum>p\<leftarrow>?ys. unat (?w p))"
      by (rule sum_list_take_le)
    also have "\<dots> \<le> (\<Sum>p\<leftarrow>lru_view c. unat (?w p))" by (rule sum_list_filter_le_nat)
    finally show ?thesis .
  qed
  have bad: "\<not> within (max_entries c) (max_bytes c) (weight_fn c) (take (Suc m) ((k, v) # ?ys))" for m
  proof -
    have "(\<Sum>p\<leftarrow>take (Suc m) ((k, v) # ?ys). unat (?w p)) < 2 ^ 64"
      using le [of m] nowrap by simp
    from sums [OF this] have "unat (weight_fn c v) \<le> unat (\<Sum>p\<leftarrow>take (Suc m) ((k, v) # ?ys). ?w p)" by simp
    then have "max_bytes c < (\<Sum>p\<leftarrow>take (Suc m) ((k, v) # ?ys). ?w p)"
      using big by (simp only: word_less_nat_alt)
    then show ?thesis unfolding within_def by (metis not_le)
  qed
  have "lru_trim_to n (max_entries c) (max_bytes c) (weight_fn c) ((k, v) # ?ys) = []" for n
    by (induction n) (simp_all only: lru_trim_to.simps bad if_False)
  then show ?thesis using on by (simp add: mc_put_view [OF wf] lru_store_def lru_trim_def del: lru_trim_to.simps)
qed

theorem oversized_put_empties_cache_witness:
  "fst (mc_get ''a'' demo_cache) = Some ''xx'' \<and>
   lru_view (mc_put ''b'' ''yyyyyyyyyyyy'' demo_cache) = []"
proof
  show "fst (mc_get ''a'' demo_cache) = Some ''xx''"
    by (simp add: mc_get_refines demo_cache_wf demo_cache_view)
  show "lru_view (mc_put ''b'' ''yyyyyyyyyyyy'' demo_cache) = []"
    by (rule oversized_put_empties_cache [OF demo_cache_wf])
      (simp_all add: demo_cache_limits demo_cache_view)
qed

section \<open>The contract for clients\<close>

lemma map_of_filter_other: "j \<noteq> k \<Longrightarrow> map_of (filter (\<lambda>p. fst p \<noteq> k) xs) j = map_of xs j"
  by (induction xs) auto

lemma map_of_take: "map_of (take n xs) j = Some w \<Longrightarrow> map_of xs j = Some w"
  by (metis append_take_drop_id map_of_append map_add_find_right map_add_Some_iff)

lemma put_view_prefix:
  assumes "mc_wf c" and "max_entries c \<noteq> 0" and "max_bytes c \<noteq> 0"
  obtains n where "lru_view (mc_put k v c) = take n ((k, v) # filter (\<lambda>p. fst p \<noteq> k) (lru_view c))"
  using assms lru_trim_to_prefix [of _ "max_entries c" "max_bytes c" "weight_fn c"
      "(k, v) # filter (\<lambda>p. fst p \<noteq> k) (lru_view c)"]
  by (auto simp: mc_put_view lru_store_def lru_trim_def simp del: lru_trim_to.simps)

lemma put_view_some:
  assumes "mc_wf c" and "map_of (lru_view (mc_put k v c)) j = Some w"
  shows "mc_put k v c = c \<or> (if j = k then w = v else map_of (lru_view c) j = Some w)"
proof (cases "max_entries c = 0 \<or> max_bytes c = 0")
  case False
  then obtain n where "lru_view (mc_put k v c) = take n ((k, v) # filter (\<lambda>p. fst p \<noteq> k) (lru_view c))"
    using put_view_prefix [OF assms(1), of k v] by blast
  with assms(2) have "map_of ((k, v) # filter (\<lambda>p. fst p \<noteq> k) (lru_view c)) j = Some w"
    by (metis map_of_take)
  then show ?thesis by (auto simp: map_of_filter_other split: if_splits)
qed (simp add: mc_put_def)

interpretation mc: value_cache mc_wf "\<lambda>c. map_of (lru_view c)" "\<lambda>k c. snd (mc_get k c)" mc_put
proof unfold_locales
  show "mc_wf c \<Longrightarrow> mc_wf (snd (mc_get k c))" for c k by (rule mc_get_refines)
  show "mc_wf c \<Longrightarrow> mc_wf (mc_put k v c)" for c k v by (rule mc_put_wf)
  show "mc_wf c \<Longrightarrow> map_of (lru_view (snd (mc_get k c))) j = map_of (lru_view c) j" for c k j
    by (auto simp: mc_get_refines lru_touch_def map_of_filter_other split: option.splits)
  show "mc_wf c \<Longrightarrow> map_of (lru_view (mc_put k v c)) k = Some w \<Longrightarrow>
      w = v \<or> map_of (lru_view c) k = Some w \<and> mc_put k v c = c" for c k v w
    using put_view_some [of c k v k w] by auto
  show "mc_wf c \<Longrightarrow> j \<noteq> k \<Longrightarrow> map_of (lru_view (mc_put k v c)) j = Some w \<Longrightarrow>
      map_of (lru_view c) j = Some w" for c k v j w
    using put_view_some [of c k v j w] by auto
qed

end
