(* ===== verification/Message_Builder.thy ===== *)
theory Message_Builder
  imports Request_Parser
begin

text \<open>
  \<^verbatim>\<open>src/net/http/http_message_builder.h\<close> and \<^verbatim>\<open>.cpp\<close>: the texts the proxy sends, to clients (error
  and CONNECT responses) and upstream (the forwarded request). They are judged by a small reference
  parser of HTTP messages: start line, header lines up to the empty line, rest.
\<close>

section \<open>Model\<close>

definition sanitize_header_token :: "string \<Rightarrow> string \<Rightarrow> string" where
  "sanitize_header_token v fallback =
     (let out = filter (\<lambda>c. \<not> (c = CR \<or> c = LF)) v in if out = [] then fallback else out)"

definition sanitize_body :: "string \<Rightarrow> string" where
  "sanitize_body body = map (\<lambda>c. if c = CR then CHR '' '' else c) body"

definition build_origin_form :: "string \<Rightarrow> string" where
  "build_origin_form url =
     (if starts_with ''http://'' url then
        (case find_char CHR ''/'' url 7 of None \<Rightarrow> ''/'' | Some path_pos \<Rightarrow> drop path_pos url)
      else if starts_with ''https://'' url then
        (case find_char CHR ''/'' url 8 of None \<Rightarrow> ''/'' | Some path_pos \<Rightarrow> drop path_pos url)
      else if url = [] then ''/''
      else if url = ''*'' then url
      else if hd url \<noteq> CHR ''/'' then CHR ''/'' # url
      else url)"

definition is_hop_by_hop_header :: "string \<Rightarrow> bool" where
  "is_hop_by_hop_header key \<longleftrightarrow>
     key = ''connection'' \<or> key = ''proxy-connection'' \<or> key = ''keep-alive'' \<or> key = ''te'' \<or>
     key = ''trailer'' \<or> key = ''transfer-encoding'' \<or> key = ''upgrade''"

definition build_plain_text_response :: "int \<Rightarrow> string \<Rightarrow> string \<Rightarrow> bool \<Rightarrow> string" where
  "build_plain_text_response status_code reason_phrase body close_connection =
     (let reason = sanitize_header_token reason_phrase ''Unknown''; payload = sanitize_body body
      in ''HTTP/1.1 '' @ to_string_int status_code @ '' '' @ reason @ CRLF @
         ''Content-Type: text/plain; charset=utf-8'' @ CRLF @
         ''Content-Length: '' @ to_string (length payload) @ CRLF @
         ''Connection: '' @ (if close_connection then ''close'' else ''keep-alive'') @ CRLF @ CRLF @ payload)"

definition build_service_unavailable_response :: "string \<Rightarrow> string" where
  "build_service_unavailable_response detail =
     build_plain_text_response 503 ''Service Unavailable''
       (''proxy upstream unavailable'' @ (if detail \<noteq> [] then '': '' @ detail else [])) True"

definition build_forbidden_response :: "string \<Rightarrow> string" where
  "build_forbidden_response detail =
     build_plain_text_response 403 ''Forbidden''
       (''request forbidden'' @ (if detail \<noteq> [] then '': '' @ detail else [])) True"

definition build_connect_established_response :: "string \<Rightarrow> string" where
  "build_connect_established_response proxy_agent =
     ''HTTP/1.1 200 Connection Established'' @ CRLF @
     ''Proxy-Agent: '' @ sanitize_header_token proxy_agent ''hpserver'' @ CRLF @ CRLF"

text \<open>The loop over the headers: the text written, and whether a host and a content length were seen.\<close>

fun append_headers :: "header_map \<Rightarrow> string \<times> bool \<times> bool \<Rightarrow> string \<times> bool \<times> bool" where
  "append_headers [] s = s"
| "append_headers ((key, v) # hs) (out, has_host, has_length) =
     (if is_hop_by_hop_header key then append_headers hs (out, has_host, has_length)
      else append_headers hs (out @ key @ '': '' @ v @ CRLF, has_host \<or> key = ''host'', has_length \<or> key = ''content-length''))"

definition build_forward_proxy_request :: "request_info \<Rightarrow> string" where
  "build_forward_proxy_request req =
     (if ri_method req = [] \<or> ri_host req = [] \<or> ri_is_connect req then []
      else let target = build_origin_form (ri_url req);
               version = (if ri_version req = [] then ''1.1'' else ri_version req);
               out0 = ri_method req @ '' '' @ target @ '' HTTP/'' @ version @ CRLF;
               (out1, has_host_header, has_content_length_header) = append_headers (ri_headers req) (out0, False, False);
               out2 = (if has_host_header then out1
                       else out1 @ ''host: '' @ ri_host req @
                         (if ri_port req \<noteq> 0 \<and> ri_port req \<noteq> 80 then '':'' @ to_string (unat (ri_port req)) else []) @ CRLF);
               out3 = (if \<not> has_content_length_header \<and> ri_body req \<noteq> []
                       then out2 @ ''content-length: '' @ to_string (length (ri_body req)) @ CRLF else out2)
           in out3 @ ''connection: close'' @ CRLF @ CRLF @ ri_body req)"

section \<open>Reference parser\<close>

text \<open>A line ends at CR LF; a header line is split at its first colon, with blanks after it removed.\<close>

fun take_line :: "string \<Rightarrow> (string \<times> string) option" where
  "take_line [] = None"
| "take_line (c # s) =
     (if c = CR \<and> s \<noteq> [] \<and> hd s = LF then Some ([], tl s)
      else map_option (\<lambda>(l, r). (c # l, r)) (take_line s))"

lemma take_line_length: "take_line s = Some (l, r) \<Longrightarrow> length r < length s"
proof (induction s arbitrary: l)
  case (Cons c s)
  then show ?case by (cases s) (fastforce split: if_splits)+
qed simp

definition split_header :: "string \<Rightarrow> string \<times> string" where
  "split_header l =
     (takeWhile (\<lambda>c. c \<noteq> CHR '':'') l, dropWhile (\<lambda>c. c = CHR '' '') (drop 1 (dropWhile (\<lambda>c. c \<noteq> CHR '':'') l)))"

function read_headers :: "string \<Rightarrow> ((string \<times> string) list \<times> string) option" where
  "read_headers s =
     (case take_line s of
        None \<Rightarrow> None
      | Some (l, r) \<Rightarrow>
          if l = [] then Some ([], r)
          else map_option (\<lambda>(hs, b). (split_header l # hs, b)) (read_headers r))"
  by pat_completeness auto
termination
  by (relation "measure length") (auto dest: take_line_length)

declare read_headers.simps [simp del]

definition read_message :: "string \<Rightarrow> (string \<times> (string \<times> string) list \<times> string) option" where
  "read_message s =
     do { (l, r) \<leftarrow> take_line s; (hs, b) \<leftarrow> read_headers r; Some (l, hs, b) }"

section \<open>Lemmas\<close>

definition plain :: "string \<Rightarrow> bool" where
  "plain s \<longleftrightarrow> CR \<notin> set s \<and> LF \<notin> set s"

lemma plain_simps [simp]:
  "plain []" "plain (c # s) \<longleftrightarrow> c \<noteq> CR \<and> c \<noteq> LF \<and> plain s" "plain (s @ t) \<longleftrightarrow> plain s \<and> plain t"
  by (auto simp: plain_def)

lemma take_line_plain: "plain l \<Longrightarrow> take_line (l @ CRLF @ r) = Some (l, r)"
  by (induction l) (auto simp: CRLF_def CR_def LF_def)

lemma read_headers_end: "read_headers (CRLF @ b) = Some ([], b)"
  using take_line_plain [of "[]" b] by (subst read_headers.simps) simp

lemma split_header_line:
  assumes "CHR '':'' \<notin> set k" and "v = [] \<or> hd v \<noteq> CHR '' ''"
  shows "split_header (k @ '': '' @ v) = (k, v)"
proof -
  have "takeWhile (\<lambda>c. c \<noteq> CHR '':'') (k @ '': '' @ v) = k" using assms(1) by (subst takeWhile_append2) auto
  moreover have "dropWhile (\<lambda>c. c \<noteq> CHR '':'') (k @ '': '' @ v) = '': '' @ v" using assms(1) by (subst dropWhile_append2) auto
  moreover have "dropWhile (\<lambda>c. c = CHR '' '') v = v" using assms(2) by (cases v) auto
  ultimately show ?thesis by (simp add: split_header_def)
qed

text \<open>A header that survives being written and read.\<close>

definition clean_header :: "string \<times> string \<Rightarrow> bool" where
  "clean_header h \<longleftrightarrow> plain (fst h) \<and> plain (snd h) \<and> CHR '':'' \<notin> set (fst h) \<and> (snd h = [] \<or> hd (snd h) \<noteq> CHR '' '')"

definition header_lines :: "(string \<times> string) list \<Rightarrow> string" where
  "header_lines hs = concat (map (\<lambda>(k, v). k @ '': '' @ v @ CRLF) hs)"

lemma header_lines_simps [simp]:
  "header_lines [] = []" "header_lines ((k, v) # hs) = k @ '': '' @ v @ CRLF @ header_lines hs"
  "header_lines (xs @ ys) = header_lines xs @ header_lines ys"
  by (simp_all add: header_lines_def)

lemma read_headers_lines:
  "\<forall>h \<in> set hs. clean_header h \<Longrightarrow> read_headers (header_lines hs @ CRLF @ b) = Some (hs, b)"
proof (induction hs)
  case Nil
  then show ?case by (simp add: read_headers_end)
next
  case (Cons h hs)
  obtain k v where h: "h = (k, v)" by (cases h)
  with Cons.prems have k: "plain k" "plain v" "CHR '':'' \<notin> set k" "v = [] \<or> hd v \<noteq> CHR '' ''"
    by (simp_all add: clean_header_def)
  then have "plain (k @ '': '' @ v)" by (simp add: CR_def LF_def)
  from take_line_plain [OF this, of "header_lines hs @ CRLF @ b"]
  have "take_line (header_lines (h # hs) @ CRLF @ b) = Some (k @ '': '' @ v, header_lines hs @ CRLF @ b)"
    by (simp add: h)
  with Cons split_header_line [OF k(3,4)] h show ?case
    by (subst read_headers.simps) simp
qed

lemma read_message_lines:
  assumes "plain l" and "\<forall>h \<in> set hs. clean_header h"
  shows "read_message (l @ CRLF @ header_lines hs @ CRLF @ b) = Some (l, hs, b)"
  using take_line_plain [OF assms(1), of "header_lines hs @ CRLF @ b"] read_headers_lines [OF assms(2), of b]
  by (simp add: read_message_def)

lemma plain_digits: "\<forall>c \<in> set s. isdigit c \<Longrightarrow> plain s"
  by (auto simp: plain_def isdigit_def char_code_def CR_def LF_def)

lemma plain_to_string [simp]: "plain (to_string n)"
  by (auto intro: plain_digits to_string_digits)

lemma plain_to_string_int [simp]: "plain (to_string_int i)"
  by (simp add: to_string_int_def CR_def LF_def)

lemma hd_to_string: "hd (to_string n) \<noteq> CHR '' ''"
  using to_string_digits [of "hd (to_string n)" n] by (auto simp: isdigit_def char_code_def)

lemma plain_sanitize: "plain f \<Longrightarrow> plain (sanitize_header_token s f)"
  by (auto simp: sanitize_header_token_def plain_def Let_def)

lemma append_headers_spec:
  "append_headers hs (out, a, b) =
     (out @ header_lines (filter (\<lambda>h. \<not> is_hop_by_hop_header (fst h)) hs),
      a \<or> ''host'' \<in> fst ` set hs, b \<or> ''content-length'' \<in> fst ` set hs)"
  by (induction hs "(out, a, b)" arbitrary: out a b rule: append_headers.induct)
    (auto simp: is_hop_by_hop_header_def)

text \<open>The headers of the forwarded request.\<close>

definition forward_headers :: "request_info \<Rightarrow> (string \<times> string) list" where
  "forward_headers req =
     filter (\<lambda>h. \<not> is_hop_by_hop_header (fst h)) (ri_headers req) @
     (if ''host'' \<in> fst ` set (ri_headers req) then []
      else [(''host'', ri_host req @ (if ri_port req \<noteq> 0 \<and> ri_port req \<noteq> 80 then '':'' @ to_string (unat (ri_port req)) else []))]) @
     (if ''content-length'' \<notin> fst ` set (ri_headers req) \<and> ri_body req \<noteq> []
      then [(''content-length'', to_string (length (ri_body req)))] else []) @
     [(''connection'', ''close'')]"

lemma forward_request_lines:
  assumes "ri_method req \<noteq> []" and "ri_host req \<noteq> []" and "\<not> ri_is_connect req"
  shows "build_forward_proxy_request req =
     (ri_method req @ '' '' @ build_origin_form (ri_url req) @ '' HTTP/'' @
      (if ri_version req = [] then ''1.1'' else ri_version req)) @ CRLF @ header_lines (forward_headers req) @ CRLF @ ri_body req"
  using assms by (simp add: build_forward_proxy_request_def append_headers_spec forward_headers_def)

definition clean_request :: "request_info \<Rightarrow> bool" where
  "clean_request req \<longleftrightarrow> plain (ri_method req) \<and> plain (ri_url req) \<and> plain (ri_version req) \<and> plain (ri_host req) \<and>
     hd (ri_host req) \<noteq> CHR '' '' \<and> (\<forall>h \<in> set (ri_headers req). clean_header h)"

lemma plain_drop: "plain s \<Longrightarrow> plain (drop n s)"
  by (auto simp: plain_def dest: in_set_dropD)

lemma plain_origin_form: "plain url \<Longrightarrow> plain (build_origin_form url)"
  by (auto simp: build_origin_form_def plain_drop CR_def LF_def split: option.split)

lemma clean_forward_headers:
  assumes "clean_request req" and "ri_host req \<noteq> []"
  shows "\<forall>h \<in> set (forward_headers req). clean_header h"
  using assms
  by (auto simp: forward_headers_def clean_request_def clean_header_def CR_def LF_def hd_to_string)

section \<open>Properties\<close>

text \<open>C24. Error responses cannot be broken by their texts: for every status, reason phrase and body,
  line breaks included, the response reads back as one message with exactly the three headers written,
  a content length equal to the length of its body, and a reason phrase without line breaks.\<close>

theorem plain_text_response_wellformed:
  "read_message (build_plain_text_response status reason body cl) =
     Some (''HTTP/1.1 '' @ to_string_int status @ '' '' @ sanitize_header_token reason ''Unknown'',
       [(''Content-Type'', ''text/plain; charset=utf-8''), (''Content-Length'', to_string (length body)),
        (''Connection'', if cl then ''close'' else ''keep-alive'')], sanitize_body body)"
proof -
  let ?l = "''HTTP/1.1 '' @ to_string_int status @ '' '' @ sanitize_header_token reason ''Unknown''"
  let ?hs = "[(''Content-Type'', ''text/plain; charset=utf-8''), (''Content-Length'', to_string (length body)),
        (''Connection'', if cl then ''close'' else ''keep-alive'')]"
  have "plain ?l" using plain_sanitize [of "''Unknown''" reason] by (simp add: CR_def LF_def)
  moreover have "\<forall>h \<in> set ?hs. clean_header h"
    by (simp add: clean_header_def CR_def LF_def hd_to_string)
  moreover have "build_plain_text_response status reason body cl =
      ?l @ CRLF @ header_lines ?hs @ CRLF @ sanitize_body body"
    by (simp add: build_plain_text_response_def Let_def sanitize_body_def)
  ultimately show ?thesis by (simp only: read_message_lines)
qed

text \<open>C23. The forwarded request says what was asked: for a request whose parts have no line breaks (as the
  HTTP parser guarantees) it reads back as one message with the request line in origin form, the
  client's headers without the hop-by-hop ones, a host header, a content length equal to the body that
  follows unless the client gave one, and \<open>connection: close\<close> as the only connection header.\<close>

theorem forwarded_request_roundtrip:
  assumes "ri_method req \<noteq> []" and "ri_host req \<noteq> []" and "\<not> ri_is_connect req" and "clean_request req"
  shows "read_message (build_forward_proxy_request req) =
      Some (ri_method req @ '' '' @ build_origin_form (ri_url req) @ '' HTTP/'' @
             (if ri_version req = [] then ''1.1'' else ri_version req), forward_headers req, ri_body req) \<and>
    (\<forall>(k, v) \<in> set (forward_headers req). is_hop_by_hop_header k \<longrightarrow> (k, v) = (''connection'', ''close'')) \<and>
    ''host'' \<in> fst ` set (forward_headers req)"
proof -
  let ?l = "ri_method req @ '' '' @ build_origin_form (ri_url req) @ '' HTTP/'' @ (if ri_version req = [] then ''1.1'' else ri_version req)"
  have "plain ?l" using assms(4) plain_origin_form by (auto simp: clean_request_def CR_def LF_def)
  from read_message_lines [OF this clean_forward_headers [OF assms(4,2)]]
  have "read_message (build_forward_proxy_request req) = Some (?l, forward_headers req, ri_body req)"
    by (simp add: forward_request_lines [OF assms(1-3)])
  moreover have "\<forall>(k, v) \<in> set (forward_headers req). is_hop_by_hop_header k \<longrightarrow> (k, v) = (''connection'', ''close'')"
    by (auto simp: forward_headers_def is_hop_by_hop_header_def)
  moreover have "''host'' \<in> fst ` set (forward_headers req)"
    by (auto simp: forward_headers_def is_hop_by_hop_header_def image_iff)
  ultimately show ?thesis by blast
qed

definition demo_request :: request_info where
  "demo_request = request_info_empty\<lparr>ri_method := ''POST'', ri_url := ''http://h:81/p'', ri_host := ''h'', ri_port := 81,
     ri_headers := [(''connection'', ''keep-alive''), (''accept'', ''*'')], ri_body := ''abc''\<rparr>"

theorem forwarded_request_roundtrip_witness:
  "read_message (build_forward_proxy_request demo_request) =
     Some (''POST /p HTTP/1.1'',
       [(''accept'', ''*''), (''host'', ''h:81''), (''content-length'', ''3''), (''connection'', ''close'')], ''abc'')"
  using forwarded_request_roundtrip [of demo_request]
  by (simp add: demo_request_def request_info_empty_def clean_request_def clean_header_def CR_def LF_def
      forward_headers_def is_hop_by_hop_header_def build_origin_form_def starts_with_def find_char_def to_string_eval)

text \<open>The request target: the origin form is \<open>*\<close> or begins with a slash; for an absolute URL it is
  everything from the first slash after the scheme, so a URL without a path but with a slash in its
  query loses the query up to that slash.\<close>

theorem origin_form_shape:
  "(build_origin_form url = ''*'' \<or> hd (build_origin_form url) = CHR ''/'') \<and>
   (CHR ''/'' \<notin> set h \<longrightarrow> build_origin_form (''http://'' @ h) = ''/'' \<and>
      build_origin_form (''http://'' @ h @ ''/'' @ p) = ''/'' @ p) \<and>
   build_origin_form ''http://host?x=/a'' = ''/a''"
proof (intro conjI impI)
  have "url ! i = CHR ''/'' \<and> i < length url" if "find_char CHR ''/'' url n = Some i" for i n
    using find_index_from_Some [OF that [unfolded find_char_def]] by (auto simp: not_less)
  then have "hd (drop i url) = CHR ''/''" if "find_char CHR ''/'' url n = Some i" for i n
    using that hd_drop_conv_nth by metis
  then show "build_origin_form url = ''*'' \<or> hd (build_origin_form url) = CHR ''/''"
    by (auto simp: build_origin_form_def split: option.split)
next
  assume h: "CHR ''/'' \<notin> set h"
  then have "find_char CHR ''/'' (''http://'' @ h) 7 = None" by (simp add: find_char_None)
  then show "build_origin_form (''http://'' @ h) = ''/''" by (simp add: build_origin_form_def starts_with_def)
  have "find_index_from (\<lambda>d. d = CHR ''/'') (h @ CHR ''/'' # p) 7 = Some (7 + length h)"
    using h by (intro find_index_from_append) auto
  then show "build_origin_form (''http://'' @ h @ ''/'' @ p) = ''/'' @ p"
    by (simp add: build_origin_form_def starts_with_def find_char_def numeral_eq_Suc)
next
  show "build_origin_form ''http://host?x=/a'' = ''/a''"
    by (simp add: build_origin_form_def starts_with_def find_char_def)
qed

theorem origin_form_shape_witness:
  "build_origin_form (''http://'' @ ''h'' @ ''/'' @ ''p'') = ''/p''"
  using origin_form_shape [of "[]" "''h''" "''p''"] by simp

end
