(* ===== verification/Response_Parser.thy ===== *)
theory Response_Parser
  imports Header_Assembly
begin

text \<open>
  \<^verbatim>\<open>src/net/http/http_response_parser.h\<close> and \<^verbatim>\<open>.cpp\<close>: the parser of upstream responses, with the
  explicit end of stream that responses without a length need. The automaton is the argument
  \<open>execute\<close>.
\<close>

section \<open>Model\<close>

datatype response_state = kReadingResponse | kResponseComplete | kResponseUpgraded | kResponseError

record response_info =
  rs_status_code :: int
  rs_reason_phrase :: string
  rs_version :: string
  rs_content_length :: u64
  rs_chunked :: bool
  rs_keep_alive :: bool
  rs_headers :: header_map
  rs_body :: string

definition response_info_empty :: response_info where
  "response_info_empty =
     \<lparr>rs_status_code = 0, rs_reason_phrase = [], rs_version = [], rs_content_length = 0, rs_chunked = False,
      rs_keep_alive = False, rs_headers = [], rs_body = []\<rparr>"

record http_response_parser =
  rsp_parser :: llhttp
  rsp_state :: response_state
  rsp_error :: string
  rsp_response :: response_info
  rsp_field :: string
  rsp_value :: string
  rsp_last_was_value :: bool

definition http_response_parser_new :: "nat \<Rightarrow> http_response_parser" where
  "http_response_parser_new start =
     \<lparr>rsp_parser = llhttp_init start HTTP_RESPONSE, rsp_state = kReadingResponse, rsp_error = [],
      rsp_response = response_info_empty, rsp_field = [], rsp_value = [], rsp_last_was_value = False\<rparr>"

definition clear_response_runtime :: "http_response_parser \<Rightarrow> http_response_parser" where
  "clear_response_runtime p =
     p\<lparr>rsp_response := response_info_empty, rsp_field := [], rsp_value := [], rsp_last_was_value := False\<rparr>"

definition response_complete :: "http_response_parser \<Rightarrow> bool" where
  "response_complete p \<longleftrightarrow> rsp_state p = kResponseComplete \<or> rsp_state p = kResponseUpgraded"

definition response_error :: "http_response_parser \<Rightarrow> bool" where
  "response_error p \<longleftrightarrow> rsp_state p = kResponseError"

definition resp_finish_pending_header :: "http_response_parser \<Rightarrow> http_response_parser" where
  "resp_finish_pending_header p =
     (if rsp_field p = [] then p
      else p\<lparr>rsp_response := (rsp_response p)\<lparr>rs_headers :=
              AList.update (to_lower_ascii (rsp_field p)) (rsp_value p) (rs_headers (rsp_response p))\<rparr>\<rparr>)"

definition resp_post_process_headers :: "response_info \<Rightarrow> response_info" where
  "resp_post_process_headers r =
     (case map_of (rs_headers r) ''transfer-encoding'' of
        None \<Rightarrow> r
      | Some te \<Rightarrow> r\<lparr>rs_chunked := (find_str ''chunked'' (to_lower_ascii te) 0 \<noteq> None)\<rparr>)"

definition resp_on_message_begin :: "http_response_parser \<Rightarrow> http_response_parser" where
  "resp_on_message_begin p = (clear_response_runtime p)\<lparr>rsp_state := kReadingResponse\<rparr>"

definition resp_on_status :: "string \<Rightarrow> http_response_parser \<Rightarrow> http_response_parser" where
  "resp_on_status s p = p\<lparr>rsp_response := (rsp_response p)\<lparr>rs_reason_phrase := rs_reason_phrase (rsp_response p) @ s\<rparr>\<rparr>"

definition resp_on_version :: "string \<Rightarrow> http_response_parser \<Rightarrow> http_response_parser" where
  "resp_on_version s p = p\<lparr>rsp_response := (rsp_response p)\<lparr>rs_version := rs_version (rsp_response p) @ s\<rparr>\<rparr>"

definition resp_on_header_field :: "string \<Rightarrow> http_response_parser \<Rightarrow> http_response_parser" where
  "resp_on_header_field s p =
     (let p1 = (if rsp_last_was_value p
                then (resp_finish_pending_header p)\<lparr>rsp_field := [], rsp_value := [], rsp_last_was_value := False\<rparr>
                else p)
      in p1\<lparr>rsp_field := rsp_field p1 @ s\<rparr>)"

definition resp_on_header_value :: "string \<Rightarrow> http_response_parser \<Rightarrow> http_response_parser" where
  "resp_on_header_value s p = p\<lparr>rsp_value := rsp_value p @ s, rsp_last_was_value := True\<rparr>"

definition resp_on_headers_complete :: "llhttp \<Rightarrow> http_response_parser \<Rightarrow> http_response_parser" where
  "resp_on_headers_complete ll p =
     (let p1 = resp_finish_pending_header p
      in p1\<lparr>rsp_response := resp_post_process_headers ((rsp_response p1)
              \<lparr>rs_status_code := uint (ll_status_code ll), rs_keep_alive := llhttp_should_keep_alive ll,
               rs_content_length := ll_content_length ll\<rparr>)\<rparr>)"

definition resp_on_body :: "string \<Rightarrow> http_response_parser \<Rightarrow> http_response_parser" where
  "resp_on_body s p = p\<lparr>rsp_response := (rsp_response p)\<lparr>rs_body := rs_body (rsp_response p) @ s\<rparr>\<rparr>"

definition resp_on_message_complete :: "http_response_parser \<Rightarrow> http_response_parser" where
  "resp_on_message_complete p = p\<lparr>rsp_state := kResponseComplete\<rparr>"

fun resp_event :: "llhttp_event \<Rightarrow> http_response_parser \<Rightarrow> http_response_parser" where
  "resp_event Message_begin p = resp_on_message_begin p"
| "resp_event (Url s) p = p"
| "resp_event (Status s) p = resp_on_status s p"
| "resp_event (Version s) p = resp_on_version s p"
| "resp_event (Header_field s) p = resp_on_header_field s p"
| "resp_event (Header_value s) p = resp_on_header_value s p"
| "resp_event (Headers_complete ll) p = resp_on_headers_complete ll p"
| "resp_event (Body s) p = resp_on_body s p"
| "resp_event Message_complete p = resp_on_message_complete p"

definition resp_events :: "llhttp_event list \<Rightarrow> http_response_parser \<Rightarrow> http_response_parser" where
  "resp_events es p = fold resp_event es p"

text \<open>\<open>None\<close> is the abort in \<^verbatim>\<open>llhttp_errno_name\<close>.\<close>

definition resp_parse :: "llhttp_execute \<Rightarrow> string \<Rightarrow> http_response_parser \<Rightarrow> (bool \<times> http_response_parser) option" where
  "resp_parse execute data p =
     (if response_error p \<or> response_complete p \<or> data = [] then Some (\<not> response_error p, p)
      else case execute (rsp_parser p) data of (events, err, ll) \<Rightarrow>
        let p2 = (resp_events events p)\<lparr>rsp_parser := ll\<rparr>
        in if err = HPE_OK then Some (True, p2)
           else if err = HPE_PAUSED_UPGRADE
           then Some (True, p2\<lparr>rsp_state := kResponseUpgraded, rsp_parser := llhttp_resume_after_upgrade ll\<rparr>)
           else do {
             name \<leftarrow> llhttp_errno_name err;
             Some (False, p2\<lparr>rsp_state := kResponseError,
               rsp_error := name @ (if ll_reason ll \<noteq> [] then '': '' @ ll_reason ll else [])\<rparr>)
           })"

text \<open>\<^verbatim>\<open>finish\<close> at the end of the stream; \<open>None\<close> is an abort inside the library.\<close>

definition resp_finish :: "http_response_parser \<Rightarrow> (bool \<times> http_response_parser) option" where
  "resp_finish p =
     (if response_error p \<or> response_complete p then Some (\<not> response_error p, p)
      else do {
        (cb, err, ll) \<leftarrow> llhttp_finish (rsp_parser p);
        let p1 = (if cb then resp_on_message_complete p else p)\<lparr>rsp_parser := ll\<rparr>;
        (if err = HPE_OK \<or> err = HPE_PAUSED
         then Some (True, if rsp_state p1 \<noteq> kResponseUpgraded then p1\<lparr>rsp_state := kResponseComplete\<rparr> else p1)
         else do {
           name \<leftarrow> llhttp_errno_name err;
           Some (False, p1\<lparr>rsp_state := kResponseError, rsp_error := name\<rparr>)
         })
      })"

definition resp_reset_for_next_message :: "nat \<Rightarrow> http_response_parser \<Rightarrow> http_response_parser" where
  "resp_reset_for_next_message start p =
     (clear_response_runtime p)\<lparr>rsp_state := kReadingResponse, rsp_error := [],
        rsp_parser := llhttp_reset start (rsp_parser p)\<rparr>"

section \<open>From events to the response\<close>

interpretation rsp: header_callbacks
  "\<lambda>p. (rsp_field p, rsp_value p, rsp_last_was_value p, rs_headers (rsp_response p))"
  "\<lambda>p. (rsp_parser p, rsp_state p, rsp_error p, (rsp_response p)\<lparr>rs_headers := []\<rparr>)"
  resp_on_header_field resp_on_header_value resp_finish_pending_header
  by unfold_locales
    (auto simp: resp_on_header_field_def resp_on_header_value_def resp_finish_pending_header_def put_header_def Let_def)

lemma resp_events_simps [simp]:
  "resp_events [] p = p" "resp_events (e # es) p = resp_events es (resp_event e p)"
  "resp_events (xs @ ys) p = resp_events ys (resp_events xs p)"
  by (simp_all add: resp_events_def)

lemma resp_events_status:
  "resp_events (map Status us) p =
     p\<lparr>rsp_response := (rsp_response p)\<lparr>rs_reason_phrase := rs_reason_phrase (rsp_response p) @ concat us\<rparr>\<rparr>"
  by (induction us arbitrary: p) (simp_all add: resp_on_status_def)

lemma resp_events_version:
  "resp_events (map Version vs) p =
     p\<lparr>rsp_response := (rsp_response p)\<lparr>rs_version := rs_version (rsp_response p) @ concat vs\<rparr>\<rparr>"
  by (induction vs arbitrary: p) (simp_all add: resp_on_version_def)

lemma resp_events_body:
  "resp_events (map Body bs) p =
     p\<lparr>rsp_response := (rsp_response p)\<lparr>rs_body := rs_body (rsp_response p) @ concat bs\<rparr>\<rparr>"
  by (induction bs arbitrary: p) (simp_all add: resp_on_body_def)

lemma resp_events_headers: "resp_events (header_events hs) p = fold rsp.hc_header hs p"
proof -
  have "resp_events (map Header_field fs) q = fold resp_on_header_field fs q" for fs q
    by (induction fs arbitrary: q) simp_all
  moreover have "resp_events (map Header_value vs) q = fold resp_on_header_value vs q" for vs q
    by (induction vs arbitrary: q) simp_all
  ultimately show ?thesis
    by (induction hs arbitrary: p) (auto simp: header_events_def rsp.hc_header_def)
qed

text \<open>Version, status and headers of one response, in any pieces, and then its body.\<close>

definition response_events ::
  "string list \<Rightarrow> string list \<Rightarrow> (string list \<times> string list) list \<Rightarrow> llhttp \<Rightarrow> string list \<Rightarrow> llhttp_event list" where
  "response_events vs us hs ll bs =
     Message_begin # map Version vs @ map Status us @ header_events hs @ [Headers_complete ll] @ map Body bs"

definition described_response :: "string \<Rightarrow> string \<Rightarrow> header_map \<Rightarrow> llhttp \<Rightarrow> string \<Rightarrow> response_info" where
  "described_response version reason headers ll body =
     \<lparr>rs_status_code = uint (ll_status_code ll), rs_reason_phrase = reason, rs_version = version,
      rs_content_length = ll_content_length ll,
      rs_chunked = (case map_of headers ''transfer-encoding'' of None \<Rightarrow> False
                    | Some te \<Rightarrow> find_str ''chunked'' (to_lower_ascii te) 0 \<noteq> None),
      rs_keep_alive = llhttp_should_keep_alive ll, rs_headers = headers, rs_body = body\<rparr>"

lemma resp_header_block:
  assumes "\<forall>(fs, vs) \<in> set hs. fs \<noteq> [] \<and> vs \<noteq> []"
    and "rsp_field p = []" "rsp_value p = []" "\<not> rsp_last_was_value p" "rs_headers (rsp_response p) = []"
  shows "rsp_response (resp_finish_pending_header (fold rsp.hc_header hs p)) = (rsp_response p)\<lparr>rs_headers := assemble hs\<rparr>"
    and "rsp_state (resp_finish_pending_header (fold rsp.hc_header hs p)) = rsp_state p"
proof -
  let ?q = "resp_finish_pending_header (fold rsp.hc_header hs p)"
  have pend: "rsp.hc_pending p" "rsp.hc_headers p = []"
    using assms(2-5) by (simp_all add: rsp.hc_pending_def rsp.hc_headers_def put_header_def)
  have h: "rs_headers (rsp_response ?q) = assemble hs"
    using rsp.headers_run [OF pend(1) assms(1)] rsp.headers_finish [of "fold rsp.hc_header hs p"] pend(2)
    by (simp add: assemble_def)
  have r: "(rsp_parser ?q, rsp_state ?q, rsp_error ?q, (rsp_response ?q)\<lparr>rs_headers := []\<rparr>) =
      (rsp_parser p, rsp_state p, rsp_error p, (rsp_response p)\<lparr>rs_headers := []\<rparr>)"
    using rsp.rest_finish rsp.rest_run by metis
  then show "rsp_state ?q = rsp_state p" by simp
  from r have e: "(rsp_response ?q)\<lparr>rs_headers := []\<rparr> = (rsp_response p)\<lparr>rs_headers := []\<rparr>" by simp
  have "rsp_response ?q = ((rsp_response ?q)\<lparr>rs_headers := []\<rparr>)\<lparr>rs_headers := rs_headers (rsp_response ?q)\<rparr>" by simp
  also have "\<dots> = (rsp_response p)\<lparr>rs_headers := assemble hs\<rparr>" unfolding e h by simp
  finally show "rsp_response ?q = (rsp_response p)\<lparr>rs_headers := assemble hs\<rparr>" .
qed

lemma response_events_result:
  assumes "\<forall>(fs, vs) \<in> set hs. fs \<noteq> [] \<and> vs \<noteq> []"
  shows "rsp_response (resp_events (response_events vs us hs ll bs) p) =
      described_response (concat vs) (concat us) (assemble hs) ll (concat bs) \<and>
    rsp_state (resp_events (response_events vs us hs ll bs) p) = kReadingResponse"
proof -
  let ?p0 = "resp_on_message_begin p"
  let ?p1 = "?p0\<lparr>rsp_response := (rsp_response ?p0)\<lparr>rs_version := concat vs, rs_reason_phrase := concat us\<rparr>\<rparr>"
  note b = resp_on_message_begin_def clear_response_runtime_def response_info_empty_def
  have "resp_events (map Status us) (resp_events (map Version vs) ?p0) = ?p1"
    by (simp add: resp_events_status resp_events_version b)
  moreover have "rsp_response (resp_finish_pending_header (fold rsp.hc_header hs ?p1)) = (rsp_response ?p1)\<lparr>rs_headers := assemble hs\<rparr>"
    "rsp_state (resp_finish_pending_header (fold rsp.hc_header hs ?p1)) = rsp_state ?p1"
    by (rule resp_header_block [OF assms]; simp add: b)+
  ultimately show ?thesis
    by (simp add: response_events_def resp_events_headers resp_events_body resp_on_headers_complete_def Let_def
        resp_post_process_headers_def described_response_def b split: option.split)
qed

section \<open>Properties\<close>

text \<open>C22. The response does not depend on how \<open>llhttp\<close> cuts its pieces, and it is complete exactly
  when the library reports the end of the message or the stream ends in a state from which the message
  can end: then \<open>finish\<close> succeeds and the body is everything received.\<close>

theorem response_from_events:
  assumes "\<forall>(fs, vs) \<in> set hs. fs \<noteq> [] \<and> vs \<noteq> []"
    and "q = (resp_events (response_events vs us hs ll bs) p)\<lparr>rsp_parser := ll'\<rparr>" and "ll_error ll' = 0"
    and "ll_finish ll' \<in> {HTTP_FINISH_SAFE, HTTP_FINISH_SAFE_WITH_CB}"
  shows "rsp_response q = described_response (concat vs) (concat us) (assemble hs) ll (concat bs) \<and>
    \<not> response_complete q \<and>
    (\<exists>r. resp_finish q = Some (True, r) \<and> response_complete r \<and> rsp_response r = rsp_response q) \<and>
    (\<exists>r. resp_events [Message_complete] q = r \<and> response_complete r \<and> rsp_response r = rsp_response q)"
  using response_events_result [OF assms(1), of vs us ll bs p] assms(2-)
  by (auto simp: response_complete_def response_error_def resp_finish_def llhttp_finish_def resp_on_message_complete_def
      HTTP_FINISH_SAFE_def HTTP_FINISH_SAFE_WITH_CB_def HPE_OK_def Let_def)

theorem response_from_events_witness:
  "\<exists>r. resp_finish (resp_events (response_events [''1.1''] [''OK''] [] ((llhttp_init 0 HTTP_RESPONSE)\<lparr>ll_status_code := 200\<rparr>) [''hi''])
         (http_response_parser_new 0)) = Some (True, r) \<and> rs_body (rsp_response r) = ''hi''"
proof -
  define ll where "ll = (llhttp_init 0 HTTP_RESPONSE)\<lparr>ll_status_code := 200\<rparr>"
  define q where "q = resp_events (response_events [''1.1''] [''OK''] [] ll [''hi'']) (http_response_parser_new 0)"
  have p: "rsp_parser q = llhttp_init 0 HTTP_RESPONSE"
    by (simp add: q_def response_events_def header_events_def resp_on_message_begin_def clear_response_runtime_def
        resp_on_version_def resp_on_status_def resp_on_headers_complete_def resp_finish_pending_header_def
        resp_on_body_def Let_def http_response_parser_new_def)
  then have "q = (resp_events (response_events [''1.1''] [''OK''] [] ll [''hi'']) (http_response_parser_new 0))
      \<lparr>rsp_parser := llhttp_init 0 HTTP_RESPONSE\<rparr>" by (simp add: q_def)
  from response_from_events [OF _ this] have "\<exists>r. resp_finish q = Some (True, r) \<and> rsp_response r = rsp_response q"
    "rs_body (rsp_response q) = ''hi''"
    by (auto simp: llhttp_init_def llhttp_internal_init_def HTTP_FINISH_SAFE_def described_response_def)
  then show ?thesis unfolding q_def ll_def by auto
qed

text \<open>An upstream that closes without sending a byte is taken for a complete response: \<open>finish\<close> on
  a fresh parser succeeds and gives the empty response with status 0.\<close>

theorem finish_without_data_succeeds:
  "\<exists>r. resp_finish (http_response_parser_new start) = Some (True, r) \<and> response_complete r \<and>
     rsp_response r = response_info_empty"
  by (simp add: resp_finish_def http_response_parser_new_def response_error_def response_complete_def llhttp_finish_def
      llhttp_init_def llhttp_internal_init_def HTTP_FINISH_SAFE_def HTTP_FINISH_SAFE_WITH_CB_def HPE_OK_def Let_def)

end
