(* ===== verification/Cache_Entry.thy ===== *)
theory Cache_Entry
  imports Prelude "HOL-Library.Monad_Syntax"
begin

text \<open>
  \<^verbatim>\<open>src/net/http/http_cache.pb.cc\<close>, the messages of \<^verbatim>\<open>proto/http_cache.proto\<close> as protoc compiled them: an entry of the
  persistent cache, its encoding, the size computed before encoding, its decoding, and clearing, merging and
  copying. The functions of the protobuf runtime the generated code calls are an argument; what is relied on of them
  is the documented wire format, \<open>runtime_law\<close>, and that reading makes progress, \<open>reads_law\<close>. Unknown fields are
  skipped: the program never encodes an entry it has decoded.
\<close>

section \<open>Messages\<close>

text \<open>A \<^verbatim>\<open>HeaderEntry\<close> is the pair of its key and its value.\<close>

type_synonym header_entry = "string \<times> string"

record cache_entry =
  ce_status_code :: u32
  ce_reason_phrase :: string
  ce_last_modified :: string
  ce_etag :: string
  ce_stored_at :: int
  ce_ttl :: int
  ce_headers :: "header_entry list"
  ce_body :: string
  ce_vary_headers :: "string list"

definition cache_entry_empty :: cache_entry where
  "cache_entry_empty =
     \<lparr>ce_status_code = 0, ce_reason_phrase = [], ce_last_modified = [], ce_etag = [], ce_stored_at = 0,
      ce_ttl = 0, ce_headers = [], ce_body = [], ce_vary_headers = []\<rparr>"

text \<open>\<^verbatim>\<open>int64_t\<close> arithmetic wraps on the target.\<close>

definition int64 :: "int \<Rightarrow> int" where
  "int64 x = sint (word_of_int x :: u64)"

text \<open>What the generated code calls of the protobuf runtime. A reader gives the value and the bytes that are left, or
  \<open>None\<close> for the null pointer; \<open>rt_read_delimited\<close> reads a length and as many bytes, \<open>rt_unknown_field\<close> skips the value
  of a field with an unexpected tag, and \<open>rt_to_string\<close> is \<^verbatim>\<open>SerializeToString\<close> given the computed size and the encoding.\<close>

record pb_runtime =
  rt_varint :: "u64 \<Rightarrow> string"
  rt_varint_size :: "u64 \<Rightarrow> nat"
  rt_read_tag :: "string \<Rightarrow> (u32 \<times> string) option"
  rt_read_varint32 :: "string \<Rightarrow> (u32 \<times> string) option"
  rt_read_varint64 :: "string \<Rightarrow> (u64 \<times> string) option"
  rt_read_delimited :: "string \<Rightarrow> (string \<times> string) option"
  rt_verify_utf8 :: "string \<Rightarrow> bool"
  rt_unknown_field :: "u32 \<Rightarrow> string \<Rightarrow> string option"
  rt_to_string :: "nat \<Rightarrow> string \<Rightarrow> string option"

section \<open>Encoding\<close>

text \<open>The writers of the runtime, in the documented wire format: a tag holds the field number and the wire type, 0 for
  a varint and 2 for a length and as many bytes. A nested message is written with the size cached by
  \<^verbatim>\<open>ByteSizeLong\<close>.\<close>

definition write_tag :: "pb_runtime \<Rightarrow> nat \<Rightarrow> nat \<Rightarrow> string" where
  "write_tag rt field wire_type = rt_varint rt (of_nat (8 * field + wire_type))"

definition write_varint :: "pb_runtime \<Rightarrow> nat \<Rightarrow> u64 \<Rightarrow> string" where
  "write_varint rt field v = write_tag rt field 0 @ rt_varint rt v"

definition write_message :: "pb_runtime \<Rightarrow> nat \<Rightarrow> nat \<Rightarrow> string \<Rightarrow> string" where
  "write_message rt field cached_size bytes = write_tag rt field 2 @ rt_varint rt (of_nat cached_size) @ bytes"

definition write_string :: "pb_runtime \<Rightarrow> nat \<Rightarrow> string \<Rightarrow> string" where
  "write_string rt field s = write_message rt field (length s) s"

definition delimited_size :: "pb_runtime \<Rightarrow> nat \<Rightarrow> nat" where
  "delimited_size rt n = rt_varint_size rt (of_nat n) + n"

definition header_byte_size :: "pb_runtime \<Rightarrow> header_entry \<Rightarrow> nat" where
  "header_byte_size rt h =
     (if fst h \<noteq> [] then 1 + delimited_size rt (length (fst h)) else 0) +
     (if snd h \<noteq> [] then 1 + delimited_size rt (length (snd h)) else 0)"

definition header_serialize :: "pb_runtime \<Rightarrow> header_entry \<Rightarrow> string" where
  "header_serialize rt h =
     (if fst h \<noteq> [] then write_string rt 1 (fst h) else []) @ (if snd h \<noteq> [] then write_string rt 2 (snd h) else [])"

definition entry_byte_size :: "pb_runtime \<Rightarrow> cache_entry \<Rightarrow> nat" where
  "entry_byte_size rt e =
     length (ce_headers e) + sum_list (map (\<lambda>h. delimited_size rt (header_byte_size rt h)) (ce_headers e)) +
     length (ce_vary_headers e) + sum_list (map (\<lambda>s. delimited_size rt (length s)) (ce_vary_headers e)) +
     (if ce_reason_phrase e \<noteq> [] then 1 + delimited_size rt (length (ce_reason_phrase e)) else 0) +
     (if ce_last_modified e \<noteq> [] then 1 + delimited_size rt (length (ce_last_modified e)) else 0) +
     (if ce_etag e \<noteq> [] then 1 + delimited_size rt (length (ce_etag e)) else 0) +
     (if ce_body e \<noteq> [] then 1 + delimited_size rt (length (ce_body e)) else 0) +
     (if ce_stored_at e \<noteq> 0 then rt_varint_size rt (word_of_int (ce_stored_at e)) + 1 else 0) +
     (if ce_ttl e \<noteq> 0 then rt_varint_size rt (word_of_int (ce_ttl e)) + 1 else 0) +
     (if ce_status_code e \<noteq> 0 then rt_varint_size rt (ucast (ce_status_code e)) + 1 else 0)"

definition entry_serialize :: "pb_runtime \<Rightarrow> cache_entry \<Rightarrow> string" where
  "entry_serialize rt e =
     (if ce_status_code e \<noteq> 0 then write_varint rt 1 (ucast (ce_status_code e)) else []) @
     (if ce_reason_phrase e \<noteq> [] then write_string rt 2 (ce_reason_phrase e) else []) @
     (if ce_last_modified e \<noteq> [] then write_string rt 3 (ce_last_modified e) else []) @
     (if ce_etag e \<noteq> [] then write_string rt 4 (ce_etag e) else []) @
     (if ce_stored_at e \<noteq> 0 then write_varint rt 5 (word_of_int (ce_stored_at e)) else []) @
     (if ce_ttl e \<noteq> 0 then write_varint rt 6 (word_of_int (ce_ttl e)) else []) @
     concat (map (\<lambda>h. write_message rt 7 (header_byte_size rt h) (header_serialize rt h)) (ce_headers e)) @
     (if ce_body e \<noteq> [] then write_string rt 8 (ce_body e) else []) @
     concat (map (write_string rt 9) (ce_vary_headers e))"

definition serialize_to_string :: "pb_runtime \<Rightarrow> cache_entry \<Rightarrow> string option" where
  "serialize_to_string rt e = rt_to_string rt (entry_byte_size rt e) (entry_serialize rt e)"

section \<open>Decoding\<close>

text \<open>A parse is \<open>Some None\<close> when it fails; otherwise it gives the message and whether it stopped at a zero or
  end-group tag (\<^verbatim>\<open>SetLastTag\<close>) instead of the end of the bytes. The loops are partial functions: \<open>None\<close> would be a
  loop that never ends.\<close>

partial_function (option) header_parse ::
  "pb_runtime \<Rightarrow> string \<Rightarrow> header_entry \<Rightarrow> (header_entry \<times> bool) option option" where
  "header_parse rt s h =
     (if s = [] then Some (Some (h, False))
      else case rt_read_tag rt s of
        None \<Rightarrow> Some None
      | Some (tag, rest) \<Rightarrow>
          if drop_bit 3 tag = 1 \<and> (ucast tag :: u8) = 10 then
            (case rt_read_delimited rt rest of
               None \<Rightarrow> Some None
             | Some (str, rest') \<Rightarrow>
                 if rt_verify_utf8 rt str then header_parse rt rest' (str, snd h) else Some None)
          else if drop_bit 3 tag = 2 \<and> (ucast tag :: u8) = 18 then
            (case rt_read_delimited rt rest of
               None \<Rightarrow> Some None
             | Some (str, rest') \<Rightarrow>
                 if rt_verify_utf8 rt str then header_parse rt rest' (fst h, str) else Some None)
          else if tag = 0 \<or> tag AND 7 = 4 then Some (Some (h, True))
          else (case rt_unknown_field rt tag rest of
                  None \<Rightarrow> Some None
                | Some rest' \<Rightarrow> header_parse rt rest' h))"

text \<open>The inner loops over the elements of a repeated field: another element follows at once when the next byte is the
  tag of the field. \<^verbatim>\<open>ParseMessage\<close> of a header reads its bytes and fails unless the header ends with them.\<close>

definition expect_tag :: "nat \<Rightarrow> string \<Rightarrow> bool" where
  "expect_tag tag s \<longleftrightarrow> s \<noteq> [] \<and> hd s = char_of tag"

partial_function (option) headers_parse :: "pb_runtime \<Rightarrow> string \<Rightarrow> cache_entry \<Rightarrow> (string \<times> cache_entry) option option" where
  "headers_parse rt s e =
     (case rt_read_delimited rt s of
        None \<Rightarrow> Some None
      | Some (bytes, rest) \<Rightarrow>
          do {
            r \<leftarrow> header_parse rt bytes ([], []);
            (case r of
               None \<Rightarrow> Some None
             | Some (h, stopped) \<Rightarrow>
                 if stopped then Some None
                 else if expect_tag 58 rest then headers_parse rt (tl rest) (e\<lparr>ce_headers := ce_headers e @ [h]\<rparr>)
                 else Some (Some (rest, e\<lparr>ce_headers := ce_headers e @ [h]\<rparr>)))
          })"

partial_function (option) vary_parse :: "pb_runtime \<Rightarrow> string \<Rightarrow> cache_entry \<Rightarrow> (string \<times> cache_entry) option option" where
  "vary_parse rt s e =
     (case rt_read_delimited rt s of
        None \<Rightarrow> Some None
      | Some (str, rest) \<Rightarrow>
          if \<not> rt_verify_utf8 rt str then Some None
          else if expect_tag 74 rest then vary_parse rt (tl rest) (e\<lparr>ce_vary_headers := ce_vary_headers e @ [str]\<rparr>)
          else Some (Some (rest, e\<lparr>ce_vary_headers := ce_vary_headers e @ [str]\<rparr>)))"

text \<open>One field with its tag read: \<open>Inl\<close> ends the parse, \<open>Inr\<close> gives the bytes that are left and the entry so far.\<close>

definition string_field :: "pb_runtime \<Rightarrow> string \<Rightarrow> (string \<Rightarrow> cache_entry) \<Rightarrow> (string \<times> cache_entry) option" where
  "string_field rt s upd =
     (case rt_read_delimited rt s of
        None \<Rightarrow> None
      | Some (str, rest) \<Rightarrow> if rt_verify_utf8 rt str then Some (rest, upd str) else None)"

definition bytes_field :: "pb_runtime \<Rightarrow> string \<Rightarrow> (string \<Rightarrow> cache_entry) \<Rightarrow> (string \<times> cache_entry) option" where
  "bytes_field rt s upd = (case rt_read_delimited rt s of None \<Rightarrow> None | Some (str, rest) \<Rightarrow> Some (rest, upd str))"

definition int64_field :: "pb_runtime \<Rightarrow> string \<Rightarrow> (int \<Rightarrow> cache_entry) \<Rightarrow> (string \<times> cache_entry) option" where
  "int64_field rt s upd = (case rt_read_varint64 rt s of None \<Rightarrow> None | Some (v, rest) \<Rightarrow> Some (rest, upd (sint v)))"

definition uint32_field :: "pb_runtime \<Rightarrow> string \<Rightarrow> (u32 \<Rightarrow> cache_entry) \<Rightarrow> (string \<times> cache_entry) option" where
  "uint32_field rt s upd = (case rt_read_varint32 rt s of None \<Rightarrow> None | Some (v, rest) \<Rightarrow> Some (rest, upd v))"

datatype field_end = Failure | Message_done

definition field_parse ::
  "pb_runtime \<Rightarrow> u32 \<Rightarrow> string \<Rightarrow> cache_entry \<Rightarrow> (field_end + string \<times> cache_entry) option" where
  "field_parse rt tag s e =
     (let chk = (\<lambda>r. case r of None \<Rightarrow> Inl Failure | Some x \<Rightarrow> Inr x);
          is = (\<lambda>field expected. drop_bit 3 tag = field \<and> (ucast tag :: u8) = expected)
      in if is 1 8 then Some (chk (uint32_field rt s (\<lambda>v. e\<lparr>ce_status_code := v\<rparr>)))
         else if is 2 18 then Some (chk (string_field rt s (\<lambda>v. e\<lparr>ce_reason_phrase := v\<rparr>)))
         else if is 3 26 then Some (chk (string_field rt s (\<lambda>v. e\<lparr>ce_last_modified := v\<rparr>)))
         else if is 4 34 then Some (chk (string_field rt s (\<lambda>v. e\<lparr>ce_etag := v\<rparr>)))
         else if is 5 40 then Some (chk (int64_field rt s (\<lambda>v. e\<lparr>ce_stored_at := v\<rparr>)))
         else if is 6 48 then Some (chk (int64_field rt s (\<lambda>v. e\<lparr>ce_ttl := v\<rparr>)))
         else if is 7 58 then map_option chk (headers_parse rt s e)
         else if is 8 66 then Some (chk (bytes_field rt s (\<lambda>v. e\<lparr>ce_body := v\<rparr>)))
         else if is 9 74 then map_option chk (vary_parse rt s e)
         else if tag = 0 \<or> tag AND 7 = 4 then Some (Inl Message_done)
         else Some (chk (map_option (\<lambda>rest. (rest, e)) (rt_unknown_field rt tag s))))"

partial_function (option) entry_parse ::
  "pb_runtime \<Rightarrow> string \<Rightarrow> cache_entry \<Rightarrow> (cache_entry \<times> bool) option option" where
  "entry_parse rt s e =
     (if s = [] then Some (Some (e, False))
      else case rt_read_tag rt s of
        None \<Rightarrow> Some None
      | Some (tag, rest) \<Rightarrow>
          do {
            r \<leftarrow> field_parse rt tag rest e;
            (case r of
               Inl Failure \<Rightarrow> Some None
             | Inl Message_done \<Rightarrow> Some (Some (e, True))
             | Inr (rest', e') \<Rightarrow> entry_parse rt rest' e')
          })"

text \<open>\<^verbatim>\<open>ParseFromString\<close> clears the message, parses all bytes and succeeds when the parse ends with them.\<close>

definition entry_clear :: "cache_entry \<Rightarrow> cache_entry" where
  "entry_clear e = e\<lparr>ce_headers := [], ce_vary_headers := [], ce_reason_phrase := [], ce_last_modified := [],
     ce_etag := [], ce_body := [], ce_stored_at := 0, ce_ttl := 0, ce_status_code := 0\<rparr>"

definition parse_from_string :: "pb_runtime \<Rightarrow> string \<Rightarrow> cache_entry \<Rightarrow> cache_entry option option" where
  "parse_from_string rt s e =
     do {
       r \<leftarrow> entry_parse rt s (entry_clear e);
       Some (case r of None \<Rightarrow> None | Some (e', stopped) \<Rightarrow> if stopped then None else Some e')
     }"

section \<open>Merging and copying\<close>

definition header_clear :: "header_entry \<Rightarrow> header_entry" where
  "header_clear h = ([], [])"

definition header_merge :: "header_entry \<Rightarrow> header_entry \<Rightarrow> header_entry" where
  "header_merge to h = (if fst h \<noteq> [] then fst h else fst to, if snd h \<noteq> [] then snd h else snd to)"

definition header_copy_from :: "header_entry \<Rightarrow> header_entry \<Rightarrow> header_entry" where
  "header_copy_from to h = header_merge (header_clear to) h"

definition entry_merge :: "cache_entry \<Rightarrow> cache_entry \<Rightarrow> cache_entry" where
  "entry_merge to e = to\<lparr>
     ce_headers := ce_headers to @ ce_headers e, ce_vary_headers := ce_vary_headers to @ ce_vary_headers e,
     ce_reason_phrase := (if ce_reason_phrase e \<noteq> [] then ce_reason_phrase e else ce_reason_phrase to),
     ce_last_modified := (if ce_last_modified e \<noteq> [] then ce_last_modified e else ce_last_modified to),
     ce_etag := (if ce_etag e \<noteq> [] then ce_etag e else ce_etag to),
     ce_body := (if ce_body e \<noteq> [] then ce_body e else ce_body to),
     ce_stored_at := (if ce_stored_at e \<noteq> 0 then ce_stored_at e else ce_stored_at to),
     ce_ttl := (if ce_ttl e \<noteq> 0 then ce_ttl e else ce_ttl to),
     ce_status_code := (if ce_status_code e \<noteq> 0 then ce_status_code e else ce_status_code to)\<rparr>"

definition entry_copy_from :: "cache_entry \<Rightarrow> cache_entry \<Rightarrow> cache_entry" where
  "entry_copy_from to e = entry_merge (entry_clear to) e"

section \<open>What is relied on\<close>

text \<open>The longest payload the readers accept: 16 bytes less than the largest \<^verbatim>\<open>int\<close>.\<close>

definition size_limit :: nat where
  "size_limit = 2 ^ 31 - 17"

definition runtime_law :: "pb_runtime \<Rightarrow> bool" where
  "runtime_law rt \<longleftrightarrow>
     (\<forall>v. rt_varint_size rt v = length (rt_varint rt v)) \<and>
     (\<forall>v. unat v < 128 \<longrightarrow> rt_varint rt v = [char_of (unat v)]) \<and>
     (\<forall>t rest. rt_read_tag rt (rt_varint rt (ucast t) @ rest) = Some (t, rest)) \<and>
     (\<forall>v rest. rt_read_varint32 rt (rt_varint rt (ucast v) @ rest) = Some (v, rest)) \<and>
     (\<forall>v rest. rt_read_varint64 rt (rt_varint rt v @ rest) = Some (v, rest)) \<and>
     (\<forall>s rest. length s \<le> size_limit \<longrightarrow> rt_read_delimited rt (rt_varint rt (of_nat (length s)) @ s @ rest) = Some (s, rest)) \<and>
     (\<forall>n bytes s. rt_to_string rt n bytes = Some s \<longrightarrow> n = length bytes \<longrightarrow> s = bytes)"

definition reads_law :: "pb_runtime \<Rightarrow> bool" where
  "reads_law rt \<longleftrightarrow>
     (\<forall>s t r. rt_read_tag rt s = Some (t, r) \<longrightarrow> length r < length s) \<and>
     (\<forall>s v r. rt_read_varint32 rt s = Some (v, r) \<longrightarrow> length r \<le> length s) \<and>
     (\<forall>s v r. rt_read_varint64 rt s = Some (v, r) \<longrightarrow> length r \<le> length s) \<and>
     (\<forall>s v r. rt_read_delimited rt s = Some (v, r) \<longrightarrow> length r < length s) \<and>
     (\<forall>s t r. rt_unknown_field rt t s = Some r \<longrightarrow> length r \<le> length s)"

section \<open>Size\<close>

lemma law_size: "runtime_law rt \<Longrightarrow> rt_varint_size rt v = length (rt_varint rt v)"
  by (simp add: runtime_law_def)

lemma law_small: "runtime_law rt \<Longrightarrow> unat v < 128 \<Longrightarrow> rt_varint rt v = [char_of (unat v)]"
  by (simp add: runtime_law_def)

lemma law_tag: "runtime_law rt \<Longrightarrow> rt_read_tag rt (rt_varint rt (ucast t) @ rest) = Some (t, rest)"
  by (simp add: runtime_law_def)

lemma law_varint32: "runtime_law rt \<Longrightarrow> rt_read_varint32 rt (rt_varint rt (ucast v) @ rest) = Some (v, rest)"
  by (simp add: runtime_law_def)

lemma law_varint64: "runtime_law rt \<Longrightarrow> rt_read_varint64 rt (rt_varint rt v @ rest) = Some (v, rest)"
  by (simp add: runtime_law_def)

lemma law_delimited:
  "runtime_law rt \<Longrightarrow> length s \<le> size_limit \<Longrightarrow>
   rt_read_delimited rt (rt_varint rt (of_nat (length s)) @ s @ rest) = Some (s, rest)"
  by (simp add: runtime_law_def)

lemma law_to_string: "runtime_law rt \<Longrightarrow> rt_to_string rt (length bytes) bytes = Some s \<Longrightarrow> s = bytes"
  by (simp add: runtime_law_def)

text \<open>The tags of the messages take one byte.\<close>

lemma write_tag_byte:
  assumes "runtime_law rt" and "8 * f + w < 128"
  shows "write_tag rt f w = [char_of (8 * f + w)]"
proof -
  have "unat (of_nat (8 * f + w) :: u64) = 8 * f + w"
    using assms(2) by (simp only: unat_of_nat) (simp add: take_bit_nat_eq_self)
  then show ?thesis using law_small [OF assms(1), of "of_nat (8 * f + w)"] assms(2) by (simp add: write_tag_def)
qed

lemma length_write_string:
  assumes "runtime_law rt" and "f < 15"
  shows "length (write_string rt f s) = 1 + delimited_size rt (length s)"
  using assms by (simp add: write_string_def write_message_def write_tag_byte delimited_size_def law_size)

lemma length_write_varint:
  assumes "runtime_law rt" and "f < 15"
  shows "length (write_varint rt f v) = rt_varint_size rt v + 1"
  using assms write_tag_byte [OF assms(1), of f 0] by (simp add: write_varint_def law_size)

lemma header_size_exact: "runtime_law rt \<Longrightarrow> length (header_serialize rt h) = header_byte_size rt h"
  by (simp add: header_serialize_def header_byte_size_def length_write_string)

lemma length_write_header:
  assumes "runtime_law rt"
  shows "length (write_message rt 7 (header_byte_size rt h) (header_serialize rt h)) =
     1 + delimited_size rt (header_byte_size rt h)"
  using assms by (simp add: write_message_def write_tag_byte delimited_size_def law_size header_size_exact)

lemma sum_list_Suc: "sum_list (map (\<lambda>x. Suc (f x)) xs) = length xs + sum_list (map f xs)"
  by (induction xs) simp_all

lemma entry_size_exact: "runtime_law rt \<Longrightarrow> length (entry_serialize rt e) = entry_byte_size rt e"
  by (simp add: entry_serialize_def entry_byte_size_def length_write_string length_write_varint length_write_header
      length_concat comp_def sum_list_Suc)

section \<open>Decoding what was encoded\<close>

lemma ucast_small: "n < 128 \<Longrightarrow> (ucast (of_nat n :: u32) :: u64) = of_nat n"
  by (simp add: word_unat_eq_iff unsigned_ucast_eq unsigned_of_nat take_bit_nat_eq_self)

lemma read_write_tag:
  assumes "runtime_law rt" and "8 * f + w < 128"
  shows "rt_read_tag rt (write_tag rt f w @ rest) = Some (of_nat (8 * f + w), rest)"
  using law_tag [OF assms(1), of "of_nat (8 * f + w)" rest] by (simp only: write_tag_def ucast_small [OF assms(2)])

lemma write_tag_nonempty: "runtime_law rt \<Longrightarrow> 8 * f + w < 128 \<Longrightarrow> write_tag rt f w \<noteq> []"
  by (simp add: write_tag_byte)

lemma header_parse_key:
  assumes "runtime_law rt" and "length s \<le> size_limit"
  shows "header_parse rt (write_string rt 1 s @ rest) h =
     (if rt_verify_utf8 rt s then header_parse rt rest (s, snd h) else Some None)"
  using read_write_tag [OF assms(1), of 1 2] write_tag_nonempty [OF assms(1), of 1 2] law_delimited [OF assms]
  by (subst header_parse.simps) (simp add: write_string_def write_message_def)

lemma header_parse_value:
  assumes "runtime_law rt" and "length s \<le> size_limit"
  shows "header_parse rt (write_string rt 2 s @ rest) h =
     (if rt_verify_utf8 rt s then header_parse rt rest (fst h, s) else Some None)"
  using read_write_tag [OF assms(1), of 2 2] write_tag_nonempty [OF assms(1), of 2 2] law_delimited [OF assms]
  by (subst header_parse.simps) (simp add: write_string_def write_message_def)

lemma header_parse_end: "header_parse rt [] h = Some (Some (h, False))"
  by (subst header_parse.simps) simp

text \<open>An empty string is not written, so it is not verified either.\<close>

definition utf8_field :: "pb_runtime \<Rightarrow> string \<Rightarrow> bool" where
  "utf8_field rt s \<longleftrightarrow> s = [] \<or> rt_verify_utf8 rt s"

definition header_utf8 :: "pb_runtime \<Rightarrow> header_entry \<Rightarrow> bool" where
  "header_utf8 rt h \<longleftrightarrow> utf8_field rt (fst h) \<and> utf8_field rt (snd h)"

lemma header_parse_merges:
  assumes "runtime_law rt" and "header_byte_size rt h \<le> size_limit"
  shows "header_parse rt (header_serialize rt h) h0 =
     Some (if header_utf8 rt h then Some (header_merge h0 h, False) else None)"
proof -
  have "length (fst h) \<le> size_limit" "length (snd h) \<le> size_limit"
    using assms(2) by (auto simp: header_byte_size_def delimited_size_def split: if_splits)
  then show ?thesis
    using assms(1) header_parse_value [of rt "snd h" "[]"] header_parse_key [of rt "fst h" "[]"]
    by (simp add: header_serialize_def header_parse_key [unfolded One_nat_def] header_parse_end header_utf8_def utf8_field_def header_merge_def)
qed

lemma header_merge_empty [simp]: "header_merge ([], []) h = h"
  by (simp add: header_merge_def prod_eq_iff)

text \<open>One step of the loop over the fields of an entry, and each field in turn.\<close>

lemma entry_parse_tag:
  assumes "runtime_law rt" and "8 * f + w < 128"
  shows "entry_parse rt (write_tag rt f w @ rest) e =
     do {
       r \<leftarrow> field_parse rt (of_nat (8 * f + w)) rest e;
       (case r of
          Inl Failure \<Rightarrow> Some None
        | Inl Message_done \<Rightarrow> Some (Some (e, True))
        | Inr (rest', e') \<Rightarrow> entry_parse rt rest' e')
     }"
  using read_write_tag [OF assms] write_tag_nonempty [OF assms] by (subst entry_parse.simps) simp

lemma entry_parse_end: "entry_parse rt [] e = Some (Some (e, False))"
  by (subst entry_parse.simps) simp

lemmas field_defs = write_string_def write_message_def write_varint_def field_parse_def string_field_def bytes_field_def
  uint32_field_def int64_field_def utf8_field_def

lemma entry_parse_status:
  assumes "runtime_law rt"
  shows "entry_parse rt ((if v \<noteq> 0 then write_varint rt 1 (ucast v) else []) @ rest) e =
     entry_parse rt rest (e\<lparr>ce_status_code := (if v \<noteq> 0 then v else ce_status_code e)\<rparr>)"
  using entry_parse_tag [OF assms, of 1 0] law_varint32 [OF assms] by (simp add: field_defs)

lemma entry_parse_reason:
  assumes "runtime_law rt" and "length s \<le> size_limit"
  shows "entry_parse rt ((if s \<noteq> [] then write_string rt 2 s else []) @ rest) e =
     (if utf8_field rt s then entry_parse rt rest (e\<lparr>ce_reason_phrase := (if s \<noteq> [] then s else ce_reason_phrase e)\<rparr>)
      else Some None)"
  using entry_parse_tag [OF assms(1), of 2 2] law_delimited [OF assms] by (simp add: field_defs)

lemma entry_parse_last_modified:
  assumes "runtime_law rt" and "length s \<le> size_limit"
  shows "entry_parse rt ((if s \<noteq> [] then write_string rt 3 s else []) @ rest) e =
     (if utf8_field rt s then entry_parse rt rest (e\<lparr>ce_last_modified := (if s \<noteq> [] then s else ce_last_modified e)\<rparr>)
      else Some None)"
  using entry_parse_tag [OF assms(1), of 3 2] law_delimited [OF assms] by (simp add: field_defs)

lemma entry_parse_etag:
  assumes "runtime_law rt" and "length s \<le> size_limit"
  shows "entry_parse rt ((if s \<noteq> [] then write_string rt 4 s else []) @ rest) e =
     (if utf8_field rt s then entry_parse rt rest (e\<lparr>ce_etag := (if s \<noteq> [] then s else ce_etag e)\<rparr>) else Some None)"
  using entry_parse_tag [OF assms(1), of 4 2] law_delimited [OF assms] by (simp add: field_defs)

lemma entry_parse_stored_at:
  assumes "runtime_law rt" and "int64 v = v"
  shows "entry_parse rt ((if v \<noteq> 0 then write_varint rt 5 (word_of_int v) else []) @ rest) e =
     entry_parse rt rest (e\<lparr>ce_stored_at := (if v \<noteq> 0 then v else ce_stored_at e)\<rparr>)"
  using entry_parse_tag [OF assms(1), of 5 0] law_varint64 [OF assms(1)] assms(2) by (simp add: field_defs int64_def)

lemma entry_parse_ttl:
  assumes "runtime_law rt" and "int64 v = v"
  shows "entry_parse rt ((if v \<noteq> 0 then write_varint rt 6 (word_of_int v) else []) @ rest) e =
     entry_parse rt rest (e\<lparr>ce_ttl := (if v \<noteq> 0 then v else ce_ttl e)\<rparr>)"
  using entry_parse_tag [OF assms(1), of 6 0] law_varint64 [OF assms(1)] assms(2) by (simp add: field_defs int64_def)

lemma entry_parse_body:
  assumes "runtime_law rt" and "length s \<le> size_limit"
  shows "entry_parse rt ((if s \<noteq> [] then write_string rt 8 s else []) @ rest) e =
     entry_parse rt rest (e\<lparr>ce_body := (if s \<noteq> [] then s else ce_body e)\<rparr>)"
  using entry_parse_tag [OF assms(1), of 8 2] law_delimited [OF assms] by (simp add: field_defs)

text \<open>The repeated fields: the inner loop reads all elements that stand together.\<close>

abbreviation write_header :: "pb_runtime \<Rightarrow> header_entry \<Rightarrow> string" where
  "write_header rt h \<equiv> write_message rt 7 (header_byte_size rt h) (header_serialize rt h)"

lemma expect_tag_write:
  assumes "runtime_law rt" and "8 * f + w < 128"
  shows "expect_tag t (write_tag rt f w @ rest) \<longleftrightarrow> char_of (8 * f + w) = (char_of t :: char)"
    and "tl (write_tag rt f w @ rest) = rest"
  using assms by (auto simp: expect_tag_def write_tag_byte)

lemma read_header:
  assumes "runtime_law rt" and "header_byte_size rt h \<le> size_limit"
  shows "rt_read_delimited rt (rt_varint rt (of_nat (header_byte_size rt h)) @ header_serialize rt h @ rest) =
     Some (header_serialize rt h, rest)"
  using law_delimited [OF assms(1), of "header_serialize rt h" rest] assms by (simp add: header_size_exact)

lemma headers_parse_list:
  assumes "runtime_law rt" and "\<forall>h \<in> set (h # hs). header_byte_size rt h \<le> size_limit" and "\<not> expect_tag 58 rest"
  shows "headers_parse rt (rt_varint rt (of_nat (header_byte_size rt h)) @ header_serialize rt h @
       concat (map (write_header rt) hs) @ rest) e =
     Some (if \<forall>h \<in> set (h # hs). header_utf8 rt h then Some (rest, e\<lparr>ce_headers := ce_headers e @ h # hs\<rparr>) else None)"
  using assms(2)
proof (induction hs arbitrary: h e)
  case Nil
  then show ?case using assms(1,3)
    by (subst headers_parse.simps) (simp add: read_header header_parse_merges)
next
  case (Cons h' hs)
  then have "headers_parse rt (rt_varint rt (of_nat (header_byte_size rt h')) @ header_serialize rt h' @
       concat (map (write_header rt) hs) @ rest) (e\<lparr>ce_headers := ce_headers e @ [h]\<rparr>) =
     Some (if \<forall>h \<in> set (h' # hs). header_utf8 rt h then Some (rest, e\<lparr>ce_headers := ce_headers e @ h # h' # hs\<rparr>) else None)"
    by simp
  then show ?case using assms(1) Cons.prems expect_tag_write [OF assms(1), of 7 2]
    by (subst headers_parse.simps) (simp add: read_header header_parse_merges write_message_def)
qed

lemma entry_parse_headers:
  assumes "runtime_law rt" and "\<forall>h \<in> set hs. header_byte_size rt h \<le> size_limit" and "\<not> expect_tag 58 rest"
  shows "entry_parse rt (concat (map (write_header rt) hs) @ rest) e =
     (if \<forall>h \<in> set hs. header_utf8 rt h then entry_parse rt rest (e\<lparr>ce_headers := ce_headers e @ hs\<rparr>) else Some None)"
proof (cases hs)
  case (Cons h hs')
  show ?thesis
    using entry_parse_tag [OF assms(1), of 7 2] headers_parse_list [OF assms(1) assms(2) [unfolded Cons] assms(3)]
    unfolding Cons by (simp add: field_parse_def write_message_def)
qed simp

lemma vary_parse_list:
  assumes "runtime_law rt" and "\<forall>s \<in> set (s # vs). length s \<le> size_limit"
  shows "vary_parse rt (rt_varint rt (of_nat (length s)) @ s @ concat (map (write_string rt 9) vs)) e =
     Some (if \<forall>s \<in> set (s # vs). rt_verify_utf8 rt s then Some ([], e\<lparr>ce_vary_headers := ce_vary_headers e @ s # vs\<rparr>)
           else None)"
  using assms(2)
proof (induction vs arbitrary: s e)
  case Nil
  then show ?case using law_delimited [OF assms(1), of s "[]"]
    by (subst vary_parse.simps) (simp add: expect_tag_def)
next
  case (Cons s' vs)
  then have "vary_parse rt (rt_varint rt (of_nat (length s')) @ s' @ concat (map (write_string rt 9) vs))
       (e\<lparr>ce_vary_headers := ce_vary_headers e @ [s]\<rparr>) =
     Some (if \<forall>s \<in> set (s' # vs). rt_verify_utf8 rt s
           then Some ([], e\<lparr>ce_vary_headers := ce_vary_headers e @ s # s' # vs\<rparr>) else None)"
    by simp
  then show ?case using assms(1) Cons.prems expect_tag_write [OF assms(1), of 9 2]
    by (subst vary_parse.simps) (simp add: law_delimited write_string_def write_message_def)
qed

lemma entry_parse_vary:
  assumes "runtime_law rt" and "\<forall>s \<in> set vs. length s \<le> size_limit"
  shows "entry_parse rt (concat (map (write_string rt 9) vs)) e =
     Some (if \<forall>s \<in> set vs. rt_verify_utf8 rt s then Some (e\<lparr>ce_vary_headers := ce_vary_headers e @ vs\<rparr>, False) else None)"
proof (cases vs)
  case (Cons s vs')
  show ?thesis
    using entry_parse_tag [OF assms(1), of 9 2] vary_parse_list [OF assms(1) assms(2) [unfolded Cons]]
    unfolding Cons by (simp add: field_parse_def write_string_def write_message_def entry_parse_end)
qed (simp add: entry_parse_end)

lemma no_header_follows:
  assumes "runtime_law rt"
  shows "\<not> expect_tag 58 ((if b \<noteq> [] then write_string rt 8 b else []) @ concat (map (write_string rt 9) vs))"
proof -
  have "\<not> expect_tag 58 (concat (map (write_string rt 9) vs))"
    using expect_tag_write(1) [OF assms, of 9 2]
    by (cases vs) (simp add: expect_tag_def, simp add: write_string_def write_message_def)
  then show ?thesis
    using expect_tag_write(1) [OF assms, of 8 2] by (simp add: write_string_def write_message_def)
qed

text \<open>The entries that can be decoded: every string that is written is UTF-8. The sizes and the 64-bit fields are in
  range.\<close>

definition entry_utf8 :: "pb_runtime \<Rightarrow> cache_entry \<Rightarrow> bool" where
  "entry_utf8 rt e \<longleftrightarrow> utf8_field rt (ce_reason_phrase e) \<and> utf8_field rt (ce_last_modified e) \<and>
     utf8_field rt (ce_etag e) \<and> (\<forall>h \<in> set (ce_headers e). header_utf8 rt h) \<and>
     (\<forall>s \<in> set (ce_vary_headers e). rt_verify_utf8 rt s)"

definition entry_fits :: "pb_runtime \<Rightarrow> cache_entry \<Rightarrow> bool" where
  "entry_fits rt e \<longleftrightarrow> entry_byte_size rt e \<le> size_limit \<and> int64 (ce_stored_at e) = ce_stored_at e \<and>
     int64 (ce_ttl e) = ce_ttl e"

lemma entry_fits_fields:
  assumes "entry_byte_size rt e \<le> size_limit"
  shows "length (ce_reason_phrase e) \<le> size_limit" and "length (ce_last_modified e) \<le> size_limit"
    and "length (ce_etag e) \<le> size_limit" and "length (ce_body e) \<le> size_limit"
  using assms by (auto simp: entry_byte_size_def delimited_size_def split: if_splits)

lemma entry_fits_lists:
  assumes "entry_byte_size rt e \<le> size_limit"
  shows "\<forall>h \<in> set (ce_headers e). header_byte_size rt h \<le> size_limit"
    and "\<forall>s \<in> set (ce_vary_headers e). length s \<le> size_limit"
proof -
  have "sum_list (map (\<lambda>h. delimited_size rt (header_byte_size rt h)) (ce_headers e)) \<le> size_limit"
    "sum_list (map (\<lambda>s. delimited_size rt (length s)) (ce_vary_headers e)) \<le> size_limit"
    using assms by (simp_all add: entry_byte_size_def)
  then show "\<forall>h \<in> set (ce_headers e). header_byte_size rt h \<le> size_limit"
    and "\<forall>s \<in> set (ce_vary_headers e). length s \<le> size_limit"
    using member_le_sum_list [of "delimited_size rt (header_byte_size rt h)"
        "map (\<lambda>h. delimited_size rt (header_byte_size rt h)) (ce_headers e)" for h]
      member_le_sum_list [of "delimited_size rt (length s)" "map (\<lambda>s. delimited_size rt (length s)) (ce_vary_headers e)" for s]
    by (fastforce simp: delimited_size_def)+
qed

lemma entry_parse_merges:
  assumes law: "runtime_law rt" and "entry_fits rt e"
  shows "entry_parse rt (entry_serialize rt e) e0 =
     Some (if entry_utf8 rt e then Some (entry_merge e0 e, False) else None)"
proof -
  have fits: "entry_byte_size rt e \<le> size_limit" "int64 (ce_stored_at e) = ce_stored_at e" "int64 (ce_ttl e) = ce_ttl e"
    using assms(2) by (simp_all add: entry_fits_def)
  show ?thesis
    unfolding entry_serialize_def entry_parse_status [OF law] entry_parse_reason [OF law entry_fits_fields(1) [OF fits(1)]]
      entry_parse_last_modified [OF law entry_fits_fields(2) [OF fits(1)]] entry_parse_etag [OF law entry_fits_fields(3) [OF fits(1)]]
      entry_parse_stored_at [OF law fits(2)] entry_parse_ttl [OF law fits(3)]
      entry_parse_headers [OF law entry_fits_lists(1) [OF fits(1)] no_header_follows [OF law]]
      entry_parse_body [OF law entry_fits_fields(4) [OF fits(1)]] entry_parse_vary [OF law entry_fits_lists(2) [OF fits(1)]]
    by (simp add: entry_utf8_def entry_merge_def)
qed

lemma entry_merge_clear: "entry_merge (entry_clear to) e = e"
  by (simp add: entry_merge_def entry_clear_def)

lemma entry_roundtrip:
  assumes "runtime_law rt" and "entry_fits rt e" and "serialize_to_string rt e = Some s"
  shows "length s = entry_byte_size rt e" and "parse_from_string rt s e0 = Some (if entry_utf8 rt e then Some e else None)"
proof -
  have "s = entry_serialize rt e"
    using assms law_to_string [OF assms(1)] by (metis serialize_to_string_def entry_size_exact)
  then show "length s = entry_byte_size rt e" and "parse_from_string rt s e0 = Some (if entry_utf8 rt e then Some e else None)"
    using assms(1,2) by (simp_all add: entry_size_exact parse_from_string_def entry_parse_merges entry_merge_clear)
qed

section \<open>Decoding ends\<close>

lemma reads_shorter:
  assumes "reads_law rt"
  shows "rt_read_tag rt s = Some (t, r) \<Longrightarrow> length r < length s"
    and "rt_read_varint32 rt s = Some (v, r) \<Longrightarrow> length r \<le> length s"
    and "rt_read_varint64 rt s = Some (w, r) \<Longrightarrow> length r \<le> length s"
    and "rt_read_delimited rt s = Some (b, r) \<Longrightarrow> length r < length s"
    and "rt_unknown_field rt t s = Some r \<Longrightarrow> length r \<le> length s"
  using assms by (simp_all add: reads_law_def)

lemma header_parse_returns:
  assumes "reads_law rt"
  shows "\<exists>r. header_parse rt s h = Some r"
proof (induction s arbitrary: h rule: length_induct)
  case (1 s)
  have next_ok: "\<exists>r. header_parse rt rest' h' = Some r" if "rt_read_tag rt s = Some (tag, rest)"
    "length rest' \<le> length rest" for tag rest rest' h'
    using 1 reads_shorter(1) [OF assms that(1)] that(2) by (cases h') simp
  show ?case
  proof (cases "s = [] \<or> rt_read_tag rt s = None")
    case True
    then show ?thesis by (subst header_parse.simps) auto
  next
    case False
    then obtain tag rest where t: "rt_read_tag rt s = Some (tag, rest)" by auto
    have d: "\<exists>r. header_parse rt rest' h' = Some r" if "rt_read_delimited rt rest = Some (b, rest')" for b rest' h'
      using next_ok [OF t] reads_shorter(4) [OF assms that] by simp
    have u: "\<exists>r. header_parse rt rest' h' = Some r" if "rt_unknown_field rt tag rest = Some rest'" for rest' h'
      using next_ok [OF t] reads_shorter(5) [OF assms that] by simp
    show ?thesis
      using False t d u by (subst header_parse.simps) (simp split: option.split)
  qed
qed

lemma headers_parse_returns:
  assumes "reads_law rt"
  shows "\<exists>r. headers_parse rt s e = Some r \<and> (\<forall>s' e'. r = Some (s', e') \<longrightarrow> length s' \<le> length s)"
proof (induction s arbitrary: e rule: length_induct)
  case (1 s)
  show ?case
  proof (cases "rt_read_delimited rt s")
    case None
    then show ?thesis by (subst headers_parse.simps) simp
  next
    case (Some p)
    obtain bytes rest where p: "p = (bytes, rest)" by (cases p)
    have lt: "length rest < length s" using reads_shorter(4) [OF assms Some [unfolded p]] .
    then have IH: "\<exists>r. headers_parse rt (tl rest) e' = Some r \<and> (\<forall>s' e'. r = Some (s', e') \<longrightarrow> length s' \<le> length s)" for e'
      using 1 [rule_format, of "tl rest" e'] by (fastforce dest: le_trans)
    obtain r where "header_parse rt bytes ([], []) = Some r" using header_parse_returns [OF assms] by blast
    then show ?thesis
      using Some lt IH by (subst headers_parse.simps) (auto simp: p split: option.split)
  qed
qed

lemma vary_parse_returns:
  assumes "reads_law rt"
  shows "\<exists>r. vary_parse rt s e = Some r \<and> (\<forall>s' e'. r = Some (s', e') \<longrightarrow> length s' \<le> length s)"
proof (induction s arbitrary: e rule: length_induct)
  case (1 s)
  show ?case
  proof (cases "rt_read_delimited rt s")
    case None
    then show ?thesis by (subst vary_parse.simps) simp
  next
    case (Some p)
    obtain str rest where p: "p = (str, rest)" by (cases p)
    have lt: "length rest < length s" using reads_shorter(4) [OF assms Some [unfolded p]] .
    then have IH: "\<exists>r. vary_parse rt (tl rest) e' = Some r \<and> (\<forall>s' e'. r = Some (s', e') \<longrightarrow> length s' \<le> length s)" for e'
      using 1 [rule_format, of "tl rest" e'] by (fastforce dest: le_trans)
    then show ?thesis
      using Some lt by (subst vary_parse.simps) (auto simp: p)
  qed
qed

definition field_ok :: "nat \<Rightarrow> (field_end + string \<times> cache_entry) option \<Rightarrow> bool" where
  "field_ok n r \<longleftrightarrow> (\<exists>q. r = Some q \<and> (\<forall>s' e'. q = Inr (s', e') \<longrightarrow> length s' \<le> n))"

lemma field_ok_if: "field_ok n a \<Longrightarrow> field_ok n b \<Longrightarrow> field_ok n (if c then a else b)"
  by simp

lemma field_ok_chk:
  "(\<And>s' e'. r = Some (s', e') \<Longrightarrow> length s' \<le> n) \<Longrightarrow>
   field_ok n (Some (case r of None \<Rightarrow> Inl Failure | Some x \<Rightarrow> Inr x))"
  by (auto simp: field_ok_def split: option.split)

lemma field_ok_loop:
  "\<exists>r. q = Some r \<and> (\<forall>s' e'. r = Some (s', e') \<longrightarrow> length s' \<le> n) \<Longrightarrow>
   field_ok n (map_option (\<lambda>r. case r of None \<Rightarrow> Inl Failure | Some x \<Rightarrow> Inr x) q)"
  by (elim exE conjE) (simp add: field_ok_chk)

lemma field_ok_done: "field_ok n (Some (Inl Message_done))"
  by (simp add: field_ok_def)

lemma field_parse_returns:
  assumes "reads_law rt"
  shows "field_ok (length s) (field_parse rt tag s e)"
  unfolding field_parse_def Let_def
  by (intro field_ok_if field_ok_chk field_ok_done field_ok_loop headers_parse_returns [OF assms] vary_parse_returns [OF assms])
    (auto simp: uint32_field_def string_field_def bytes_field_def int64_field_def
      dest: reads_shorter [OF assms] split: option.splits if_splits)

lemma entry_parse_returns:
  assumes "reads_law rt"
  shows "\<exists>r. entry_parse rt s e = Some r"
proof (induction s arbitrary: e rule: length_induct)
  case (1 s)
  show ?case
  proof (cases "s = [] \<or> rt_read_tag rt s = None")
    case True
    then show ?thesis by (subst entry_parse.simps) auto
  next
    case False
    then obtain tag rest where t: "rt_read_tag rt s = Some (tag, rest)" by auto
    obtain r where r: "field_parse rt tag rest e = Some r" "\<And>s' e'. r = Inr (s', e') \<Longrightarrow> length s' \<le> length rest"
      using field_parse_returns [OF assms, of rest tag e] by (auto simp: field_ok_def)
    have "\<exists>q. entry_parse rt s' e' = Some q" if "r = Inr (s', e')" for s' e'
      using 1 r(2) [OF that] reads_shorter(1) [OF assms t] by simp
    then show ?thesis
      using False t r(1) by (subst entry_parse.simps) (auto split: sum.split field_end.split)
  qed
qed

lemma parse_from_string_returns: "reads_law rt \<Longrightarrow> \<exists>r. parse_from_string rt s e = Some r"
  using entry_parse_returns [of rt s "entry_clear e"] by (auto simp: parse_from_string_def)

section \<open>The wire format\<close>

text \<open>A runtime that follows the documented format: base-128 varints with the least significant group first, at most
  ten bytes of them, and UTF-8 as in RFC 3629. It satisfies the laws, so they can hold.\<close>

function varint_bytes :: "nat \<Rightarrow> string" where
  "varint_bytes n = (if n < 128 then [char_of n] else char_of (n mod 128 + 128) # varint_bytes (n div 128))"
  by pat_completeness auto
termination
  by (relation "measure id") auto

declare varint_bytes.simps [simp del]

fun read_varint :: "nat \<Rightarrow> string \<Rightarrow> (nat \<times> string) option" where
  "read_varint 0 s = None"
| "read_varint (Suc k) [] = None"
| "read_varint (Suc k) (c # s) =
     (if of_char c < (128 :: nat) then Some (of_char c, s)
      else map_option (\<lambda>(v, r). (of_char c - 128 + 128 * v, r)) (read_varint k s))"

definition continuation :: "char \<Rightarrow> bool" where
  "continuation c \<longleftrightarrow> 0x80 \<le> (of_char c :: nat) \<and> (of_char c :: nat) < 0xC0"

fun utf8_valid :: "string \<Rightarrow> bool" where
  "utf8_valid [] = True"
| "utf8_valid (a # s) =
     (let n = of_char a :: nat
      in if n < 0x80 then utf8_valid s
         else case s of
           [] \<Rightarrow> False
         | b # s1 \<Rightarrow>
             if 0xC2 \<le> n \<and> n < 0xE0 then continuation b \<and> utf8_valid s1
             else case s1 of
               [] \<Rightarrow> False
             | c # s2 \<Rightarrow>
                 if 0xE0 \<le> n \<and> n < 0xF0 then
                   continuation b \<and> continuation c \<and> (n = 0xE0 \<longrightarrow> 0xA0 \<le> (of_char b :: nat)) \<and>
                   (n = 0xED \<longrightarrow> (of_char b :: nat) < 0xA0) \<and> utf8_valid s2
                 else case s2 of
                   [] \<Rightarrow> False
                 | d # s3 \<Rightarrow>
                     0xF0 \<le> n \<and> n < 0xF5 \<and> continuation b \<and> continuation c \<and> continuation d \<and>
                     (n = 0xF0 \<longrightarrow> 0x90 \<le> (of_char b :: nat)) \<and> (n = 0xF4 \<longrightarrow> (of_char b :: nat) < 0x90) \<and> utf8_valid s3)"

definition wire_delimited :: "string \<Rightarrow> (string \<times> string) option" where
  "wire_delimited s =
     (case read_varint 10 s of
        None \<Rightarrow> None
      | Some (n, rest) \<Rightarrow> if n \<le> size_limit \<and> n \<le> length rest then Some (take n rest, drop n rest) else None)"

definition wire_skip :: "u32 \<Rightarrow> string \<Rightarrow> string option" where
  "wire_skip tag s =
     (if tag AND 7 = 0 then map_option snd (read_varint 10 s)
      else if tag AND 7 = 1 then (if 8 \<le> length s then Some (drop 8 s) else None)
      else if tag AND 7 = 2 then map_option snd (wire_delimited s)
      else if tag AND 7 = 5 then (if 4 \<le> length s then Some (drop 4 s) else None)
      else None)"

definition wire_runtime :: pb_runtime where
  "wire_runtime =
     \<lparr>rt_varint = (\<lambda>v. varint_bytes (unat v)), rt_varint_size = (\<lambda>v. length (varint_bytes (unat v))),
      rt_read_tag = (\<lambda>s. map_option (\<lambda>(v, r). (of_nat v, r)) (read_varint 5 s)),
      rt_read_varint32 = (\<lambda>s. map_option (\<lambda>(v, r). (of_nat v, r)) (read_varint 10 s)),
      rt_read_varint64 = (\<lambda>s. map_option (\<lambda>(v, r). (of_nat v, r)) (read_varint 10 s)),
      rt_read_delimited = wire_delimited, rt_verify_utf8 = utf8_valid, rt_unknown_field = wire_skip,
      rt_to_string = (\<lambda>n bytes. if n < 2 ^ 31 then Some bytes else None)\<rparr>"

lemma varint_bytes_cases:
  "n < 128 \<Longrightarrow> varint_bytes n = [char_of n]"
  "\<not> n < 128 \<Longrightarrow> varint_bytes n = char_of (n mod 128 + 128) # varint_bytes (n div 128)"
  by (simp_all add: varint_bytes.simps [of n])

lemma read_varint_bytes: "0 < k \<Longrightarrow> n < 128 ^ k \<Longrightarrow> read_varint k (varint_bytes n @ rest) = Some (n, rest)"
proof (induction n arbitrary: k rule: varint_bytes.induct)
  case (1 n)
  obtain j where k: "k = Suc j" using 1(2) by (cases k) auto
  show ?case
  proof (cases "n < 128")
    case True
    then show ?thesis by (simp add: k varint_bytes_cases)
  next
    case False
    then have "0 < j" using 1(3) by (cases j) (auto simp: k)
    moreover have "n div 128 < 128 ^ j" using 1(3) by (simp add: k less_mult_imp_div_less mult.commute)
    ultimately have "read_varint j (varint_bytes (n div 128) @ rest) = Some (n div 128, rest)"
      using 1(1) False by blast
    then show ?thesis using False by (simp add: k varint_bytes_cases)
  qed
qed

lemma read_varint_shorter: "read_varint k s = Some (v, r) \<Longrightarrow> length r < length s"
  by (induction k s arbitrary: v r rule: read_varint.induct) (fastforce split: if_splits)+

lemma wire_delimited_shorter: "wire_delimited s = Some (b, r) \<Longrightarrow> length r < length s"
  by (fastforce simp: wire_delimited_def split: option.splits if_splits dest: read_varint_shorter)

lemma wire_reads_law: "reads_law wire_runtime"
  unfolding reads_law_def wire_runtime_def
  by (auto simp: wire_skip_def split: if_splits dest: read_varint_shorter wire_delimited_shorter intro: less_imp_le)

lemma wire_runtime_law: "runtime_law wire_runtime"
proof -
  have small: "unat v < 128 \<Longrightarrow> varint_bytes (unat v) = [char_of (unat v)]" for v :: u64
    by (simp add: varint_bytes_cases)
  have r64: "read_varint 10 (varint_bytes (unat v) @ rest) = Some (unat v, rest)" for v :: u64 and rest
    using unsigned_less [of v, where ?'a = nat] by (intro read_varint_bytes) simp_all
  have r32: "read_varint (Suc k) (varint_bytes (unat v) @ rest) = Some (unat v, rest)" if "4 \<le> k" for v :: u32 and rest k
  proof -
    have "unat v < 128 ^ 5" using unsigned_less [of v, where ?'a = nat] by simp
    also have "(128 ^ 5 :: nat) \<le> 128 ^ Suc k" using that by (intro power_increasing) simp_all
    finally show ?thesis by (intro read_varint_bytes) simp_all
  qed
  have del: "wire_delimited (varint_bytes (unat (of_nat (length s) :: u64)) @ s @ rest) = Some (s, rest)"
    if "length s \<le> size_limit" for s rest
  proof -
    have "unat (of_nat (length s) :: u64) = length s"
      using that by (simp add: unsigned_of_nat take_bit_nat_eq_self size_limit_def)
    then show ?thesis using r64 [of "of_nat (length s)" "s @ rest"] that by (simp add: wire_delimited_def)
  qed
  have wide: "unat (ucast v :: u64) = unat v" for v :: u32
    using unsigned_less [of v, where ?'a = nat] by (simp add: unsigned_ucast_eq take_bit_nat_eq_self)
  show ?thesis
    using small r64 r32 [of 4] r32 [of 9] del by (simp add: runtime_law_def wire_runtime_def wide)
qed

section \<open>Properties\<close>

text \<open>C19. Encoding and decoding of a cache entry. The size computed beforehand is exactly the number of bytes written, for
  the entry and for the nested headers, whose length prefix it is. Parsing the encoding into an entry merges the fields
  into it, and parsing the bytes of \<^verbatim>\<open>SerializeToString\<close> gives the entry back, whatever the target held before, if and only
  if all its strings are UTF-8; otherwise the parse fails although encoding succeeded.\<close>

theorem cache_entry_roundtrip:
  assumes "runtime_law rt" and "entry_fits rt e"
  shows "length (entry_serialize rt e) = entry_byte_size rt e \<and>
    entry_parse rt (entry_serialize rt e) e0 = Some (if entry_utf8 rt e then Some (entry_merge e0 e, False) else None) \<and>
    (serialize_to_string rt e = Some s \<longrightarrow>
       parse_from_string rt s e0 = Some (if entry_utf8 rt e then Some e else None)) \<and>
    entry_copy_from e0 e = e \<and> header_copy_from h0 h = h"
  using assms entry_size_exact entry_parse_merges entry_roundtrip(2) entry_merge_clear
  by (simp add: entry_copy_from_def header_copy_from_def header_clear_def)

definition demo_entry :: cache_entry where
  "demo_entry = cache_entry_empty\<lparr>ce_status_code := 200, ce_reason_phrase := ''OK'', ce_stored_at := 1700000000,
     ce_ttl := -1, ce_headers := [(''etag'', ''x''), (''a'', [])], ce_body := ''hi'', ce_vary_headers := [''a'', ''b'']\<rparr>"

definition latin1_entry :: cache_entry where
  "latin1_entry = cache_entry_empty\<lparr>ce_status_code := 200, ce_headers := [(''name'', [CHR 0xE9])]\<rparr>"

lemma demo_entry_fits: "entry_fits wire_runtime demo_entry"
  by (simp add: entry_fits_def int64_def demo_entry_def cache_entry_empty_def entry_byte_size_def wire_runtime_def
      delimited_size_def header_byte_size_def size_limit_def varint_bytes_cases unsigned_minus_1_eq_mask mask_eq_exp_minus_1)

lemma latin1_entry_fits: "entry_fits wire_runtime latin1_entry"
  by (simp add: entry_fits_def int64_def latin1_entry_def cache_entry_empty_def entry_byte_size_def wire_runtime_def
      delimited_size_def header_byte_size_def size_limit_def varint_bytes_cases)

lemma demo_entry_utf8: "entry_utf8 wire_runtime demo_entry" "\<not> entry_utf8 wire_runtime latin1_entry"
  by (simp_all add: entry_utf8_def demo_entry_def latin1_entry_def cache_entry_empty_def wire_runtime_def
      utf8_field_def header_utf8_def)

theorem cache_entry_roundtrip_witness:
  "parse_from_string wire_runtime (entry_serialize wire_runtime demo_entry) latin1_entry = Some (Some demo_entry) \<and>
   parse_from_string wire_runtime (entry_serialize wire_runtime latin1_entry) demo_entry = Some None"
proof -
  have "serialize_to_string wire_runtime e = Some (entry_serialize wire_runtime e)" if "entry_fits wire_runtime e" for e
    using that by (simp add: serialize_to_string_def entry_fits_def size_limit_def) (simp add: wire_runtime_def)
  then show ?thesis
    using cache_entry_roundtrip [OF wire_runtime_law demo_entry_fits, where s = "entry_serialize wire_runtime demo_entry" and ?e0.0 = latin1_entry]
      cache_entry_roundtrip [OF wire_runtime_law latin1_entry_fits, where s = "entry_serialize wire_runtime latin1_entry" and ?e0.0 = demo_entry]
      demo_entry_utf8 demo_entry_fits latin1_entry_fits by simp
qed

text \<open>Decoding ends on every input, also on bytes that are no entry: with readers that do not give back more bytes than
  they got, \<^verbatim>\<open>ParseFromString\<close> returns.\<close>

theorem cache_entry_decoding_ends:
  assumes "reads_law rt"
  shows "\<exists>r. parse_from_string rt s e = Some r"
  using assms by (rule parse_from_string_returns)

theorem cache_entry_decoding_ends_witness: "\<exists>r. parse_from_string wire_runtime ''no entry'' demo_entry = Some r"
  using cache_entry_decoding_ends [OF wire_reads_law] .

end
