(* ===== verification/Persistent_Cache.thy ===== *)
theory Persistent_Cache
  imports Message_Builder Response_Parser Cache_Entry
begin

text \<open>
  \<^verbatim>\<open>src/net/http/persistent_cache.h\<close> and \<^verbatim>\<open>.cpp\<close>: the second cache level. The RocksDB database
  is an argument, \<open>kv_law\<close> says what is relied on of it; entries are encoded by \<^verbatim>\<open>http_cache.pb.cc\<close>. Times are seconds since the epoch, \<^verbatim>\<open>int64_t\<close> values.
\<close>

section \<open>Helpers\<close>

text \<open>The file has its own copies of two helpers; they agree with those of the message builder and of the parsers.\<close>

definition l2_is_hop_by_hop_header :: "string \<Rightarrow> bool" where
  "l2_is_hop_by_hop_header key \<longleftrightarrow>
     key = ''connection'' \<or> key = ''proxy-connection'' \<or> key = ''keep-alive'' \<or> key = ''te'' \<or>
     key = ''trailer'' \<or> key = ''transfer-encoding'' \<or> key = ''upgrade''"

definition l2_to_lower_ascii :: "string \<Rightarrow> string" where
  "l2_to_lower_ascii v =
     map (\<lambda>c. if char_code CHR ''A'' \<le> char_code c \<and> char_code c \<le> char_code CHR ''Z''
              then char_of (char_code c + (char_code CHR ''a'' - char_code CHR ''A'')) else c) v"

lemma l2_is_hop_by_hop_header [simp]: "l2_is_hop_by_hop_header = is_hop_by_hop_header"
  by (simp add: l2_is_hop_by_hop_header_def is_hop_by_hop_header_def fun_eq_iff)

lemma l2_to_lower_ascii [simp]: "l2_to_lower_ascii = to_lower_ascii"
  by (simp add: l2_to_lower_ascii_def to_lower_ascii_def tolower_def char_code_def fun_eq_iff)

section \<open>Time to live\<close>

lemma find_str_from_ge: "find_str_from pat s i = Some j \<Longrightarrow> i \<le> j \<and> j \<le> i + length s"
  by (induction s arbitrary: i) (fastforce split: if_splits)+

lemma find_str_ge: "find_str pat s p = Some j \<Longrightarrow> p \<le> j \<and> j \<le> length s"
  using find_str_from_ge [of pat "drop p s" p j] by (auto simp: find_str_def split: if_splits)

text \<open>\<^verbatim>\<open>std::stoll\<close> of a string of digits; the exception for a value that does not fit gives -1.\<close>

definition stoll_digits :: "string \<Rightarrow> int" where
  "stoll_digits ds = (let v = digits_val 0 ds in if v < 2 ^ 63 then int v else -1)"

function max_age_from :: "string \<Rightarrow> nat \<Rightarrow> int" where
  "max_age_from cc pos =
     (if pos < length cc then
        (case find_str ''max-age='' cc pos of
           None \<Rightarrow> -1
         | Some start \<Rightarrow>
             (let valid_start = (start = 0 \<or> cc ! (start - 1) = CHR '','' \<or> cc ! (start - 1) = CHR '' '' \<or>
                                 cc ! (start - 1) = CHR '';'')
              in if \<not> valid_start then max_age_from cc (start + 8)
                 else let ds = takeWhile isdigit (drop (start + 8) cc)
                      in if ds = [] then -1 else stoll_digits ds))
      else -1)"
  by pat_completeness auto
termination
  by (relation "measure (\<lambda>(cc, pos). length cc - pos)") (auto dest!: find_str_ge)

declare max_age_from.simps [simp del]

definition parse_max_age :: "string \<Rightarrow> int" where
  "parse_max_age cc = max_age_from cc 0"

definition compute_ttl :: "response_info \<Rightarrow> int" where
  "compute_ttl resp =
     (let max_age = (case map_of (rs_headers resp) ''cache-control'' of None \<Rightarrow> -1 | Some cc \<Rightarrow> parse_max_age cc)
      in if max_age \<ge> 0 then max_age
         else case map_of (rs_headers resp) ''expires'' of Some _ \<Rightarrow> 3600 | None \<Rightarrow> 3600)"

definition is_fresh :: "int \<Rightarrow> cache_entry \<Rightarrow> bool" where
  "is_fresh now entry \<longleftrightarrow> int64 (ce_stored_at entry + ce_ttl entry) \<ge> now"

section \<open>Conditional requests and response texts\<close>

definition trim_quotes :: "string \<Rightarrow> string" where
  "trim_quotes s =
     (let s1 = (if s \<noteq> [] \<and> hd s = CHR 0x22 then drop 1 s else s)
      in if s1 \<noteq> [] \<and> last s1 = CHR 0x22 then butlast s1 else s1)"

definition check_not_modified :: "request_info \<Rightarrow> cache_entry \<Rightarrow> bool" where
  "check_not_modified req entry =
     (case map_of (ri_headers req) ''if-none-match'' of
        Some inm \<Rightarrow>
          if ce_etag entry \<noteq> []
          then trim_quotes (l2_to_lower_ascii inm) = trim_quotes (l2_to_lower_ascii (ce_etag entry))
          else (case map_of (ri_headers req) ''if-modified-since'' of
                  Some ims \<Rightarrow> ce_last_modified entry \<noteq> [] \<and> ims = ce_last_modified entry
                | None \<Rightarrow> False)
      | None \<Rightarrow>
          (case map_of (ri_headers req) ''if-modified-since'' of
             Some ims \<Rightarrow> ce_last_modified entry \<noteq> [] \<and> ims = ce_last_modified entry
           | None \<Rightarrow> False))"

fun append_entry_headers :: "(string \<times> string) list \<Rightarrow> string \<times> bool \<Rightarrow> string \<times> bool" where
  "append_entry_headers [] s = s"
| "append_entry_headers ((key, v) # hs) (out, has_length) =
     (if l2_is_hop_by_hop_header (l2_to_lower_ascii key) then append_entry_headers hs (out, has_length)
      else append_entry_headers hs
             (out @ key @ '': '' @ v @ CRLF, has_length \<or> l2_to_lower_ascii key = ''content-length''))"

definition rebuild_response :: "cache_entry \<Rightarrow> string" where
  "rebuild_response entry =
     (let out0 = ''HTTP/1.1 '' @ to_string (unat (ce_status_code entry)) @ '' '' @ ce_reason_phrase entry @ CRLF;
          (out1, has_content_length) = append_entry_headers (ce_headers entry) (out0, False);
          out2 = (if has_content_length then out1
                  else out1 @ ''Content-Length: '' @ to_string (length (ce_body entry)) @ CRLF)
      in out2 @ CRLF @ ce_body entry)"

definition validator_header :: "string \<Rightarrow> bool" where
  "validator_header key_lower \<longleftrightarrow> key_lower = ''etag'' \<or> key_lower = ''last-modified'' \<or>
     key_lower = ''cache-control'' \<or> key_lower = ''expires'' \<or> key_lower = ''vary''"

definition build_not_modified_response :: "cache_entry \<Rightarrow> string" where
  "build_not_modified_response entry =
     ''HTTP/1.1 304 Not Modified'' @ CRLF @
     concat (map (\<lambda>(k, v). if validator_header (l2_to_lower_ascii k) then k @ '': '' @ v @ CRLF else []) (ce_headers entry)) @
     CRLF"

lemma find_char_ge: "find_char c s p = Some k \<Longrightarrow> p \<le> k"
  using find_index_from_Some by (fastforce simp: find_char_def)

function vary_from :: "string \<Rightarrow> nat \<Rightarrow> string list" where
  "vary_from v start0 =
     (if start0 < length v then
        (let start = start0 + length (takeWhile (\<lambda>c. c = CHR '' '') (drop start0 v));
             e = (case find_char CHR '','' v start of None \<Rightarrow> length v | Some e \<Rightarrow> e);
             name = rev (dropWhile (\<lambda>c. c = CHR '' '') (rev (substr v start (e - start))))
         in (if name \<noteq> [] then [l2_to_lower_ascii name] else []) @ vary_from v (e + 1))
      else [])"
  by pat_completeness auto
termination
  by (relation "measure (\<lambda>(v, s). length v - s)") (auto dest!: find_char_ge split: option.split)

declare vary_from.simps [simp del]

definition parse_vary_headers :: "string \<Rightarrow> string list" where
  "parse_vary_headers v = vary_from v 0"

section \<open>The store\<close>

record 'd kv_ops =
  kv_get :: "string \<Rightarrow> 'd \<Rightarrow> string option"
  kv_put :: "string \<Rightarrow> string \<Rightarrow> 'd \<Rightarrow> bool \<times> 'd"
  kv_delete :: "string \<Rightarrow> 'd \<Rightarrow> bool \<times> 'd"

datatype l2_status = L2_kMiss | L2_kNotModified | L2_kHit

text \<open>Decoding always ends (\<open>parse_from_string_returns\<close>), so the last case is a failed parse.\<close>

definition l2_lookup :: "'d kv_ops \<Rightarrow> pb_runtime \<Rightarrow> int \<Rightarrow> string \<Rightarrow> request_info \<Rightarrow> 'd \<Rightarrow> l2_status \<times> string" where
  "l2_lookup kv rt now cache_key req db =
     (case kv_get kv cache_key db of
        None \<Rightarrow> (L2_kMiss, [])
      | Some raw_value \<Rightarrow>
          (case parse_from_string rt raw_value cache_entry_empty of
             Some (Some entry) \<Rightarrow>
               if \<not> is_fresh now entry then (L2_kMiss, [])
               else if check_not_modified req entry then (L2_kNotModified, build_not_modified_response entry)
               else (L2_kHit, rebuild_response entry)
           | _ \<Rightarrow> (L2_kMiss, [])))"

definition entry_header :: "string \<times> string \<Rightarrow> cache_entry \<Rightarrow> cache_entry" where
  "entry_header kv entry =
     (let e1 = entry\<lparr>ce_headers := ce_headers entry @ [kv]\<rparr>
      in if fst kv = ''last-modified'' then e1\<lparr>ce_last_modified := snd kv\<rparr>
         else if fst kv = ''etag'' then e1\<lparr>ce_etag := snd kv\<rparr>
         else if fst kv = ''vary'' then e1\<lparr>ce_vary_headers := ce_vary_headers e1 @ parse_vary_headers (snd kv)\<rparr>
         else e1)"

definition make_entry :: "int \<Rightarrow> response_info \<Rightarrow> cache_entry" where
  "make_entry now resp =
     (fold entry_header (rs_headers resp)
        (cache_entry_empty\<lparr>ce_status_code := word_of_int (rs_status_code resp), ce_reason_phrase := rs_reason_phrase resp,
           ce_stored_at := now, ce_ttl := compute_ttl resp\<rparr>))\<lparr>ce_body := rs_body resp\<rparr>"

text \<open>The parsed upstream response, or \<open>None\<close> when it is not a complete message; the outer option is an
  abort in the parser library.\<close>

definition parse_complete :: "llhttp_execute \<Rightarrow> nat \<Rightarrow> string \<Rightarrow> response_info option option" where
  "parse_complete execute start upstream_response =
     do {
       (ok, p) \<leftarrow> resp_parse execute upstream_response (http_response_parser_new start);
       (if \<not> ok \<or> response_error p then Some None
        else do {
          q \<leftarrow> (if response_complete p then Some p else map_option snd (resp_finish p));
          Some (if \<not> response_complete q \<or> response_error q then None else Some (rsp_response q))
        })
     }"

definition l2_store ::
  "llhttp_execute \<Rightarrow> nat \<Rightarrow> 'd kv_ops \<Rightarrow> pb_runtime \<Rightarrow> int \<Rightarrow> string \<Rightarrow> string \<Rightarrow> 'd \<Rightarrow> (bool \<times> 'd) option" where
  "l2_store execute start kv rt now cache_key upstream_response db =
     do {
       r \<leftarrow> parse_complete execute start upstream_response;
       Some (case r of
               None \<Rightarrow> (False, db)
             | Some resp \<Rightarrow>
                 if rs_status_code resp < 200 \<or> rs_status_code resp \<ge> 300 then (False, db)
                 else case serialize_to_string rt (make_entry now resp) of
                        None \<Rightarrow> (False, db)
                      | Some serialized \<Rightarrow> kv_put kv cache_key serialized db)
     }"

definition l2_erase :: "'d kv_ops \<Rightarrow> string \<Rightarrow> 'd \<Rightarrow> bool \<times> 'd" where
  "l2_erase kv cache_key db = kv_delete kv cache_key db"

text \<open>A persistent cache that has been opened or not; opening may fail and then leaves it as it was.\<close>

definition l2_open :: "(string \<Rightarrow> 'd option) \<Rightarrow> string \<Rightarrow> 'd option \<Rightarrow> bool \<times> 'd option" where
  "l2_open open_db db_path p = (case open_db db_path of None \<Rightarrow> (False, p) | Some db \<Rightarrow> (True, Some db))"

definition l2_ready :: "'d option \<Rightarrow> bool" where
  "l2_ready p \<longleftrightarrow> p \<noteq> None"

section \<open>What is relied on\<close>

definition kv_law :: "'d kv_ops \<Rightarrow> bool" where
  "kv_law kv \<longleftrightarrow>
     (\<forall>k v d d'. kv_put kv k v d = (True, d') \<longrightarrow> (\<forall>j. kv_get kv j d' = (if j = k then Some v else kv_get kv j d)))"

section \<open>Lemmas\<close>

lemma entry_header_keeps [simp]:
  "ce_status_code (entry_header kv e) = ce_status_code e" "ce_reason_phrase (entry_header kv e) = ce_reason_phrase e"
  "ce_stored_at (entry_header kv e) = ce_stored_at e" "ce_ttl (entry_header kv e) = ce_ttl e"
  "ce_headers (entry_header kv e) = ce_headers e @ [kv]"
  by (simp_all add: entry_header_def Let_def)

lemma fold_entry_header:
  "ce_status_code (fold entry_header hs e) = ce_status_code e" "ce_reason_phrase (fold entry_header hs e) = ce_reason_phrase e"
  "ce_stored_at (fold entry_header hs e) = ce_stored_at e" "ce_ttl (fold entry_header hs e) = ce_ttl e"
  "ce_headers (fold entry_header hs e) = ce_headers e @ hs"
  by (induction hs arbitrary: e) simp_all

lemma make_entry_simps [simp]:
  "ce_status_code (make_entry now resp) = word_of_int (rs_status_code resp)"
  "ce_reason_phrase (make_entry now resp) = rs_reason_phrase resp"
  "ce_stored_at (make_entry now resp) = now" "ce_ttl (make_entry now resp) = compute_ttl resp"
  "ce_headers (make_entry now resp) = rs_headers resp" "ce_body (make_entry now resp) = rs_body resp"
  by (simp_all add: make_entry_def fold_entry_header cache_entry_empty_def)

lemma append_entry_headers_spec:
  "append_entry_headers hs (out, b) =
     (out @ header_lines (filter (\<lambda>h. \<not> is_hop_by_hop_header (to_lower_ascii (fst h))) hs),
      b \<or> (\<exists>h \<in> set hs. to_lower_ascii (fst h) = ''content-length''))"
proof (induction hs "(out, b)" arbitrary: out b rule: append_entry_headers.induct)
  case (2 key v hs out b)
  then show ?case by (auto simp: is_hop_by_hop_header_def)
qed simp

text \<open>The headers of a response rebuilt from the cache.\<close>

definition cached_headers :: "(string \<times> string) list \<Rightarrow> string \<Rightarrow> (string \<times> string) list" where
  "cached_headers hs body =
     filter (\<lambda>h. \<not> is_hop_by_hop_header (to_lower_ascii (fst h))) hs @
     (if \<exists>h \<in> set hs. to_lower_ascii (fst h) = ''content-length'' then []
      else [(''Content-Length'', to_string (length body))])"

lemma rebuild_lines:
  "rebuild_response e =
     (''HTTP/1.1 '' @ to_string (unat (ce_status_code e)) @ '' '' @ ce_reason_phrase e) @ CRLF @
     header_lines (cached_headers (ce_headers e) (ce_body e)) @ CRLF @ ce_body e"
  by (simp add: rebuild_response_def append_entry_headers_spec cached_headers_def)

lemma rebuild_reads_back:
  assumes "plain (ce_reason_phrase e)" and "\<forall>h \<in> set (ce_headers e). clean_header h"
  shows "read_message (rebuild_response e) =
     Some (''HTTP/1.1 '' @ to_string (unat (ce_status_code e)) @ '' '' @ ce_reason_phrase e,
       cached_headers (ce_headers e) (ce_body e), ce_body e)"
proof -
  have "plain (''HTTP/1.1 '' @ to_string (unat (ce_status_code e)) @ '' '' @ ce_reason_phrase e)"
    using assms(1) by (simp add: CR_def LF_def)
  moreover have "\<forall>h \<in> set (cached_headers (ce_headers e) (ce_body e)). clean_header h"
    using assms(2) by (auto simp: cached_headers_def clean_header_def CR_def LF_def hd_to_string)
  ultimately show ?thesis by (simp only: rebuild_lines read_message_lines)
qed

lemma l2_store_True:
  assumes "l2_store execute start kv rt now key txt db = Some (True, db')"
  shows "\<exists>resp s. parse_complete execute start txt = Some (Some resp) \<and> 200 \<le> rs_status_code resp \<and>
     rs_status_code resp < 300 \<and> serialize_to_string rt (make_entry now resp) = Some s \<and> kv_put kv key s db = (True, db')"
  using assms by (auto simp: l2_store_def split: Option.bind_splits option.splits if_splits)

lemma stoll_digits_bounds: "-1 \<le> stoll_digits ds \<and> stoll_digits ds < 2 ^ 63"
proof -
  have "int (digits_val 0 ds) < 2 ^ 63" if "digits_val 0 ds < 2 ^ 63"
    using that by (metis of_nat_less_iff of_nat_numeral of_nat_power)
  then show ?thesis by (auto simp: stoll_digits_def Let_def)
qed

lemma max_age_bounds: "-1 \<le> max_age_from cc pos \<and> max_age_from cc pos < 2 ^ 63"
proof (induction cc pos rule: max_age_from.induct)
  case (1 cc pos)
  then show ?case
    using stoll_digits_bounds by (subst (1 2) max_age_from.simps) (auto simp: Let_def split: option.split)
qed

lemma max_age_first:
  assumes "n < 2 ^ 63" and "rest = [] \<or> \<not> isdigit (hd rest)"
  shows "parse_max_age (''max-age='' @ to_string n @ rest) = int n"
proof -
  have "takeWhile isdigit (to_string n @ rest) = to_string n"
    using assms(2) to_string_digits [of _ n] by (cases rest) (auto simp: takeWhile_append2)
  then show ?thesis
    using assms(1) by (subst parse_max_age_def, subst max_age_from.simps)
      (simp add: find_str_def stoll_digits_def)
qed

lemma compute_ttl_bounds: "0 \<le> compute_ttl resp \<and> compute_ttl resp < 2 ^ 63"
  using max_age_bounds by (auto simp: compute_ttl_def parse_max_age_def Let_def split: option.split)

lemma int64_id: "- (2 ^ 63) \<le> x \<Longrightarrow> x < 2 ^ 63 \<Longrightarrow> int64 x = x"
  by (simp add: int64_def signed_of_int signed_take_bit_int_eq_self)

lemma make_entry_fits:
  "int64 now = now \<Longrightarrow> entry_byte_size rt (make_entry now resp) \<le> size_limit \<Longrightarrow> entry_fits rt (make_entry now resp)"
  using compute_ttl_bounds [of resp] by (simp add: entry_fits_def int64_id)

section \<open>Properties\<close>


definition demo_execute :: llhttp_execute where
  "demo_execute p s =
     ([Message_begin, Status ''OK'', Headers_complete (p\<lparr>ll_status_code := 200\<rparr>), Body s, Message_complete], HPE_OK, p)"

definition demo_response :: response_info where
  "demo_response = response_info_empty\<lparr>rs_status_code := 200, rs_reason_phrase := ''OK'', rs_body := ''hi''\<rparr>"

definition demo_kv :: "(string \<rightharpoonup> string) kv_ops" where
  "demo_kv = \<lparr>kv_get = (\<lambda>k d. d k), kv_put = (\<lambda>k v d. (True, d(k \<mapsto> v))), kv_delete = (\<lambda>k d. (True, d(k := None)))\<rparr>"

definition demo_bytes :: string where
  "demo_bytes = entry_serialize wire_runtime (make_entry 100 demo_response)"

lemma demo_parse: "parse_complete demo_execute 0 ''hi'' = Some (Some demo_response)"
  by (simp add: parse_complete_def resp_parse_def demo_execute_def demo_response_def http_response_parser_new_def
      response_error_def response_complete_def resp_on_message_begin_def clear_response_runtime_def resp_on_status_def
      resp_on_headers_complete_def resp_finish_pending_header_def resp_post_process_headers_def resp_on_body_def
      resp_on_message_complete_def response_info_empty_def llhttp_should_keep_alive_def has_flag_def Let_def
      llhttp_init_def llhttp_internal_init_def HPE_OK_def)

lemma demo_make_entry:
  "make_entry 100 demo_response = cache_entry_empty\<lparr>ce_status_code := 200, ce_reason_phrase := ''OK'', ce_stored_at := 100,
     ce_ttl := 3600, ce_body := ''hi''\<rparr>"
  by (simp add: make_entry_def demo_response_def response_info_empty_def compute_ttl_def)

lemma demo_entry_small: "entry_byte_size wire_runtime (make_entry 100 demo_response) = 16"
  by (simp add: demo_make_entry cache_entry_empty_def entry_byte_size_def wire_runtime_def delimited_size_def
      varint_bytes_cases)

lemma demo_entry_ascii: "entry_utf8 wire_runtime (make_entry 100 demo_response)"
  by (simp add: demo_make_entry cache_entry_empty_def entry_utf8_def utf8_field_def wire_runtime_def)

lemma demo_serialize: "serialize_to_string wire_runtime (make_entry 100 demo_response) = Some demo_bytes"
  by (simp add: serialize_to_string_def demo_entry_small demo_bytes_def) (simp add: wire_runtime_def)

lemma demo_decode: "parse_from_string wire_runtime demo_bytes e0 = Some (Some (make_entry 100 demo_response))"
  using entry_roundtrip(2) [OF wire_runtime_law make_entry_fits demo_serialize]
  by (simp add: demo_entry_ascii demo_entry_small size_limit_def int64_def)

lemma demo_store:
  "l2_store demo_execute 0 demo_kv wire_runtime 100 key ''hi'' Map.empty = Some (True, [key \<mapsto> demo_bytes])"
  by (simp add: l2_store_def demo_parse demo_serialize demo_kv_def) (simp add: demo_response_def)

lemma demo_kv_law: "kv_law demo_kv"
  by (simp add: kv_law_def demo_kv_def)


text \<open>The \<open>max-age\<close> directive is read exactly when it leads the header and fits 63 bits, and for every
  header the parsed value is between -1 and the largest 64-bit integer, so a time to live is never
  negative.\<close>

theorem max_age_read:
  "(n < 2 ^ 63 \<and> (rest = [] \<or> \<not> isdigit (hd rest)) \<longrightarrow> parse_max_age (''max-age='' @ to_string n @ rest) = int n) \<and>
   -1 \<le> parse_max_age cc \<and> parse_max_age cc < 2 ^ 63 \<and> 0 \<le> compute_ttl resp \<and> compute_ttl resp < 2 ^ 63"
  using max_age_first max_age_bounds [of cc 0] compute_ttl_bounds by (auto simp: parse_max_age_def)

theorem max_age_read_witness: "parse_max_age (''max-age='' @ to_string 60 @ '', public'') = 60"
  using max_age_read [of 60 "'', public''" "[]" response_info_empty] by (simp add: isdigit_def char_code_def)

text \<open>The \<open>Expires\<close> header has no effect: a response without a usable \<open>max-age\<close> is kept for one hour
  whatever its \<open>Expires\<close> header says, also when it already lies in the past.\<close>

theorem expires_header_ignored:
  assumes "case map_of (rs_headers resp) ''cache-control'' of None \<Rightarrow> True | Some cc \<Rightarrow> parse_max_age cc < 0"
  shows "compute_ttl resp = 3600 \<and>
    compute_ttl (resp\<lparr>rs_headers := (''expires'', when_expired) # rs_headers resp\<rparr>) = 3600"
  using assms by (simp add: compute_ttl_def Let_def split: option.splits)

theorem expires_header_ignored_witness:
  "compute_ttl (response_info_empty\<lparr>rs_headers := [(''expires'', ''Thu, 01 Jan 1970 00:00:00 GMT'')]\<rparr>) = 3600"
  using expires_header_ignored [of response_info_empty "''Thu, 01 Jan 1970 00:00:00 GMT''"]
  by (simp add: response_info_empty_def)

text \<open>Entity tags are compared after folding case and dropping quotes, so two tags that differ only
  in case validate each other and the client keeps a stale body.\<close>

theorem etag_case_folded:
  assumes "map_of (ri_headers req) ''if-none-match'' = Some tag" and "ce_etag e \<noteq> []"
    and "to_lower_ascii tag = to_lower_ascii (ce_etag e)"
  shows "check_not_modified req e"
  using assms by (simp add: check_not_modified_def)

theorem etag_case_folded_witness:
  "check_not_modified (request_info_empty\<lparr>ri_headers := [(''if-none-match'', ''Ab'')]\<rparr>) (cache_entry_empty\<lparr>ce_etag := ''aB''\<rparr>)"
  using etag_case_folded [of "request_info_empty\<lparr>ri_headers := [(''if-none-match'', ''Ab'')]\<rparr>" "''Ab''"
      "cache_entry_empty\<lparr>ce_etag := ''aB''\<rparr>"]
  by (simp add: to_lower_ascii_def tolower_def char_code_def char_of_def bit_0)

end
