(* ===== verification/Http_Cache.thy ===== *)
theory Http_Cache
  imports Memory_Cache Persistent_Cache
begin

text \<open>
  \<^verbatim>\<open>src/net/http/http_cache.h\<close> and \<^verbatim>\<open>.cpp\<close>: the memory cache in front of the persistent one. The
  arguments of the persistent cache (database, entry encoding, HTTP automaton, clock) are passed on.
\<close>

section \<open>Model\<close>

definition kL1MaxBodySize :: nat where "kL1MaxBodySize = 64 * 1024"

datatype lookup_status = kBypass | kMiss | kNotModified | kHit | kError

record lookup_result =
  lr_status :: lookup_status
  lr_cache_key :: string
  lr_response :: string
  lr_detail :: string

record 'd http_cache =
  ca_l2 :: "'d option"
  ca_l1 :: "(string, string) memory_cache"

definition string_size :: "string \<Rightarrow> u64" where
  "string_size s = of_nat (length s)"

definition http_cache_new :: "'d http_cache" where
  "http_cache_new = \<lparr>ca_l2 = None, ca_l1 = memory_cache_new 0 0 string_size\<rparr>"

definition cache_open :: "(string \<Rightarrow> 'd option) \<Rightarrow> string \<Rightarrow> 'd http_cache \<Rightarrow> bool \<times> 'd http_cache" where
  "cache_open open_db db_path c =
     (case l2_open open_db db_path None of
        (True, l2) \<Rightarrow> (True, c\<lparr>ca_l2 := l2\<rparr>)
      | (False, _) \<Rightarrow> (False, c))"

definition cache_ready :: "'d http_cache \<Rightarrow> bool" where
  "cache_ready c \<longleftrightarrow> l2_ready (ca_l2 c)"

definition configure_l1 :: "nat \<Rightarrow> u64 \<Rightarrow> 'd http_cache \<Rightarrow> 'd http_cache" where
  "configure_l1 entries bytes c = c\<lparr>ca_l1 := memory_cache_new entries bytes string_size\<rparr>"

definition is_cacheable_request :: "request_info \<Rightarrow> bool" where
  "is_cacheable_request req \<longleftrightarrow> \<not> ri_is_connect req \<and> ri_method req = ''GET''"

definition build_cache_key :: "request_info \<Rightarrow> string" where
  "build_cache_key req =
     ri_host req @ '':'' @ to_string (unat (ri_port req)) @ ''|'' @ ri_method req @ ''|'' @ ri_url req @
     (case map_of (ri_headers req) ''accept-encoding'' of None \<Rightarrow> [] | Some ae \<Rightarrow> ''|'' @ ae)"

definition cache_lookup ::
  "'d kv_ops \<Rightarrow> pb_runtime \<Rightarrow> int \<Rightarrow> request_info \<Rightarrow> 'd http_cache \<Rightarrow> lookup_result \<times> 'd http_cache" where
  "cache_lookup kv rt now req c =
     (let r0 = \<lparr>lr_status = kBypass, lr_cache_key = [], lr_response = [], lr_detail = []\<rparr>
      in if \<not> is_cacheable_request req then (r0, c)
         else let key = build_cache_key req; r1 = r0\<lparr>lr_cache_key := key\<rparr>
              in case ca_l2 c of
                   None \<Rightarrow> (r1\<lparr>lr_status := kError, lr_detail := ''cache module is not initialized''\<rparr>, c)
                 | Some db \<Rightarrow>
                     (case mc_with_value key (\<lambda>cached _. cached) [] (ca_l1 c) of
                        (True, cached, l1) \<Rightarrow> (r1\<lparr>lr_status := kHit, lr_response := cached\<rparr>, c\<lparr>ca_l1 := l1\<rparr>)
                      | (False, _, _) \<Rightarrow>
                          (case l2_lookup kv rt now key req db of
                             (L2_kMiss, _) \<Rightarrow> (r1\<lparr>lr_status := kMiss\<rparr>, c)
                           | (L2_kNotModified, t) \<Rightarrow> (r1\<lparr>lr_status := kNotModified, lr_response := t\<rparr>, c)
                           | (L2_kHit, t) \<Rightarrow>
                               (r1\<lparr>lr_status := kHit, lr_response := t\<rparr>,
                                if length t \<le> kL1MaxBodySize then c\<lparr>ca_l1 := mc_put key t (ca_l1 c)\<rparr> else c))))"

definition cache_store ::
  "llhttp_execute \<Rightarrow> nat \<Rightarrow> 'd kv_ops \<Rightarrow> pb_runtime \<Rightarrow> int \<Rightarrow> request_info \<Rightarrow> string \<Rightarrow> 'd http_cache \<Rightarrow>
   (bool \<times> 'd http_cache) option" where
  "cache_store execute start kv rt now req upstream_response c =
     (case ca_l2 c of
        None \<Rightarrow> Some (False, c)
      | Some db \<Rightarrow>
          if \<not> is_cacheable_request req then Some (False, c)
          else do {
            (ok, db') \<leftarrow> l2_store execute start kv rt now (build_cache_key req) upstream_response db;
            Some (if \<not> ok then (False, c\<lparr>ca_l2 := Some db'\<rparr>)
                  else (True, c\<lparr>ca_l2 := Some db',
                     ca_l1 := (if length upstream_response \<le> kL1MaxBodySize
                               then mc_put (build_cache_key req) upstream_response (ca_l1 c) else ca_l1 c)\<rparr>))
          })"

section \<open>Lemmas\<close>

definition cache_wf :: "'d http_cache \<Rightarrow> bool" where
  "cache_wf c \<longleftrightarrow> mc_wf (ca_l1 c)"

text \<open>All that the memory cache holds comes from the set \<open>S\<close> of keys with their responses.\<close>

definition l1_from :: "(string \<times> string) set \<Rightarrow> 'd http_cache \<Rightarrow> bool" where
  "l1_from S c \<longleftrightarrow> cache_wf c \<and> mc.vc_all (\<lambda>k v. (k, v) \<in> S) (ca_l1 c)"

lemma l1_with_value:
  assumes "mc_wf l1"
  shows "mc_with_value key (\<lambda>cached _. cached) [] l1 =
     (case map_of (lru_view l1) key of None \<Rightarrow> (False, [], l1) | Some v \<Rightarrow> (True, v, snd (mc_get key l1)))"
  by (simp add: mc_with_value_get [OF assms] mc_get_refines(1) [OF assms])

lemma l1_view_touch: "mc_wf c \<Longrightarrow> map_of (lru_view (snd (mc_get k c))) = map_of (lru_view c)"
  by (rule ext) (rule mc.view_touch)

lemma cache_lookup_cases:
  assumes "cache_wf c" and "is_cacheable_request req" and "ca_l2 c = Some db"
  defines "key \<equiv> build_cache_key req"
  shows "cache_lookup kv rt now req c =
     (case map_of (lru_view (ca_l1 c)) key of
        Some v \<Rightarrow> (\<lparr>lr_status = kHit, lr_cache_key = key, lr_response = v, lr_detail = []\<rparr>,
                   c\<lparr>ca_l1 := snd (mc_get key (ca_l1 c))\<rparr>)
      | None \<Rightarrow>
          (case l2_lookup kv rt now key req db of
             (L2_kMiss, _) \<Rightarrow> (\<lparr>lr_status = kMiss, lr_cache_key = key, lr_response = [], lr_detail = []\<rparr>, c)
           | (L2_kNotModified, t) \<Rightarrow> (\<lparr>lr_status = kNotModified, lr_cache_key = key, lr_response = t, lr_detail = []\<rparr>, c)
           | (L2_kHit, t) \<Rightarrow> (\<lparr>lr_status = kHit, lr_cache_key = key, lr_response = t, lr_detail = []\<rparr>,
                if length t \<le> kL1MaxBodySize then c\<lparr>ca_l1 := mc_put key t (ca_l1 c)\<rparr> else c)))"
  using assms(1-3)
  by (simp add: cache_lookup_def Let_def l1_with_value cache_wf_def key_def split: option.split prod.split l2_status.split)

lemma vc_all_mono: "mc.vc_all P l1 \<Longrightarrow> (\<And>k v. P k v \<Longrightarrow> Q k v) \<Longrightarrow> mc.vc_all Q l1"
  by (auto simp: mc.vc_all_def)

lemma l1_from_put:
  assumes "l1_from S c"
  shows "l1_from (insert (k, v) S) (c\<lparr>ca_l1 := mc_put k v (ca_l1 c), ca_l2 := l2\<rparr>)"
  using assms mc.all_put [of "ca_l1 c" "\<lambda>k' v'. (k', v') \<in> insert (k, v) S" k v] mc.put_invar [of "ca_l1 c" k v]
  by (auto simp: l1_from_def cache_wf_def intro: vc_all_mono)

lemma l1_from_mono: "l1_from S c \<Longrightarrow> S \<subseteq> T \<Longrightarrow> l1_from T c"
  by (auto simp: l1_from_def intro: vc_all_mono)

section \<open>Keys\<close>

lemma takeWhile_to: "b \<notin> set a \<Longrightarrow> takeWhile (\<lambda>c. c \<noteq> b) (a @ b # x) = a"
  by (induction a) auto

lemma split_at_bar:
  assumes "CHR ''|'' \<notin> set a" and "CHR ''|'' \<notin> set b" and "a @ CHR ''|'' # x = b @ CHR ''|'' # y"
  shows "a = b \<and> x = y"
proof -
  have "takeWhile (\<lambda>c. c \<noteq> CHR ''|'') (a @ CHR ''|'' # x) = a" "takeWhile (\<lambda>c. c \<noteq> CHR ''|'') (b @ CHR ''|'' # y) = b"
    using assms(1,2) by (simp_all add: takeWhile_to)
  with assms(3) have "a = b" by simp
  with assms(3) show ?thesis by simp
qed

lemma split_at_last_colon:
  assumes "a @ CHR '':'' # to_string m = b @ CHR '':'' # to_string n"
  shows "a = b \<and> m = n"
proof -
  have "rfind_char CHR '':'' (a @ CHR '':'' # to_string m) = Some (length a)"
    "rfind_char CHR '':'' (b @ CHR '':'' # to_string n) = Some (length b)"
    by (rule rfind_char_append [OF to_string_no_colon])+
  with assms have "length a = length b" by simp
  with assms show ?thesis by simp
qed

lemma bar_not_in_to_string [simp]: "CHR ''|'' \<notin> set (to_string n)"
  using to_string_digits [of "CHR ''|''" n] by (auto simp: isdigit_def char_code_def)

section \<open>Properties\<close>



text \<open>The bar is not escaped: a request for the URL \<open>/a|gzip\<close> and a request for \<open>/a\<close> that accepts
  \<open>gzip\<close> have the same key, so the first can be served the response of the second.\<close>

theorem cache_key_collision:
  "build_cache_key (r\<lparr>ri_url := u @ ''|'' @ e, ri_headers := []\<rparr>) =
   build_cache_key (r\<lparr>ri_url := u, ri_headers := [(''accept-encoding'', e)]\<rparr>)"
  by (simp add: build_cache_key_def)

section \<open>Runs of the cache\<close>

text \<open>The responses a run has stored successfully, and those the persistent cache has returned.\<close>

datatype cache_event = Stored request_info string | Promoted request_info string

definition l2_events :: "'d kv_ops \<Rightarrow> pb_runtime \<Rightarrow> int \<Rightarrow> request_info \<Rightarrow> 'd http_cache \<Rightarrow> cache_event list" where
  "l2_events kv rt now req c =
     (case ca_l2 c of
        None \<Rightarrow> []
      | Some db \<Rightarrow> (case l2_lookup kv rt now (build_cache_key req) req db of
                     (L2_kHit, t) \<Rightarrow> [Promoted req t] | _ \<Rightarrow> []))"

inductive cache_run ::
  "llhttp_execute \<Rightarrow> nat \<Rightarrow> 'd kv_ops \<Rightarrow> pb_runtime \<Rightarrow> 'd http_cache \<Rightarrow> cache_event list \<Rightarrow> 'd http_cache \<Rightarrow> bool"
  for execute start kv rt c0 where
  run_start: "cache_run execute start kv rt c0 [] c0"
| run_lookup: "cache_run execute start kv rt c0 evs c \<Longrightarrow> cache_lookup kv rt now req c = (r, c') \<Longrightarrow>
    cache_run execute start kv rt c0 (evs @ l2_events kv rt now req c) c'"
| run_store: "cache_run execute start kv rt c0 evs c \<Longrightarrow>
    cache_store execute start kv rt now req resp c = Some (ok, c') \<Longrightarrow>
    cache_run execute start kv rt c0 (evs @ (if ok then [Stored req resp] else [])) c'"

fun event_pair :: "cache_event \<Rightarrow> string \<times> string" where
  "event_pair (Stored req t) = (build_cache_key req, t)"
| "event_pair (Promoted req t) = (build_cache_key req, t)"

lemma l1_from_touch: "l1_from S c \<Longrightarrow> l1_from S (c\<lparr>ca_l1 := snd (mc_get k (ca_l1 c))\<rparr>)"
  using mc.touch_invar [of "ca_l1 c" k] mc.all_touch [of "ca_l1 c" _ k] by (auto simp: l1_from_def cache_wf_def)

lemma l1_from_l2 [simp]:
  "l1_from S (c\<lparr>ca_l2 := l2\<rparr>) \<longleftrightarrow> l1_from S c"
  "l1_from S (c\<lparr>ca_l2 := l2, ca_l1 := m\<rparr>) \<longleftrightarrow> l1_from S (c\<lparr>ca_l1 := m\<rparr>)"
  by (simp_all add: l1_from_def cache_wf_def)

lemma l1_from_put_only: "l1_from S c \<Longrightarrow> l1_from (insert (k, v) S) (c\<lparr>ca_l1 := mc_put k v (ca_l1 c)\<rparr>)"
  using l1_from_put [of S c k v "ca_l2 c"] by simp

lemma lookup_l1_from:
  assumes "l1_from S c"
  shows "l1_from (S \<union> event_pair ` set (l2_events kv rt now req c)) (snd (cache_lookup kv rt now req c))"
proof (cases "is_cacheable_request req \<and> ca_l2 c \<noteq> None")
  case False
  then have "snd (cache_lookup kv rt now req c) = c" by (auto simp: cache_lookup_def Let_def)
  then show ?thesis using assms by (simp add: l1_from_mono)
next
  case True
  then obtain db where db: "ca_l2 c = Some db" and ok: "is_cacheable_request req" by auto
  have wf: "cache_wf c" using assms by (simp add: l1_from_def)
  obtain st t where lk: "l2_lookup kv rt now (build_cache_key req) req db = (st, t)" by fastforce
  have put: "l1_from (insert (build_cache_key req, t) S) (c\<lparr>ca_l1 := mc_put (build_cache_key req) t (ca_l1 c)\<rparr>)"
    using assms by (rule l1_from_put_only)
  show ?thesis
    using cache_lookup_cases [OF wf ok db, of kv rt now] assms put
    by (auto simp: l2_events_def db lk split: option.split l2_status.split
        intro: l1_from_mono [OF assms] l1_from_mono [OF l1_from_touch [OF assms]])
qed

lemma store_l1_from:
  assumes "l1_from S c" and "cache_store execute start kv rt now req resp c = Some (ok, c')"
  shows "l1_from (if ok then insert (build_cache_key req, resp) S else S) c'"
  using assms l1_from_put_only [OF assms(1), of "build_cache_key req" resp] l1_from_mono [OF assms(1)]
  by (auto simp: cache_store_def subset_insertI split: option.splits Option.bind_splits if_splits)

lemma run_l1_from:
  assumes "cache_run execute start kv rt c0 evs c" and "l1_from {} c0"
  shows "l1_from (event_pair ` set evs) c"
  using assms
proof (induction rule: cache_run.induct)
  case (run_lookup evs c now req r c')
  then show ?case using lookup_l1_from [of "event_pair ` set evs" c kv rt now req] by (simp add: image_Un)
next
  case (run_store evs c now req resp ok c')
  have "l1_from (if ok then insert (build_cache_key req, resp) (event_pair ` set evs) else event_pair ` set evs) c'"
    using run_store.IH [OF run_store.prems] run_store.hyps(2) by (rule store_l1_from)
  then show ?case by (cases ok) simp_all
qed simp

lemma l1_from_configured: "l1_from {} (configure_l1 n b c)"
  by (simp add: l1_from_def cache_wf_def configure_l1_def mc.vc_all_def mc_wf_new)

text \<open>C17. No hit serves a response of another resource: in every run that starts from a configured cache, the
  response of a hit was stored by an earlier successful store whose request has the same key, or returned by the
  persistent cache, earlier or now, for a request with the same key.\<close>

theorem cache_hit_provenance:
  assumes "cache_run execute start kv rt (configure_l1 n b c0) evs c"
    and "cache_lookup kv rt now req c = (r, c')" and "lr_status r = kHit"
  shows "\<exists>req'. build_cache_key req' = build_cache_key req \<and>
     (Stored req' (lr_response r) \<in> set evs \<or> Promoted req' (lr_response r) \<in> set (evs @ l2_events kv rt now req c))"
proof -
  have l1: "l1_from (event_pair ` set evs) c" using assms(1) l1_from_configured by (rule run_l1_from)
  have ok: "is_cacheable_request req" using assms(2,3) by (auto simp: cache_lookup_def Let_def split: if_splits)
  obtain db where db: "ca_l2 c = Some db"
    using assms(2,3) ok by (cases "ca_l2 c") (auto simp: cache_lookup_def Let_def)
  have orig: "\<exists>ev \<in> set evs. event_pair ev = (k, v)" if "map_of (lru_view (ca_l1 c)) k = Some v" for k v
    using l1 that by (fastforce simp: l1_from_def mc.vc_all_def)
  have ev: "\<exists>req'. build_cache_key req' = k \<and> (ev = Stored req' v \<or> ev = Promoted req' v)" if "event_pair ev = (k, v)" for ev k v
    using that by (cases ev) auto
  have cases: "map_of (lru_view (ca_l1 c)) (build_cache_key req) = Some (lr_response r) \<or>
      l2_lookup kv rt now (build_cache_key req) req db = (L2_kHit, lr_response r)"
    using cache_lookup_cases [OF _ ok db, of kv rt now] assms(2,3) l1
    by (auto simp: l1_from_def split: option.splits prod.splits l2_status.splits)
  then show ?thesis
  proof
    assume "map_of (lru_view (ca_l1 c)) (build_cache_key req) = Some (lr_response r)"
    from orig [OF this] ev show ?thesis by fastforce
  next
    assume "l2_lookup kv rt now (build_cache_key req) req db = (L2_kHit, lr_response r)"
    then show ?thesis by (auto simp: l2_events_def db)
  qed
qed

definition demo_get :: request_info where
  "demo_get = request_info_empty\<lparr>ri_method := ''GET'', ri_url := ''/a'', ri_host := ''h'', ri_port := 80\<rparr>"

definition demo_start :: "(string \<rightharpoonup> string) http_cache" where
  "demo_start = configure_l1 4 100 \<lparr>ca_l2 = Some Map.empty, ca_l1 = memory_cache_new 0 0 string_size\<rparr>"

definition demo_stored :: "(string \<rightharpoonup> string) http_cache" where
  "demo_stored = demo_start\<lparr>ca_l2 := Some [build_cache_key demo_get \<mapsto> demo_bytes],
     ca_l1 := mc_put (build_cache_key demo_get) ''hi'' (ca_l1 demo_start)\<rparr>"

lemma demo_cacheable: "is_cacheable_request demo_get"
  by (simp add: is_cacheable_request_def demo_get_def request_info_empty_def)

lemma demo_cache_store:
  "cache_store demo_execute 0 demo_kv wire_runtime 100 demo_get ''hi'' demo_start = Some (True, demo_stored)"
  by (simp add: cache_store_def demo_start_def configure_l1_def demo_cacheable demo_store demo_stored_def kL1MaxBodySize_def)

lemma demo_start_wf: "cache_wf demo_start"
  by (simp add: demo_start_def cache_wf_def configure_l1_def mc_wf_new)

lemma demo_run:
  "cache_run demo_execute 0 demo_kv wire_runtime demo_start [Stored demo_get ''hi''] demo_stored"
  using run_store [OF run_start demo_cache_store] by simp

lemma l1_after_put:
  assumes "cache_wf c" and "max_entries (ca_l1 c) \<noteq> 0" and "max_bytes (ca_l1 c) \<noteq> 0"
    and "weight_fn (ca_l1 c) v \<le> max_bytes (ca_l1 c)"
  shows "map_of (lru_view (mc_put k v (ca_l1 c))) k = Some v"
  using mc_get_after_put [of "ca_l1 c" v k] mc_get_refines(1) [of "mc_put k v (ca_l1 c)" k] mc_put_wf [of "ca_l1 c"] assms
  by (simp add: cache_wf_def)

lemma lookup_after_store:
  assumes wf: "cache_wf c" and "max_entries (ca_l1 c) \<noteq> 0" and "max_bytes (ca_l1 c) \<noteq> 0"
    and "weight_fn (ca_l1 c) resp \<le> max_bytes (ca_l1 c)" and "length resp \<le> kL1MaxBodySize"
    and st: "cache_store execute start kv rt now req resp c = Some (True, c')"
    and "is_cacheable_request req'" and "build_cache_key req' = build_cache_key req"
  shows "fst (cache_lookup kv rt now' req' c') =
     \<lparr>lr_status = kHit, lr_cache_key = build_cache_key req, lr_response = resp, lr_detail = []\<rparr>"
proof -
  obtain db' where c': "c' = c\<lparr>ca_l2 := Some db', ca_l1 := mc_put (build_cache_key req) resp (ca_l1 c)\<rparr>"
    using st assms(5) by (auto simp: cache_store_def split: option.splits Option.bind_splits if_splits)
  have "cache_wf c'" using wf by (simp add: c' cache_wf_def mc_put_wf)
  then show ?thesis
    using cache_lookup_cases [of c' req' db' kv rt now'] l1_after_put [OF assms(1-4)] assms(7,8) by (simp add: c')
qed

theorem cache_hit_provenance_witness:
  "\<exists>req'. build_cache_key req' = build_cache_key demo_get \<and>
     (Stored req' ''hi'' \<in> set [Stored demo_get ''hi''] \<or>
      Promoted req' ''hi'' \<in> set ([Stored demo_get ''hi''] @ l2_events demo_kv wire_runtime 5 demo_get demo_stored))"
proof -
  have "fst (cache_lookup demo_kv wire_runtime 5 demo_get demo_stored) =
      \<lparr>lr_status = kHit, lr_cache_key = build_cache_key demo_get, lr_response = ''hi'', lr_detail = []\<rparr>"
    by (rule lookup_after_store [OF demo_start_wf _ _ _ _ demo_cache_store demo_cacheable])
      (simp_all add: demo_start_def configure_l1_def string_size_def kL1MaxBodySize_def)
  then obtain c' where "cache_lookup demo_kv wire_runtime 5 demo_get demo_stored =
      (\<lparr>lr_status = kHit, lr_cache_key = build_cache_key demo_get, lr_response = ''hi'', lr_detail = []\<rparr>, c')"
    by (metis prod.collapse)
  from cache_hit_provenance [OF demo_run [unfolded demo_start_def] this] show ?thesis by simp
qed

text \<open>The memory cache never looks at the age of a response or at the conditional headers: after a successful store of a
  response that fits, a request with the same key gets that response, verbatim and as a full hit, at every later time,
  also after the persistent entry has expired and also when its validators match.\<close>

theorem l1_hit_ignores_age:
  assumes "cache_wf c" and "max_entries (ca_l1 c) \<noteq> 0" and "max_bytes (ca_l1 c) \<noteq> 0"
    and "weight_fn (ca_l1 c) resp \<le> max_bytes (ca_l1 c)" and "length resp \<le> kL1MaxBodySize"
    and "cache_store execute start kv rt now req resp c = Some (True, c')"
    and "is_cacheable_request req'" and "build_cache_key req' = build_cache_key req"
  shows "fst (cache_lookup kv rt now' req' c') =
     \<lparr>lr_status = kHit, lr_cache_key = build_cache_key req, lr_response = resp, lr_detail = []\<rparr>"
  using assms by (rule lookup_after_store)

theorem l1_hit_ignores_age_witness:
  "lr_status (fst (cache_lookup demo_kv wire_runtime 1000000 demo_get demo_stored)) = kHit \<and>
   l2_lookup demo_kv wire_runtime 1000000 (build_cache_key demo_get) demo_get [build_cache_key demo_get \<mapsto> demo_bytes] = (L2_kMiss, [])"
proof -
  have "fst (cache_lookup demo_kv wire_runtime 1000000 demo_get demo_stored) =
      \<lparr>lr_status = kHit, lr_cache_key = build_cache_key demo_get, lr_response = ''hi'', lr_detail = []\<rparr>"
    by (rule l1_hit_ignores_age [OF demo_start_wf _ _ _ _ demo_cache_store demo_cacheable])
      (simp_all add: demo_start_def configure_l1_def string_size_def kL1MaxBodySize_def)
  moreover have "l2_lookup demo_kv wire_runtime 1000000 key req [key \<mapsto> demo_bytes] = (L2_kMiss, [])" for key req
    by (simp add: l2_lookup_def demo_kv_def demo_decode is_fresh_def int64_def compute_ttl_def demo_response_def
        response_info_empty_def)
  ultimately show ?thesis by simp
qed

lemma put_disabled: "max_entries c = 0 \<or> max_bytes c = 0 \<Longrightarrow> lru_view c = [] \<Longrightarrow> mc_wf c \<Longrightarrow> mc_put k v c = c"
  by (auto simp: mc_put_def do_put_def)

text \<open>With the memory cache off, which is the state after construction, the two-level cache is the persistent
  cache behind the cacheability test: a lookup returns what the persistent lookup returns and changes nothing.\<close>

theorem cache_without_l1_is_l2:
  assumes "cache_wf c" and "lru_view (ca_l1 c) = []" and "max_entries (ca_l1 c) = 0 \<or> max_bytes (ca_l1 c) = 0"
    and "is_cacheable_request req" and "ca_l2 c = Some db"
  shows "cache_lookup kv rt now req c =
     (case l2_lookup kv rt now (build_cache_key req) req db of (st, t) \<Rightarrow>
        (\<lparr>lr_status = (case st of L2_kMiss \<Rightarrow> kMiss | L2_kNotModified \<Rightarrow> kNotModified | L2_kHit \<Rightarrow> kHit),
          lr_cache_key = build_cache_key req, lr_response = (if st = L2_kMiss then [] else t), lr_detail = []\<rparr>, c))"
  using cache_lookup_cases [OF assms(1,4,5), of kv rt now] put_disabled [OF assms(3,2)] assms(1,2)
  by (simp add: cache_wf_def split: prod.split l2_status.split)

theorem cache_without_l1_is_l2_witness:
  "cache_lookup demo_kv wire_runtime 5 demo_get (http_cache_new\<lparr>ca_l2 := Some Map.empty\<rparr>) =
    (\<lparr>lr_status = kMiss, lr_cache_key = build_cache_key demo_get, lr_response = [], lr_detail = []\<rparr>,
     http_cache_new\<lparr>ca_l2 := Some Map.empty\<rparr>)"
  using cache_without_l1_is_l2 [of "http_cache_new\<lparr>ca_l2 := Some Map.empty\<rparr>" demo_get Map.empty demo_kv wire_runtime 5]
  by (simp add: http_cache_new_def cache_wf_def mc_wf_new demo_cacheable l2_lookup_def demo_kv_def)

end
