(* ===== verification/Proxy_Io.thy ===== *)
theory Proxy_Io
  imports Connection_Io
begin

text \<open>
  The input and output helpers of \<^verbatim>\<open>src/net/proxy/http_proxy.cpp\<close>: reading until a socket would block, flushing
  a buffer, sending a whole message, waiting for one descriptor and connecting to an upstream. The system calls are
  the fields of the argument \<open>sys\<close>; they act on a kernel state \<open>'k\<close>, and a state of these functions is the value of
  \<^verbatim>\<open>errno\<close> with a kernel state. Logging is left out.
\<close>

section \<open>System calls\<close>

datatype 'k ps = Ps (ps_errno: errno) (ps_k: 'k)

record ('a, 'k) sys =
  sys_recv :: "'k recv_call"
  sys_send :: "'k send_call"
  sys_poll :: "(fd \<times> u16) list \<Rightarrow> int \<Rightarrow> 'k \<Rightarrow> (errno + u16 list) \<times> 'k"
  sys_shutdown :: "fd \<Rightarrow> 'k \<Rightarrow> (errno + unit) \<times> 'k"
  sys_epoll_create :: "'k \<Rightarrow> (errno + fd) \<times> 'k"
  sys_epoll_ctl :: "'k epoll_ctl"
  sys_epoll_wait :: "fd \<Rightarrow> int \<Rightarrow> int \<Rightarrow> 'k \<Rightarrow> (errno + (fd \<times> u32) list) \<times> 'k"
  sys_socket :: "'a \<Rightarrow> 'k \<Rightarrow> (errno + fd) \<times> 'k"
  sys_connect :: "fd \<Rightarrow> 'a \<Rightarrow> 'k \<Rightarrow> (errno + unit) \<times> 'k"
  sys_so_error :: "fd \<Rightarrow> 'k \<Rightarrow> (errno + errno) \<times> 'k"
  sys_getaddrinfo :: "string \<Rightarrow> string \<Rightarrow> 'k \<Rightarrow> 'a list option \<times> 'k"
  sys_close :: "fd \<Rightarrow> 'k \<Rightarrow> 'k"

text \<open>A failing call sets \<^verbatim>\<open>errno\<close>; a successful one leaves it.\<close>

definition syscall :: "('k \<Rightarrow> (errno + 'b) \<times> 'k) \<Rightarrow> 'k ps \<Rightarrow> (errno + 'b) \<times> 'k ps" where
  "syscall call s = (case call (ps_k s) of (Inl e, k) \<Rightarrow> (Inl e, Ps e k) | (Inr v, k) \<Rightarrow> (Inr v, Ps (ps_errno s) k))"

definition call_recv :: "('a, 'k) sys \<Rightarrow> fd \<Rightarrow> nat \<Rightarrow> 'k ps \<Rightarrow> recv_result \<times> 'k ps" where
  "call_recv sys f n s =
     (case sys_recv sys f n (ps_k s) of (Received d, k) \<Rightarrow> (Received d, Ps (ps_errno s) k) | (Recv_failed e, k) \<Rightarrow> (Recv_failed e, Ps e k))"

definition call_send :: "('a, 'k) sys \<Rightarrow> fd \<Rightarrow> string \<Rightarrow> 'k ps \<Rightarrow> send_result \<times> 'k ps" where
  "call_send sys f d s =
     (case sys_send sys f d (ps_k s) of (Sent n, k) \<Rightarrow> (Sent n, Ps (ps_errno s) k) | (Send_failed e, k) \<Rightarrow> (Send_failed e, Ps e k))"

definition call_close :: "('a, 'k) sys \<Rightarrow> fd \<Rightarrow> 'k ps \<Rightarrow> 'k ps" where
  "call_close sys f s = Ps (ps_errno s) (sys_close sys f (ps_k s))"

section \<open>Model\<close>

definition kIoBufferSize :: nat where "kIoBufferSize = 8192"

definition kIoTimeoutMs :: int where "kIoTimeoutMs = 20000"

text \<open>The result: success, the buffer, the end-of-stream flag, and the state.\<close>

partial_function (option) append_nonblocking_read ::
  "('a, 'k) sys \<Rightarrow> fd \<Rightarrow> string \<Rightarrow> bool \<Rightarrow> 'k ps \<Rightarrow> (bool \<times> string \<times> bool \<times> 'k ps) option" where
  "append_nonblocking_read sys f out eof s =
     (case call_recv sys f kIoBufferSize s of
        (Received d, s') \<Rightarrow>
          if d \<noteq> [] then append_nonblocking_read sys f (out @ d) eof s' else Some (True, out, True, s')
      | (Recv_failed e, s') \<Rightarrow>
          if e = EINTR then append_nonblocking_read sys f out eof s'
          else if e = EAGAIN \<or> e = EWOULDBLOCK then Some (True, out, eof, s')
          else Some (False, out, eof, s'))"

definition append_nonblocking_read_sock ::
  "('a, 'k) sys \<Rightarrow> socket_ops \<Rightarrow> string \<Rightarrow> bool \<Rightarrow> 'k ps \<Rightarrow> (bool \<times> string \<times> bool \<times> 'k ps) option" where
  "append_nonblocking_read_sock sys sock out eof s = append_nonblocking_read sys (so_fd sock) out eof s"

partial_function (option) flush_nonblocking ::
  "('a, 'k) sys \<Rightarrow> fd \<Rightarrow> string \<Rightarrow> nat \<Rightarrow> 'k ps \<Rightarrow> (bool \<times> string \<times> nat \<times> 'k ps) option" where
  "flush_nonblocking sys f buf offset s =
     (if offset < length buf then
        (case call_send sys f (drop offset buf) s of
           (Sent n, s') \<Rightarrow> if n > 0 then flush_nonblocking sys f buf (offset + n) s' else Some (False, buf, offset, s')
         | (Send_failed e, s') \<Rightarrow>
             if e = EINTR then flush_nonblocking sys f buf offset s'
             else if e = EAGAIN \<or> e = EWOULDBLOCK then Some (True, buf, offset, s')
             else Some (False, buf, offset, s'))
      else Some (True, [], 0, s))"

definition flush_nonblocking_sock ::
  "('a, 'k) sys \<Rightarrow> socket_ops \<Rightarrow> string \<Rightarrow> nat \<Rightarrow> 'k ps \<Rightarrow> (bool \<times> string \<times> nat \<times> 'k ps) option" where
  "flush_nonblocking_sock sys sock buf offset s = flush_nonblocking sys (so_fd sock) buf offset s"

text \<open>\<^verbatim>\<open>send_all_nonblocking_socket\<close>, with the function that waits as an argument.\<close>

partial_function (option) send_all_loop ::
  "('a, 'k) sys \<Rightarrow> ('k ps \<Rightarrow> (bool \<times> 'k ps) option) \<Rightarrow> fd \<Rightarrow> string \<Rightarrow> nat \<Rightarrow> 'k ps \<Rightarrow>
   (bool \<times> 'k ps) option" where
  "send_all_loop sys wait_fn f data offset s =
     (if offset < length data then
        (case call_send sys f (drop offset data) s of
           (Sent n, s') \<Rightarrow> if n > 0 then send_all_loop sys wait_fn f data (offset + n) s' else Some (False, s')
         | (Send_failed e, s') \<Rightarrow>
             if e = EINTR then send_all_loop sys wait_fn f data offset s'
             else if e = EAGAIN \<or> e = EWOULDBLOCK then
               do {
                 (ok, s2) \<leftarrow> wait_fn s';
                 (if \<not> ok then Some (False, s2) else send_all_loop sys wait_fn f data offset s2)
               }
             else Some (False, s'))
      else Some (True, s))"

text \<open>The loop of \<^verbatim>\<open>wait_fd\<close>; its value is the event mask of the ready event, 0 when there is none.\<close>

partial_function (option) wait_loop ::
  "('a, 'k) sys \<Rightarrow> poller \<Rightarrow> 'k ps \<Rightarrow> (u32 \<times> 'k ps) option" where
  "wait_loop sys p s =
     (case syscall (poller_wait (sys_epoll_wait sys) True 1 kIoTimeoutMs p) s of
        (Inr (ev # _), s') \<Rightarrow> Some (snd ev, s')
      | (Inr [], s') \<Rightarrow> Some (0, Ps ETIMEDOUT (ps_k s'))
      | (Inl e, s') \<Rightarrow> if e = EINTR then wait_loop sys p s' else Some (0, s'))"

definition wait_fd :: "('a, 'k) sys \<Rightarrow> fd \<Rightarrow> u32 \<Rightarrow> 'k ps \<Rightarrow> (bool \<times> 'k ps) option" where
  "wait_fd sys f events s =
     (case syscall (sys_epoll_create sys) s of
        (Inl e, s1) \<Rightarrow> Some (False, s1)
      | (Inr ep, s1) \<Rightarrow>
          let p = \<lparr>po_epoll_fd = ep\<rparr>
          in (case syscall (poller_add (sys_epoll_ctl sys) f events p) s1 of
                (Inl e, s2) \<Rightarrow> Some (False, call_close sys ep s2)
              | (Inr _, s2) \<Rightarrow>
                  do {
                    (ready, s3) \<leftarrow> wait_loop sys p s2;
                    let wait_errno = ps_errno s3;
                    let s4 = snd (syscall (poller_remove (sys_epoll_ctl sys) f p) s3);
                    Some (ready \<noteq> 0, call_close sys ep (Ps wait_errno (ps_k s4)))
                  }))"

definition send_all_nonblocking_socket ::
  "('a, 'k) sys \<Rightarrow> socket_ops \<Rightarrow> fd \<Rightarrow> string \<Rightarrow> 'k ps \<Rightarrow> (bool \<times> 'k ps) option" where
  "send_all_nonblocking_socket sys sock fd_for_wait data s =
     send_all_loop sys (wait_fd sys fd_for_wait EPOLLOUT) (so_fd sock) data 0 s"

definition send_all_nonblocking :: "('a, 'k) sys \<Rightarrow> fd \<Rightarrow> string \<Rightarrow> 'k ps \<Rightarrow> (bool \<times> 'k ps) option" where
  "send_all_nonblocking sys f data s = send_all_loop sys (wait_fd sys f EPOLLOUT) f data 0 s"

text \<open>The loop of \<^verbatim>\<open>connect_upstream\<close> over the addresses; a candidate that is not kept is closed.\<close>

fun try_addresses :: "('a, 'k) sys \<Rightarrow> 'a list \<Rightarrow> 'k ps \<Rightarrow> (socket_ops option \<times> 'k ps) option" where
  "try_addresses sys [] s = Some (None, s)"
| "try_addresses sys (ai # rest) s =
     (case syscall (sys_socket sys ai) s of
        (Inl e, s1) \<Rightarrow> try_addresses sys rest s1
      | (Inr cand, s1) \<Rightarrow>
          (case syscall (sys_connect sys cand ai) s1 of
             (Inr _, s2) \<Rightarrow> Some (Some (socket_ops_of cand), s2)
           | (Inl e, s2) \<Rightarrow>
               if e = EINPROGRESS then
                 do {
                   (ready, s3) \<leftarrow> wait_fd sys cand EPOLLOUT s2;
                   (if \<not> ready then try_addresses sys rest (call_close sys cand s3)
                    else case syscall (sys_so_error sys cand) s3 of
                           (Inl e', s4) \<Rightarrow> try_addresses sys rest (call_close sys cand s4)
                         | (Inr so_error, s4) \<Rightarrow>
                             if so_error = 0 then Some (Some (socket_ops_of cand), s4)
                             else try_addresses sys rest (call_close sys cand (Ps so_error (ps_k s4))))
                 }
               else try_addresses sys rest (call_close sys cand s2)))"

text \<open>The callers pass a socket that owns no descriptor, so the initial \<^verbatim>\<open>reset\<close> closes nothing.\<close>

definition connect_upstream ::
  "('a, 'k) sys \<Rightarrow> string \<Rightarrow> u16 \<Rightarrow> 'k ps \<Rightarrow> (socket_ops option \<times> 'k ps) option" where
  "connect_upstream sys host port s =
     (case sys_getaddrinfo sys host (to_string (unat port)) (ps_k s) of
        (None, k) \<Rightarrow> Some (None, Ps (ps_errno s) k)
      | (Some addrs, k) \<Rightarrow> try_addresses sys addrs (Ps (ps_errno s) k))"

section \<open>What is documented of the system calls\<close>

text \<open>What can be observed of a kernel state: the bytes received and accepted so far on each descriptor, and the open
  descriptors.\<close>

record 'k obs =
  ob_in :: "'k \<Rightarrow> fd \<Rightarrow> string"
  ob_out :: "'k \<Rightarrow> fd \<Rightarrow> string"
  ob_open :: "'k \<Rightarrow> fd set"

definition same_obs :: "'k obs \<Rightarrow> 'k \<Rightarrow> 'k \<Rightarrow> bool" where
  "same_obs ob k k' \<longleftrightarrow> ob_in ob k' = ob_in ob k \<and> ob_out ob k' = ob_out ob k \<and> ob_open ob k' = ob_open ob k"

lemma same_obs_refl [simp]: "same_obs ob k k"
  by (simp add: same_obs_def)

lemma same_obs_trans [trans]: "same_obs ob k1 k2 \<Longrightarrow> same_obs ob k2 k3 \<Longrightarrow> same_obs ob k1 k3"
  by (simp add: same_obs_def)

definition recv_law :: "('a, 'k) sys \<Rightarrow> 'k obs \<Rightarrow> bool" where
  "recv_law sys ob \<longleftrightarrow>
     (\<forall>f n k r k'. sys_recv sys f n k = (r, k') \<longrightarrow> ob_out ob k' = ob_out ob k \<and> ob_open ob k' = ob_open ob k \<and>
        ob_in ob k' = (case r of Received d \<Rightarrow> (ob_in ob k)(f := ob_in ob k f @ d) | Recv_failed _ \<Rightarrow> ob_in ob k))"

text \<open>\<^verbatim>\<open>send\<close> accepts a non-empty prefix of a non-empty message or nothing.\<close>

definition send_law :: "('a, 'k) sys \<Rightarrow> 'k obs \<Rightarrow> bool" where
  "send_law sys ob \<longleftrightarrow>
     (\<forall>f d k r k'. sys_send sys f d k = (r, k') \<longrightarrow> ob_in ob k' = ob_in ob k \<and> ob_open ob k' = ob_open ob k \<and>
        (case r of Sent n \<Rightarrow> n \<le> length d \<and> ob_out ob k' = (ob_out ob k)(f := ob_out ob k f @ take n d)
         | Send_failed _ \<Rightarrow> ob_out ob k' = ob_out ob k))"

text \<open>A new descriptor was not open before; a new socket has received and sent nothing.\<close>

definition open_law :: "('a, 'k) sys \<Rightarrow> 'k obs \<Rightarrow> bool" where
  "open_law sys ob \<longleftrightarrow>
     (\<forall>ai k f k'. sys_socket sys ai k = (Inr f, k') \<longrightarrow> f \<ge> 0 \<and> f \<notin> ob_open ob k \<and> ob_open ob k' = insert f (ob_open ob k) \<and>
        ob_in ob k' = (ob_in ob k)(f := []) \<and> ob_out ob k' = (ob_out ob k)(f := [])) \<and>
     (\<forall>k f k'. sys_epoll_create sys k = (Inr f, k') \<longrightarrow> f \<ge> 0 \<and> f \<notin> ob_open ob k \<and> ob_open ob k' = insert f (ob_open ob k) \<and>
        ob_in ob k' = ob_in ob k \<and> ob_out ob k' = ob_out ob k) \<and>
     (\<forall>k f. ob_open ob (sys_close sys f k) = ob_open ob k - {f} \<and> ob_in ob (sys_close sys f k) = ob_in ob k \<and>
        ob_out ob (sys_close sys f k) = ob_out ob k)"

text \<open>Every other call, and every failing one, changes none of this.\<close>

definition quiet_law :: "('a, 'k) sys \<Rightarrow> 'k obs \<Rightarrow> bool" where
  "quiet_law sys ob \<longleftrightarrow>
     (\<forall>fs t k. same_obs ob k (snd (sys_poll sys fs t k))) \<and>
     (\<forall>f k. same_obs ob k (snd (sys_shutdown sys f k))) \<and>
     (\<forall>k e k'. sys_epoll_create sys k = (Inl e, k') \<longrightarrow> same_obs ob k k') \<and>
     (\<forall>ep op f ev k. same_obs ob k (snd (sys_epoll_ctl sys ep op f ev k))) \<and>
     (\<forall>ep n t k. same_obs ob k (snd (sys_epoll_wait sys ep n t k))) \<and>
     (\<forall>ai k e k'. sys_socket sys ai k = (Inl e, k') \<longrightarrow> same_obs ob k k') \<and>
     (\<forall>f ai k. same_obs ob k (snd (sys_connect sys f ai k))) \<and>
     (\<forall>f k. same_obs ob k (snd (sys_so_error sys f k))) \<and>
     (\<forall>h p k. same_obs ob k (snd (sys_getaddrinfo sys h p k)))"

definition kernel_law :: "('a, 'k) sys \<Rightarrow> 'k obs \<Rightarrow> bool" where
  "kernel_law sys ob \<longleftrightarrow> recv_law sys ob \<and> send_law sys ob \<and> open_law sys ob \<and> quiet_law sys ob"

section \<open>Lemmas\<close>

lemma so_fd_socket_ops_of [simp]: "so_fd (socket_ops_of f) = f"
  by (simp add: socket_ops_of_def)

lemma syscall_same:
  assumes "\<And>k. same_obs ob k (snd (call k))" and "syscall call s = (r, s')"
  shows "same_obs ob (ps_k s) (ps_k s')"
  using assms(1) [of "ps_k s"] assms(2) by (auto simp: syscall_def split: prod.splits sum.splits)

lemma syscall_fails: "syscall call s = (Inl e, s') \<Longrightarrow> call (ps_k s) = (Inl e, ps_k s')"
  and syscall_ok: "syscall call s = (Inr v, s') \<Longrightarrow> call (ps_k s) = (Inr v, ps_k s')"
  by (auto simp: syscall_def split: prod.splits sum.splits)

lemma quiet_lawD:
  assumes "quiet_law sys ob"
  shows "same_obs ob k (snd (sys_poll sys fs t k))" "same_obs ob k (snd (sys_shutdown sys f k))"
    "same_obs ob k (snd (sys_epoll_ctl sys ep op f ev k))" "same_obs ob k (snd (sys_epoll_wait sys ep n t k))"
    "same_obs ob k (snd (sys_connect sys f ai k))" "same_obs ob k (snd (sys_so_error sys f k))"
    "same_obs ob k (snd (sys_getaddrinfo sys h p k))"
  using assms by (simp_all add: quiet_law_def)

lemma poller_same:
  assumes "quiet_law sys ob"
  shows "same_obs ob k (snd (poller_wait (sys_epoll_wait sys) b n t p k))"
    "same_obs ob k (snd (poller_add (sys_epoll_ctl sys) f ev p k))"
    "same_obs ob k (snd (poller_remove (sys_epoll_ctl sys) f p k))"
  using quiet_lawD [OF assms]
  by (simp_all add: poller_wait_def poller_add_def poller_remove_def poller_control_def)

lemma wait_loop_same:
  assumes "wait_loop sys p s = Some x" and "quiet_law sys ob"
  shows "same_obs ob (ps_k s) (ps_k (snd x))"
  using assms
proof (induction sys p s x rule: wait_loop.raw_induct [rotated 1, consumes 1, case_names step])
  case (step wait_loop sys p s x)
  obtain r s1 where c: "syscall (poller_wait (sys_epoll_wait sys) True 1 kIoTimeoutMs p) s = (r, s1)" by (rule prod.exhaust)
  from syscall_same [OF poller_same(1) [OF step.prems] c] step.hyps step.IH [of sys p s1 x] step.prems show ?case
    by (auto simp: c split: sum.splits list.splits if_splits intro: same_obs_trans)
qed

lemma call_close_obs:
  assumes "open_law sys ob"
  shows "ob_open ob (ps_k (call_close sys f s)) = ob_open ob (ps_k s) - {f}"
    "ob_in ob (ps_k (call_close sys f s)) = ob_in ob (ps_k s)" "ob_out ob (ps_k (call_close sys f s)) = ob_out ob (ps_k s)"
  using assms by (simp_all add: open_law_def call_close_def)

lemma wait_fd_same:
  assumes "kernel_law sys ob" and "wait_fd sys f events s = Some (b, s')"
  shows "same_obs ob (ps_k s) (ps_k s')"
proof -
  have q: "quiet_law sys ob" and o: "open_law sys ob" using assms(1) by (simp_all add: kernel_law_def)
  obtain r s1 where c1: "syscall (sys_epoll_create sys) s = (r, s1)" by (rule prod.exhaust)
  show ?thesis
  proof (cases r)
    case (Inl e)
    with c1 q have "same_obs ob (ps_k s) (ps_k s1)" by (auto simp: quiet_law_def dest!: syscall_fails)
    with assms(2) c1 Inl show ?thesis by (simp add: wait_fd_def)
  next
    case (Inr ep)
    from c1 Inr have "sys_epoll_create sys (ps_k s) = (Inr ep, ps_k s1)" by (simp add: syscall_ok)
    with o have new: "ep \<notin> ob_open ob (ps_k s)" "ob_open ob (ps_k s1) = insert ep (ob_open ob (ps_k s))"
      "ob_in ob (ps_k s1) = ob_in ob (ps_k s)" "ob_out ob (ps_k s1) = ob_out ob (ps_k s)"
      unfolding open_law_def by blast+
    obtain r2 s2 where c2: "syscall (poller_add (sys_epoll_ctl sys) f events \<lparr>po_epoll_fd = ep\<rparr>) s1 = (r2, s2)" by (rule prod.exhaust)
    have "\<exists>s3. s' = call_close sys ep s3 \<and> same_obs ob (ps_k s1) (ps_k s3)"
    proof (cases r2)
      case (Inl e)
      then show ?thesis
        using assms(2) c1 c2 Inr syscall_same [OF poller_same(2) [OF q] c2] by (auto simp: wait_fd_def)
    next
      case (Inr u)
      with assms(2) c1 c2 \<open>r = Inr ep\<close> obtain x where x: "wait_loop sys \<lparr>po_epoll_fd = ep\<rparr> s2 = Some x"
        "s' = call_close sys ep (Ps (ps_errno (snd x)) (ps_k (snd (syscall (poller_remove (sys_epoll_ctl sys) f \<lparr>po_epoll_fd = ep\<rparr>) (snd x)))))"
        by (auto simp: wait_fd_def Let_def split: Option.bind_splits prod.splits)
      obtain r4 s4 where c4: "syscall (poller_remove (sys_epoll_ctl sys) f \<lparr>po_epoll_fd = ep\<rparr>) (snd x) = (r4, s4)" by (rule prod.exhaust)
      have "same_obs ob (ps_k s1) (ps_k s4)"
        using syscall_same [OF poller_same(2) [OF q] c2] wait_loop_same [OF x(1) q] syscall_same [OF poller_same(3) [OF q] c4]
        by (blast intro: same_obs_trans)
      then show ?thesis using x(2) c4 by auto
    qed
    then show ?thesis using new by (auto simp: same_obs_def call_close_obs [OF o])
  qed
qed

text \<open>Between two states the bytes \<open>d\<close> were received on \<open>f\<close>, or accepted for sending on \<open>f\<close>, and nothing else happened.\<close>

definition adds_in :: "'k obs \<Rightarrow> fd \<Rightarrow> string \<Rightarrow> 'k \<Rightarrow> 'k \<Rightarrow> bool" where
  "adds_in ob f d k k' \<longleftrightarrow> ob_in ob k' = (ob_in ob k)(f := ob_in ob k f @ d) \<and> ob_out ob k' = ob_out ob k \<and> ob_open ob k' = ob_open ob k"

definition adds_out :: "'k obs \<Rightarrow> fd \<Rightarrow> string \<Rightarrow> 'k \<Rightarrow> 'k \<Rightarrow> bool" where
  "adds_out ob f d k k' \<longleftrightarrow> ob_out ob k' = (ob_out ob k)(f := ob_out ob k f @ d) \<and> ob_in ob k' = ob_in ob k \<and> ob_open ob k' = ob_open ob k"

lemma adds_in_Nil [simp]: "adds_in ob f [] = same_obs ob"
  by (auto simp: adds_in_def same_obs_def fun_eq_iff)

lemma adds_out_Nil [simp]: "adds_out ob f [] = same_obs ob"
  by (auto simp: adds_out_def same_obs_def fun_eq_iff)

lemma adds_in_append: "adds_in ob f d k1 k2 \<Longrightarrow> adds_in ob f d' k2 k3 \<Longrightarrow> adds_in ob f (d @ d') k1 k3"
  by (simp add: adds_in_def)

lemma adds_out_append: "adds_out ob f d k1 k2 \<Longrightarrow> adds_out ob f d' k2 k3 \<Longrightarrow> adds_out ob f (d @ d') k1 k3"
  by (simp add: adds_out_def)

lemma call_recv_obs:
  assumes "recv_law sys ob" and "call_recv sys f n s = (r, s')"
  shows "adds_in ob f (case r of Received d \<Rightarrow> d | Recv_failed _ \<Rightarrow> []) (ps_k s) (ps_k s')"
proof -
  obtain q k' where "sys_recv sys f n (ps_k s) = (q, k')" by (rule prod.exhaust)
  with assms(1) have "ob_out ob k' = ob_out ob (ps_k s) \<and> ob_open ob k' = ob_open ob (ps_k s) \<and>
      ob_in ob k' = (case q of Received d \<Rightarrow> (ob_in ob (ps_k s))(f := ob_in ob (ps_k s) f @ d) | Recv_failed _ \<Rightarrow> ob_in ob (ps_k s))"
    unfolding recv_law_def by blast
  moreover have "r = q" "ps_k s' = k'"
    using assms(2) \<open>sys_recv sys f n (ps_k s) = (q, k')\<close> by (cases q; auto simp: call_recv_def)+
  ultimately show ?thesis by (cases q) (simp_all add: adds_in_def same_obs_def)
qed

lemma call_send_obs:
  assumes "send_law sys ob" and "call_send sys f d s = (r, s')"
  shows "case r of Sent n \<Rightarrow> n \<le> length d \<and> adds_out ob f (take n d) (ps_k s) (ps_k s') | Send_failed _ \<Rightarrow> same_obs ob (ps_k s) (ps_k s')"
proof -
  obtain q k' where "sys_send sys f d (ps_k s) = (q, k')" by (rule prod.exhaust)
  with assms(1) have "ob_in ob k' = ob_in ob (ps_k s) \<and> ob_open ob k' = ob_open ob (ps_k s) \<and>
      (case q of Sent n \<Rightarrow> n \<le> length d \<and> ob_out ob k' = (ob_out ob (ps_k s))(f := ob_out ob (ps_k s) f @ take n d)
       | Send_failed _ \<Rightarrow> ob_out ob k' = ob_out ob (ps_k s))"
    unfolding send_law_def by blast
  moreover have "r = q" "ps_k s' = k'"
    using assms(2) \<open>sys_send sys f d (ps_k s) = (q, k')\<close> by (cases q; auto simp: call_send_def)+
  ultimately show ?thesis by (cases q) (simp_all add: adds_out_def same_obs_def)
qed

text \<open>Reading appends to the buffer what was received.\<close>

lemma append_read_obs:
  assumes "append_nonblocking_read sys f out eof s = Some x" and "recv_law sys ob"
  shows "\<exists>d. fst (snd x) = out @ d \<and> adds_in ob f d (ps_k s) (ps_k (snd (snd (snd x)))) \<and> (eof \<longrightarrow> fst (snd (snd x)))"
  using assms
proof (induction sys f out eof s x rule: append_nonblocking_read.raw_induct [rotated 1, consumes 1, case_names step])
  case (step rd sys f out eof s x)
  obtain r s1 where c: "call_recv sys f kIoBufferSize s = (r, s1)" by (rule prod.exhaust)
  note o = call_recv_obs [OF step.prems c]
  show ?case
  proof (cases r)
    case (Received d)
    show ?thesis
    proof (cases "d = []")
      case True
      then show ?thesis using step.hyps c Received o by auto
    next
      case False
      then have "rd sys f (out @ d) eof s1 = Some x" using step.hyps c Received by simp
      from step.IH [OF this step.prems] obtain d' where "fst (snd x) = (out @ d) @ d'"
        "adds_in ob f d' (ps_k s1) (ps_k (snd (snd (snd x))))" "eof \<longrightarrow> fst (snd (snd x))" by blast
      with o Received show ?thesis by (intro exI [of _ "d @ d'"]) (auto intro: adds_in_append)
    qed
  next
    case (Recv_failed e)
    show ?thesis
    proof (cases "e = EINTR")
      case True
      then have "rd sys f out eof s1 = Some x" using step.hyps c Recv_failed by simp
      from step.IH [OF this step.prems] o Recv_failed show ?thesis
        by (auto intro: adds_in_append [of ob f "[]", simplified])
    next
      case False
      then show ?thesis using step.hyps c Recv_failed o by (auto split: if_splits)
    qed
  qed
qed

text \<open>Flushing sends a prefix of what is pending; afterwards the buffer is empty or something is still pending.\<close>

lemma flush_obs:
  assumes "flush_nonblocking sys f buf offset s = Some x" and "send_law sys ob" and "offset \<le> length buf"
  shows "case x of (ok, buf', offset', s') \<Rightarrow>
    \<exists>sent. drop offset buf = sent @ drop offset' buf' \<and> adds_out ob f sent (ps_k s) (ps_k s') \<and>
      (buf' = [] \<and> offset' = 0 \<or> offset' < length buf')"
  using assms
proof (induction sys f buf offset s x rule: flush_nonblocking.raw_induct [rotated 1, consumes 1, case_names step])
  case (step fl sys f buf offset s x)
  show ?case
  proof (cases "offset < length buf")
    case False
    then show ?thesis using step.hyps step.prems(2) by auto
  next
    case True
    obtain r s1 where c: "call_send sys f (drop offset buf) s = (r, s1)" by (rule prod.exhaust)
    note o = call_send_obs [OF step.prems(1) c]
    show ?thesis
    proof (cases r)
      case (Sent n)
      show ?thesis
      proof (cases "n = 0")
        case True
        then show ?thesis using step.hyps c Sent o \<open>offset < length buf\<close> by auto
      next
        case False
        then have "fl sys f buf (offset + n) s1 = Some x" using step.hyps c Sent True by simp
        moreover have "offset + n \<le> length buf" using o Sent True by (simp add: le_diff_conv2 add.commute)
        moreover obtain ok buf' offset' s' where x: "x = (ok, buf', offset', s')" by (cases x)
        ultimately obtain sent where "drop (offset + n) buf = sent @ drop offset' buf'" "adds_out ob f sent (ps_k s1) (ps_k s')"
          "buf' = [] \<and> offset' = 0 \<or> offset' < length buf'"
          using step.IH [of sys f buf "offset + n" s1 x] step.prems(1) by auto
        moreover have "drop offset buf = take n (drop offset buf) @ drop (offset + n) buf"
          by (simp add: add.commute flip: drop_drop)
        ultimately show ?thesis using o Sent x
          by (auto intro!: exI [of _ "take n (drop offset buf) @ sent"] intro: adds_out_append)
      qed
    next
      case (Send_failed e)
      show ?thesis
      proof (cases "e = EINTR")
        case True
        then have "fl sys f buf offset s1 = Some x" using step.hyps c Send_failed \<open>offset < length buf\<close> by simp
        from step.IH [OF this step.prems] o Send_failed show ?thesis
          by (auto intro: adds_out_append [of ob f "[]", simplified])
      next
        case False
        then show ?thesis using step.hyps c Send_failed o \<open>offset < length buf\<close> by (auto split: if_splits)
      qed
    qed
  qed
qed

text \<open>Sending a message sends a prefix of it, and all of it on success.\<close>

lemma send_all_obs:
  assumes "send_all_loop sys wait_fn f data offset s = Some x" and "send_law sys ob" and "offset \<le> length data"
    and "\<forall>s b s'. wait_fn s = Some (b, s') \<longrightarrow> same_obs ob (ps_k s) (ps_k s')"
  shows "\<exists>n. adds_out ob f (take n (drop offset data)) (ps_k s) (ps_k (snd x)) \<and> (fst x \<longrightarrow> length data \<le> offset + n)"
  using assms
proof (induction sys wait_fn f data offset s x rule: send_all_loop.raw_induct [rotated 1, consumes 1, case_names step])
  case (step sa sys wait_fn f data offset s x)
  have again: "\<exists>n. adds_out ob f (take n (drop offset data)) (ps_k s) (ps_k (snd x)) \<and> (fst x \<longrightarrow> length data \<le> offset + n)"
    if "sa sys wait_fn f data offset s' = Some x" "same_obs ob (ps_k s) (ps_k s')" for s'
  proof -
    from step.IH [OF that(1) step.prems] obtain n where "adds_out ob f (take n (drop offset data)) (ps_k s') (ps_k (snd x))"
      "fst x \<longrightarrow> length data \<le> offset + n" by blast
    then show ?thesis using that(2) by (metis adds_out_Nil adds_out_append append_Nil)
  qed
  show ?case
  proof (cases "offset < length data")
    case False
    then show ?thesis using step.hyps by (intro exI [of _ 0]) auto
  next
    case True
    obtain r s1 where c: "call_send sys f (drop offset data) s = (r, s1)" by (rule prod.exhaust)
    note o = call_send_obs [OF step.prems(1) c]
    show ?thesis
    proof (cases r)
      case (Sent n)
      show ?thesis
      proof (cases "n = 0")
        case True
        then show ?thesis using step.hyps c Sent o \<open>offset < length data\<close> by (intro exI [of _ 0]) auto
      next
        case False
        then have "sa sys wait_fn f data (offset + n) s1 = Some x" using step.hyps c Sent True by simp
        moreover have "offset + n \<le> length data" using o Sent True by (simp add: le_diff_conv2 add.commute)
        ultimately obtain m where m: "adds_out ob f (take m (drop (offset + n) data)) (ps_k s1) (ps_k (snd x))"
          "fst x \<longrightarrow> length data \<le> offset + n + m"
          using step.IH [OF _ step.prems(1) _ step.prems(3)] by blast
        have "take (n + m) (drop offset data) = take n (drop offset data) @ take m (drop (offset + n) data)"
          by (simp only: take_add drop_drop add.commute [of n offset])
        with m o Sent show ?thesis by (intro exI [of _ "n + m"]) (auto intro: adds_out_append simp: add.assoc)
      qed
    next
      case (Send_failed e)
      consider "e = EINTR" | "e \<noteq> EINTR" "e = EAGAIN" | "e \<noteq> EINTR" "e \<noteq> EAGAIN" by blast
      then show ?thesis
      proof cases
        case 1
        then show ?thesis using step.hyps c Send_failed True again [of s1] o by simp
      next
        case 2
        with step.hyps c Send_failed True obtain ok s2 where w: "wait_fn s1 = Some (ok, s2)"
          and x: "(if \<not> ok then Some (False, s2) else sa sys wait_fn f data offset s2) = Some x"
          by (auto split: Option.bind_splits)
        have "same_obs ob (ps_k s) (ps_k s2)"
          using o Send_failed step.prems(3) w by (auto intro: same_obs_trans)
        then show ?thesis using x again [of s2] by (cases ok) (auto intro: exI [of _ 0])
      next
        case 3
        then show ?thesis using step.hyps c Send_failed True o
          by (intro exI [of _ 0]) (auto simp: EWOULDBLOCK_def EAGAIN_def)
      qed
    qed
  qed
qed

lemma wait_fd_quiet: "kernel_law sys ob \<Longrightarrow> \<forall>s b s'. wait_fd sys f ev s = Some (b, s') \<longrightarrow> same_obs ob (ps_k s) (ps_k s')"
  using wait_fd_same by blast

text \<open>Trying addresses leaves what was open as it was. It ends with no new open descriptor, or with one, for a socket on
  which nothing has been received or sent.\<close>

definition keeps_open :: "'k obs \<Rightarrow> fd set \<Rightarrow> 'k \<Rightarrow> 'k \<Rightarrow> bool" where
  "keeps_open ob F k k' \<longleftrightarrow> (\<forall>g \<in> F. ob_in ob k' g = ob_in ob k g \<and> ob_out ob k' g = ob_out ob k g)"

definition connected :: "'k obs \<Rightarrow> 'k \<Rightarrow> socket_ops option \<Rightarrow> 'k \<Rightarrow> bool" where
  "connected ob k r k' \<longleftrightarrow> keeps_open ob (ob_open ob k) k k' \<and>
     (case r of None \<Rightarrow> ob_open ob k' = ob_open ob k
      | Some sock \<Rightarrow> so_fd sock \<ge> 0 \<and> so_fd sock \<notin> ob_open ob k \<and> ob_open ob k' = insert (so_fd sock) (ob_open ob k) \<and>
          ob_in ob k' (so_fd sock) = [] \<and> ob_out ob k' (so_fd sock) = [])"

lemma connected_refl [simp]: "connected ob k None k"
  by (simp add: connected_def keeps_open_def)

lemma connected_after_same: "same_obs ob k k1 \<Longrightarrow> connected ob k1 r k' \<Longrightarrow> connected ob k r k'"
  by (auto simp: connected_def same_obs_def keeps_open_def split: option.splits)

lemma connected_same_after: "connected ob k r k1 \<Longrightarrow> same_obs ob k1 k' \<Longrightarrow> connected ob k r k'"
  by (auto simp: connected_def same_obs_def keeps_open_def split: option.splits)

lemma connected_trans: "connected ob k None k1 \<Longrightarrow> connected ob k1 r k' \<Longrightarrow> connected ob k r k'"
  by (auto simp: connected_def keeps_open_def split: option.splits)

lemma connected_close:
  assumes "open_law sys ob" and "connected ob k (Some (socket_ops_of f)) (ps_k s)"
  shows "connected ob k None (ps_k (call_close sys f s))"
  using assms(2) call_close_obs [OF assms(1), of f s] by (auto simp: connected_def keeps_open_def socket_ops_of_def)

lemma new_socket:
  assumes "open_law sys ob" and "syscall (sys_socket sys ai) s = (Inr f, s1)"
  shows "connected ob (ps_k s) (Some (socket_ops_of f)) (ps_k s1)"
proof -
  have "sys_socket sys ai (ps_k s) = (Inr f, ps_k s1)" using assms(2) by (rule syscall_ok)
  with assms(1) have "f \<ge> 0 \<and> f \<notin> ob_open ob (ps_k s) \<and> ob_open ob (ps_k s1) = insert f (ob_open ob (ps_k s)) \<and>
      ob_in ob (ps_k s1) = (ob_in ob (ps_k s))(f := []) \<and> ob_out ob (ps_k s1) = (ob_out ob (ps_k s))(f := [])"
    unfolding open_law_def by blast
  then show ?thesis by (auto simp: connected_def keeps_open_def socket_ops_of_def)
qed

lemma try_addresses_obs:
  assumes "kernel_law sys ob" and "try_addresses sys addrs s = Some (r, s')"
  shows "connected ob (ps_k s) r (ps_k s')"
  using assms(2)
proof (induction addrs arbitrary: s)
  case Nil
  then show ?case by simp
next
  case (Cons ai rest)
  have q: "quiet_law sys ob" and o: "open_law sys ob" using assms(1) by (simp_all add: kernel_law_def)
  obtain r1 s1 where c1: "syscall (sys_socket sys ai) s = (r1, s1)" by (rule prod.exhaust)
  show ?case
  proof (cases r1)
    case (Inl e)
    then have "same_obs ob (ps_k s) (ps_k s1)" using c1 q by (auto simp: quiet_law_def dest!: syscall_fails)
    then show ?thesis using Cons c1 Inl by (auto intro: connected_after_same)
  next
    case (Inr f)
    have new: "connected ob (ps_k s) (Some (socket_ops_of f)) (ps_k s1)" using new_socket [OF o] c1 Inr by simp
    have next_addr: "connected ob (ps_k s) r (ps_k s')"
      if "same_obs ob (ps_k s1) (ps_k s2)" "try_addresses sys rest (call_close sys f s2) = Some (r, s')" for s2
      using connected_trans [OF connected_close [OF o connected_same_after [OF new that(1)]] Cons.IH [OF that(2)]] .
    obtain r2 s2 where c2: "syscall (sys_connect sys f ai) s1 = (r2, s2)" by (rule prod.exhaust)
    note s2 = syscall_same [OF quiet_lawD(5) [OF q] c2]
    show ?thesis
    proof (cases "r2 = Inl EINPROGRESS")
      case True
      with Cons.prems c1 c2 Inr obtain ready s3 where w: "wait_fd sys f EPOLLOUT s2 = Some (ready, s3)"
        by (auto split: Option.bind_splits)
      have s3: "same_obs ob (ps_k s1) (ps_k s3)" using s2 wait_fd_same [OF assms(1) w] by (rule same_obs_trans)
      obtain r4 s4 where c4: "syscall (sys_so_error sys f) s3 = (r4, s4)" by (rule prod.exhaust)
      have s4: "same_obs ob (ps_k s1) (ps_k s4)" using s3 syscall_same [OF quiet_lawD(6) [OF q] c4] by (rule same_obs_trans)
      show ?thesis
        using Cons.prems c1 c2 Inr True w c4 next_addr [OF s3] next_addr [OF s4] next_addr [of "Ps so (ps_k s4)" for so] s4
          connected_same_after [OF new s4]
        by (auto split: if_splits sum.splits)
    next
      case False
      then show ?thesis using Cons.prems c1 c2 Inr next_addr [OF s2] connected_same_after [OF new s2]
        by (auto split: if_splits sum.splits)
    qed
  qed
qed

lemma connect_upstream_obs:
  assumes "kernel_law sys ob" and "connect_upstream sys host port s = Some (r, s')"
  shows "connected ob (ps_k s) r (ps_k s')"
proof -
  obtain addrs k where g: "sys_getaddrinfo sys host (to_string (unat port)) (ps_k s) = (addrs, k)" by (rule prod.exhaust)
  have "same_obs ob (ps_k s) k" using quiet_lawD(7) [of sys ob "ps_k s" host "to_string (unat port)"] assms(1) g
    by (simp add: kernel_law_def)
  moreover have "connected ob k r (ps_k s')"
    using assms(2) try_addresses_obs [OF assms(1), of _ "Ps (ps_errno s) k"]
    by (cases addrs) (auto simp: connect_upstream_def g)
  ultimately show ?thesis by (rule connected_after_same)
qed

section \<open>Termination\<close>

text \<open>The environment produces finitely many events: \<open>m\<close> bounds the number of chunks still to be received, of readiness
  reports and of interruptions. A call that would block, times out, fails or meets the end of the stream need not
  decrease it.\<close>

definition recv_event :: "recv_result \<Rightarrow> bool" where
  "recv_event r \<longleftrightarrow> (case r of Received d \<Rightarrow> d \<noteq> [] | Recv_failed e \<Rightarrow> e = EINTR)"

definition wait_event :: "errno + 'b list \<Rightarrow> bool" where
  "wait_event r \<longleftrightarrow> (case r of Inr evs \<Rightarrow> evs \<noteq> [] | Inl e \<Rightarrow> e = EINTR)"

definition poll_event :: "errno + u16 list \<Rightarrow> bool" where
  "poll_event r \<longleftrightarrow> (case r of Inr evs \<Rightarrow> \<exists>ev \<in> set evs. ev \<noteq> 0 | Inl e \<Rightarrow> e = EINTR)"

definition finite_law :: "('a, 'k) sys \<Rightarrow> ('k \<Rightarrow> nat) \<Rightarrow> bool" where
  "finite_law sys m \<longleftrightarrow>
     (\<forall>f n k r k'. sys_recv sys f n k = (r, k') \<longrightarrow> m k' \<le> m k \<and> (recv_event r \<longrightarrow> m k' < m k)) \<and>
     (\<forall>f d k r k'. sys_send sys f d k = (r, k') \<longrightarrow> m k' \<le> m k \<and> (r = Send_failed EINTR \<longrightarrow> m k' < m k)) \<and>
     (\<forall>ep n t k r k'. sys_epoll_wait sys ep n t k = (r, k') \<longrightarrow> m k' \<le> m k \<and> (wait_event r \<longrightarrow> m k' < m k)) \<and>
     (\<forall>fs t k r k'. sys_poll sys fs t k = (r, k') \<longrightarrow> m k' \<le> m k \<and> (poll_event r \<longrightarrow> m k' < m k)) \<and>
     (\<forall>f k. m (snd (sys_shutdown sys f k)) \<le> m k) \<and> (\<forall>k. m (snd (sys_epoll_create sys k)) \<le> m k) \<and>
     (\<forall>ep op f ev k. m (snd (sys_epoll_ctl sys ep op f ev k)) \<le> m k) \<and>
     (\<forall>ai k. m (snd (sys_socket sys ai k)) \<le> m k) \<and> (\<forall>f ai k. m (snd (sys_connect sys f ai k)) \<le> m k) \<and>
     (\<forall>f k. m (snd (sys_so_error sys f k)) \<le> m k) \<and> (\<forall>h p k. m (snd (sys_getaddrinfo sys h p k)) \<le> m k) \<and>
     (\<forall>f k. m (sys_close sys f k) \<le> m k)"

lemma finite_le:
  assumes "finite_law sys m"
  shows "m (snd (sys_shutdown sys f k)) \<le> m k" "m (snd (sys_epoll_create sys k)) \<le> m k"
    "m (snd (sys_epoll_ctl sys ep op f ev k)) \<le> m k" "m (snd (sys_socket sys ai k)) \<le> m k"
    "m (snd (sys_connect sys f ai k)) \<le> m k" "m (snd (sys_so_error sys f k)) \<le> m k"
    "m (snd (sys_getaddrinfo sys h p k)) \<le> m k" "m (sys_close sys f k) \<le> m k"
  using assms by (simp_all add: finite_law_def)

lemma syscall_le:
  assumes "\<And>k. m (snd (call k)) \<le> m k" and "syscall call s = (r, s')"
  shows "m (ps_k s') \<le> m (ps_k s)"
  using assms(1) [of "ps_k s"] assms(2) by (auto simp: syscall_def split: prod.splits sum.splits)

lemma finite_calls:
  assumes "finite_law sys m"
  shows "sys_recv sys f n k = (r, k') \<Longrightarrow> m k' \<le> m k \<and> (recv_event r \<longrightarrow> m k' < m k)"
    and "sys_send sys f d k = (q, k') \<Longrightarrow> m k' \<le> m k \<and> (q = Send_failed EINTR \<longrightarrow> m k' < m k)"
    and "sys_epoll_wait sys ep i t k = (w, k') \<Longrightarrow> m k' \<le> m k \<and> (wait_event w \<longrightarrow> m k' < m k)"
    and "sys_poll sys fs t k = (v, k') \<Longrightarrow> m k' \<le> m k \<and> (poll_event v \<longrightarrow> m k' < m k)"
proof -
  note l = assms [unfolded finite_law_def]
  show "sys_recv sys f n k = (r, k') \<Longrightarrow> m k' \<le> m k \<and> (recv_event r \<longrightarrow> m k' < m k)"
    using l [THEN conjunct1] by blast
  show "sys_send sys f d k = (q, k') \<Longrightarrow> m k' \<le> m k \<and> (q = Send_failed EINTR \<longrightarrow> m k' < m k)"
    using l [THEN conjunct2, THEN conjunct1] by blast
  show "sys_epoll_wait sys ep i t k = (w, k') \<Longrightarrow> m k' \<le> m k \<and> (wait_event w \<longrightarrow> m k' < m k)"
    using l [THEN conjunct2, THEN conjunct2, THEN conjunct1] by blast
  show "sys_poll sys fs t k = (v, k') \<Longrightarrow> m k' \<le> m k \<and> (poll_event v \<longrightarrow> m k' < m k)"
    using l [THEN conjunct2, THEN conjunct2, THEN conjunct2, THEN conjunct1] by blast
qed

lemma finite_recv:
  assumes "finite_law sys m" and "call_recv sys f n s = (r, s')"
  shows "m (ps_k s') \<le> m (ps_k s)" "recv_event r \<Longrightarrow> m (ps_k s') < m (ps_k s)"
proof -
  have "sys_recv sys f n (ps_k s) = (r, ps_k s')" using assms(2) by (auto simp: call_recv_def split: prod.splits recv_result.splits)
  from finite_calls(1) [OF assms(1) this] show "m (ps_k s') \<le> m (ps_k s)" "recv_event r \<Longrightarrow> m (ps_k s') < m (ps_k s)"
    by simp_all
qed

lemma finite_send:
  assumes "finite_law sys m" and "call_send sys f d s = (r, s')"
  shows "m (ps_k s') \<le> m (ps_k s)" "r = Send_failed EINTR \<Longrightarrow> m (ps_k s') < m (ps_k s)"
proof -
  have "sys_send sys f d (ps_k s) = (r, ps_k s')" using assms(2) by (auto simp: call_send_def split: prod.splits send_result.splits)
  from finite_calls(2) [OF assms(1) this] show "m (ps_k s') \<le> m (ps_k s)" "r = Send_failed EINTR \<Longrightarrow> m (ps_k s') < m (ps_k s)"
    by simp_all
qed

lemma finite_wait:
  assumes "finite_law sys m" and "syscall (poller_wait (sys_epoll_wait sys) True 1 t p) s = (r, s')"
  shows "m (ps_k s') \<le> m (ps_k s)" "wait_event r \<Longrightarrow> m (ps_k s') < m (ps_k s)"
proof -
  have "poller_wait (sys_epoll_wait sys) True 1 t p (ps_k s) = (r, ps_k s')"
    using assms(2) by (auto simp: syscall_def split: prod.splits sum.splits)
  then consider "r = Inl EBADF" "s' = s \<or> ps_k s' = ps_k s" | "sys_epoll_wait sys (po_epoll_fd p) 1 t (ps_k s) = (r, ps_k s')"
    by (auto simp: poller_wait_def split: if_splits)
  then have "m (ps_k s') \<le> m (ps_k s) \<and> (wait_event r \<longrightarrow> m (ps_k s') < m (ps_k s))"
  proof cases
    case 1
    then show ?thesis by (auto simp: wait_event_def EBADF_def EINTR_def)
  next
    case 2
    then show ?thesis by (rule finite_calls(3) [OF assms(1)])
  qed
  then show "m (ps_k s') \<le> m (ps_k s)" "wait_event r \<Longrightarrow> m (ps_k s') < m (ps_k s)" by blast+
qed

text \<open>What returns: a result, with no events left that were not there before.\<close>

lemma wait_loop_returns:
  assumes "finite_law sys m"
  shows "\<exists>ev s'. wait_loop sys p s = Some (ev, s') \<and> m (ps_k s') \<le> m (ps_k s) \<and> (ev \<noteq> 0 \<longrightarrow> m (ps_k s') < m (ps_k s))"
proof (induction "m (ps_k s)" arbitrary: s rule: less_induct)
  case less
  obtain r s1 where c: "syscall (poller_wait (sys_epoll_wait sys) True 1 kIoTimeoutMs p) s = (r, s1)" by (rule prod.exhaust)
  note w = finite_wait [OF assms c]
  show ?case
  proof (cases "r = Inl EINTR")
    case True
    then have lt: "m (ps_k s1) < m (ps_k s)" using w(2) by (simp add: wait_event_def)
    then show ?thesis using less [OF lt] True by (subst wait_loop.simps) (fastforce simp: c)
  next
    case False
    then show ?thesis using w by (subst wait_loop.simps)
      (auto simp: c wait_event_def split: sum.splits list.splits)
  qed
qed

lemma wait_fd_returns:
  assumes "finite_law sys m"
  shows "\<exists>b s'. wait_fd sys f events s = Some (b, s') \<and> m (ps_k s') \<le> m (ps_k s) \<and> (b \<longrightarrow> m (ps_k s') < m (ps_k s))"
proof -
  obtain r s1 where c1: "syscall (sys_epoll_create sys) s = (r, s1)" by (rule prod.exhaust)
  note m1 = syscall_le [where m = m, OF finite_le(2) [OF assms] c1]
  have ctl: "m (snd (poller_control (sys_epoll_ctl sys) op f ev p k)) \<le> m k" for op ev p k
    using finite_le(3) [OF assms] by (simp add: poller_control_def)
  have close: "m (ps_k (call_close sys g u)) \<le> m (ps_k u)" for g u
    using finite_le(8) [OF assms] by (simp add: call_close_def)
  show ?thesis
  proof (cases r)
    case (Inl e)
    then show ?thesis using c1 m1 by (auto simp: wait_fd_def)
  next
    case (Inr ep)
    obtain r2 s2 where c2: "syscall (poller_add (sys_epoll_ctl sys) f events \<lparr>po_epoll_fd = ep\<rparr>) s1 = (r2, s2)" by (rule prod.exhaust)
    have m2: "m (ps_k s2) \<le> m (ps_k s)" using syscall_le [where m = m, OF ctl c2 [unfolded poller_add_def]] m1 by simp
    obtain ev s3 where w: "wait_loop sys \<lparr>po_epoll_fd = ep\<rparr> s2 = Some (ev, s3)" "m (ps_k s3) \<le> m (ps_k s2)"
      "ev \<noteq> 0 \<longrightarrow> m (ps_k s3) < m (ps_k s2)"
      using wait_loop_returns [OF assms] by blast
    obtain r4 s4 where c4: "syscall (poller_remove (sys_epoll_ctl sys) f \<lparr>po_epoll_fd = ep\<rparr>) s3 = (r4, s4)" by (rule prod.exhaust)
    have m4: "m (ps_k s4) \<le> m (ps_k s3)" using syscall_le [where m = m, OF ctl c4 [unfolded poller_remove_def]] .
    show ?thesis
      using c1 c2 Inr w m2 m4 close [of ep s2] close [of ep "Ps (ps_errno s3) (ps_k s4)"]
      by (cases r2) (auto simp: wait_fd_def c4)
  qed
qed

lemma append_read_returns:
  assumes "finite_law sys m"
  shows "\<exists>ok out' eof' s'. append_nonblocking_read sys f out eof s = Some (ok, out', eof', s') \<and> m (ps_k s') \<le> m (ps_k s)"
proof (induction "m (ps_k s)" arbitrary: s out rule: less_induct)
  case less
  obtain r s1 where c: "call_recv sys f kIoBufferSize s = (r, s1)" by (rule prod.exhaust)
  note w = finite_recv [OF assms c]
  show ?case
  proof (cases "recv_event r")
    case True
    note IH = less [OF w(2) [OF True]]
    from True IH [of "case r of Received d \<Rightarrow> out @ d | Recv_failed _ \<Rightarrow> out"] w(1) show ?thesis
      by (subst append_nonblocking_read.simps) (force simp: c recv_event_def split: recv_result.splits)
  next
    case False
    then show ?thesis using w(1) by (subst append_nonblocking_read.simps) (auto simp: c recv_event_def split: recv_result.splits)
  qed
qed

lemma flush_returns:
  assumes "finite_law sys m"
  shows "\<exists>ok buf' offset' s'. flush_nonblocking sys f buf offset s = Some (ok, buf', offset', s') \<and> m (ps_k s') \<le> m (ps_k s)"
proof (induction "(m (ps_k s), length buf - offset)" arbitrary: s offset rule: wf_induct_rule [OF wf_lex_prod [OF wf_less_than wf_less_than]])
  case 1
  obtain r s1 where c: "call_send sys f (drop offset buf) s = (r, s1)" by (rule prod.exhaust)
  note w = finite_send [OF assms c]
  show ?case
  proof (cases r)
    case (Sent n)
    show ?thesis
    proof (cases "n > 0 \<and> offset < length buf")
      case True
      then have "((m (ps_k s1), length buf - (offset + n)), (m (ps_k s), length buf - offset)) \<in> less_than <*lex*> less_than"
        using w(1) by auto
      from "1.hyps" [OF this] w(1) Sent True show ?thesis by (subst flush_nonblocking.simps) (fastforce simp: c)
    next
      case False
      then show ?thesis using w(1) Sent by (subst flush_nonblocking.simps) (auto simp: c)
    qed
  next
    case (Send_failed e)
    show ?thesis
    proof (cases "e = EINTR \<and> offset < length buf")
      case True
      then have "((m (ps_k s1), length buf - offset), (m (ps_k s), length buf - offset)) \<in> less_than <*lex*> less_than"
        using w(2) Send_failed by auto
      from "1.hyps" [OF this] w(1) Send_failed True show ?thesis by (subst flush_nonblocking.simps) (fastforce simp: c)
    next
      case False
      then show ?thesis using w(1) Send_failed by (subst flush_nonblocking.simps) (auto simp: c)
    qed
  qed
qed

definition wait_returns :: "('k \<Rightarrow> nat) \<Rightarrow> ('k ps \<Rightarrow> (bool \<times> 'k ps) option) \<Rightarrow> bool" where
  "wait_returns m wait_fn \<longleftrightarrow>
     (\<forall>s. \<exists>b s'. wait_fn s = Some (b, s') \<and> m (ps_k s') \<le> m (ps_k s) \<and> (b \<longrightarrow> m (ps_k s') < m (ps_k s)))"

lemma send_all_returns:
  assumes "finite_law sys m" and "wait_returns m wait_fn"
  shows "\<exists>ok s'. send_all_loop sys wait_fn f data offset s = Some (ok, s') \<and> m (ps_k s') \<le> m (ps_k s)"
proof (induction "(m (ps_k s), length data - offset)" arbitrary: s offset rule: wf_induct_rule [OF wf_lex_prod [OF wf_less_than wf_less_than]])
  case 1
  obtain r s1 where c: "call_send sys f (drop offset data) s = (r, s1)" by (rule prod.exhaust)
  note w = finite_send [OF assms(1) c]
  have again: ?case if "send_all_loop sys wait_fn f data offset s = send_all_loop sys wait_fn f data o' s'"
    and "m (ps_k s') < m (ps_k s) \<or> m (ps_k s') \<le> m (ps_k s) \<and> length data - o' < length data - offset" for o' s'
    using that "1.hyps" [of s' o'] by (fastforce simp: that(1))
  show ?case
  proof (cases "offset < length data")
    case False
    then show ?thesis by (subst send_all_loop.simps) auto
  next
    case True
    show ?thesis
    proof (cases r)
      case (Sent n)
      show ?thesis
      proof (cases "n > 0")
        case t: True
        show ?thesis by (rule again [of "offset + n" s1]) (use w(1) Sent True t in \<open>subst send_all_loop.simps, auto simp: c\<close>)
      next
        case False
        then show ?thesis using w(1) Sent True by (subst send_all_loop.simps) (auto simp: c)
      qed
    next
      case (Send_failed e)
      consider "e = EINTR" | "e \<noteq> EINTR" "e = EAGAIN" | "e \<noteq> EINTR" "e \<noteq> EAGAIN" by blast
      then show ?thesis
      proof cases
        case 1
        show ?thesis by (rule again [of offset s1]) (use w(2) Send_failed True 1 in \<open>subst send_all_loop.simps, auto simp: c\<close>)
      next
        case 2
        obtain b s2 where b: "wait_fn s1 = Some (b, s2)" "m (ps_k s2) \<le> m (ps_k s1)" "b \<longrightarrow> m (ps_k s2) < m (ps_k s1)"
          using assms(2) unfolding wait_returns_def by blast
        show ?thesis
        proof (cases b)
          case t: True
          show ?thesis by (rule again [of offset s2]) (use w(1) b Send_failed True 2 t in \<open>subst send_all_loop.simps, auto simp: c\<close>)
        next
          case False
          then show ?thesis using w(1) b Send_failed True 2 by (subst send_all_loop.simps) (auto simp: c)
        qed
      next
        case 3
        then show ?thesis using w(1) Send_failed True
          by (subst send_all_loop.simps) (auto simp: c EAGAIN_def EWOULDBLOCK_def)
      qed
    qed
  qed
qed

lemma wait_fd_wait_returns: "finite_law sys m \<Longrightarrow> wait_returns m (wait_fd sys f ev)"
  using wait_fd_returns by (auto simp: wait_returns_def)

lemma close_le: "finite_law sys m \<Longrightarrow> m (ps_k (call_close sys f s)) \<le> m (ps_k s)"
  using finite_le(8) by (simp add: call_close_def)

lemma try_addresses_returns:
  assumes "finite_law sys m"
  shows "\<exists>r s'. try_addresses sys addrs s = Some (r, s') \<and> m (ps_k s') \<le> m (ps_k s)"
proof (induction addrs arbitrary: s)
  case Nil
  then show ?case by simp
next
  case (Cons ai rest)
  obtain r1 s1 where c1: "syscall (sys_socket sys ai) s = (r1, s1)" by (rule prod.exhaust)
  note m1 = syscall_le [where m = m, OF finite_le(4) [OF assms] c1]
  have again: "\<exists>r s'. try_addresses sys rest u = Some (r, s') \<and> m (ps_k s') \<le> m (ps_k s)" if "m (ps_k u) \<le> m (ps_k s)" for u
    using Cons.IH [of u] that by (meson order_trans)
  show ?case
  proof (cases r1)
    case (Inl e)
    then show ?thesis using c1 again [OF m1] by simp
  next
    case (Inr f)
    obtain r2 s2 where c2: "syscall (sys_connect sys f ai) s1 = (r2, s2)" by (rule prod.exhaust)
    have m2: "m (ps_k s2) \<le> m (ps_k s)" using syscall_le [where m = m, OF finite_le(5) [OF assms] c2] m1 by simp
    have next_addr: "\<exists>r s'. try_addresses sys rest (call_close sys f u) = Some (r, s') \<and> m (ps_k s') \<le> m (ps_k s)"
      if "m (ps_k u) \<le> m (ps_k s)" for u
      using again [of "call_close sys f u"] close_le [OF assms, of f u] that by simp
    obtain b s3 where w: "wait_fd sys f EPOLLOUT s2 = Some (b, s3)" "m (ps_k s3) \<le> m (ps_k s2)"
      using wait_fd_returns [OF assms] by blast
    obtain r4 s4 where c4: "syscall (sys_so_error sys f) s3 = (r4, s4)" by (rule prod.exhaust)
    have m4: "m (ps_k s4) \<le> m (ps_k s)" using syscall_le [where m = m, OF finite_le(6) [OF assms] c4] w(2) m2 by simp
    have m3: "m (ps_k s3) \<le> m (ps_k s)" using w(2) m2 by simp
    have close4: "\<exists>r s'. try_addresses sys rest (call_close sys f (Ps so (ps_k s4))) = Some (r, s') \<and> m (ps_k s') \<le> m (ps_k s)" for so
      using next_addr [of "Ps so (ps_k s4)"] m4 by simp
    show ?thesis
      using c1 Inr c2 w(1) c4 m2 m4 next_addr [OF m2] next_addr [OF m3] next_addr [OF m4] close4
      by (auto split: sum.splits)
  qed
qed

lemma connect_upstream_returns:
  assumes "finite_law sys m"
  shows "\<exists>r s'. connect_upstream sys host port s = Some (r, s') \<and> m (ps_k s') \<le> m (ps_k s)"
proof -
  obtain addrs k where g: "sys_getaddrinfo sys host (to_string (unat port)) (ps_k s) = (addrs, k)" by (rule prod.exhaust)
  have "m k \<le> m (ps_k s)" using finite_le(7) [OF assms, of host "to_string (unat port)" "ps_k s"] g by simp
  then show ?thesis
    using try_addresses_returns [OF assms, of _ "Ps (ps_errno s) k"]
    by (cases addrs) (fastforce simp: connect_upstream_def g)+
qed

section \<open>An instance\<close>

text \<open>A kernel that satisfies the laws: it replays the results of \<^verbatim>\<open>recv\<close> and \<^verbatim>\<open>poll\<close> from two lists, then reports the end
  of every stream and a timeout; it accepts every message and every connection.\<close>

record demo_kernel =
  dk_in :: "fd \<Rightarrow> string"
  dk_out :: "fd \<Rightarrow> string"
  dk_open :: "fd list"
  dk_recvs :: "recv_result list"
  dk_polls :: "u16 list list"

definition fresh_fd :: "fd list \<Rightarrow> fd" where
  "fresh_fd fs = fold max fs (-1) + 1"

lemma fold_max_ge: "b \<le> fold max fs (b::fd)"
proof (induction fs arbitrary: b)
  case (Cons a fs)
  from Cons [of "max a b"] show ?case by simp
qed simp

lemma fold_max_elem: "f \<in> set fs \<Longrightarrow> f \<le> fold max fs (b::fd)"
proof (induction fs arbitrary: b)
  case (Cons a fs)
  then show ?case using fold_max_ge [of "max a b" fs] by auto
qed simp

lemma fresh_fd_new: "fresh_fd fs \<notin> set fs" "fresh_fd fs \<ge> 0"
  using fold_max_elem [of "fresh_fd fs" fs "-1"] fold_max_ge [of "-1" fs] by (auto simp: fresh_fd_def)

definition demo_sys :: "(unit, demo_kernel) sys" where
  "demo_sys = \<lparr>
     sys_recv = (\<lambda>f n k. case dk_recvs k of
        [] \<Rightarrow> (Received [], k)
      | r # rs \<Rightarrow> (r, k\<lparr>dk_recvs := rs, dk_in := (case r of Received d \<Rightarrow> (dk_in k)(f := dk_in k f @ d) | Recv_failed _ \<Rightarrow> dk_in k)\<rparr>)),
     sys_send = (\<lambda>f d k. (Sent (length d), k\<lparr>dk_out := (dk_out k)(f := dk_out k f @ d)\<rparr>)),
     sys_poll = (\<lambda>fs t k. case dk_polls k of [] \<Rightarrow> (Inr [0, 0], k) | p # ps \<Rightarrow> (Inr p, k\<lparr>dk_polls := ps\<rparr>)),
     sys_shutdown = (\<lambda>f k. (Inr (), k)),
     sys_epoll_create = (\<lambda>k. (Inr (fresh_fd (dk_open k)), k\<lparr>dk_open := fresh_fd (dk_open k) # dk_open k\<rparr>)),
     sys_epoll_ctl = (\<lambda>ep op f ev k. (Inr (), k)),
     sys_epoll_wait = (\<lambda>ep n t k. (Inr [], k)),
     sys_socket = (\<lambda>ai k. (Inr (fresh_fd (dk_open k)), k\<lparr>dk_open := fresh_fd (dk_open k) # dk_open k,
        dk_in := (dk_in k)(fresh_fd (dk_open k) := []), dk_out := (dk_out k)(fresh_fd (dk_open k) := [])\<rparr>)),
     sys_connect = (\<lambda>f ai k. (Inr (), k)),
     sys_so_error = (\<lambda>f k. (Inr 0, k)),
     sys_getaddrinfo = (\<lambda>h p k. (Some [()], k)),
     sys_close = (\<lambda>f k. k\<lparr>dk_open := removeAll f (dk_open k)\<rparr>)\<rparr>"

definition demo_obs :: "demo_kernel obs" where
  "demo_obs = \<lparr>ob_in = dk_in, ob_out = dk_out, ob_open = (\<lambda>k. set (dk_open k))\<rparr>"

definition demo_events :: "demo_kernel \<Rightarrow> nat" where
  "demo_events k = length (dk_recvs k) + length (dk_polls k)"

definition demo_boot :: "recv_result list \<Rightarrow> u16 list list \<Rightarrow> demo_kernel ps" where
  "demo_boot rs ps = Ps 0 \<lparr>dk_in = (\<lambda>_. []), dk_out = (\<lambda>_. []), dk_open = [0], dk_recvs = rs, dk_polls = ps\<rparr>"

lemma demo_kernel_law: "kernel_law demo_sys demo_obs"
proof -
  have "recv_law demo_sys demo_obs"
    by (auto simp: recv_law_def demo_sys_def demo_obs_def split: list.splits recv_result.splits)
  moreover have "send_law demo_sys demo_obs" by (auto simp: send_law_def demo_sys_def demo_obs_def)
  moreover have "open_law demo_sys demo_obs" by (auto simp: open_law_def demo_sys_def demo_obs_def fresh_fd_new)
  moreover have "quiet_law demo_sys demo_obs"
    by (auto simp: quiet_law_def demo_sys_def demo_obs_def same_obs_def split: list.splits)
  ultimately show ?thesis by (simp add: kernel_law_def)
qed

lemma demo_finite_law: "finite_law demo_sys demo_events"
  by (auto simp: finite_law_def demo_sys_def demo_events_def recv_event_def wait_event_def poll_event_def split: list.splits)
end
