(* ===== verification/Http_Proxy.thy ===== *)
theory Http_Proxy
  imports Proxy_Io Message_Builder Response_Parser
begin

text \<open>
  \<^verbatim>\<open>http_proxy::forward_request\<close> of \<^verbatim>\<open>src/net/proxy/http_proxy.cpp\<close>: one request to an upstream, with one retry,
  and the reading of the response until its framing says that it is complete.
\<close>

section \<open>Model\<close>

definition kMaxPartialReadTimeoutRetries :: nat where "kMaxPartialReadTimeoutRetries = 5"

text \<open>The reading loop. The result is the error number of a failure, what was received, and the state; \<open>None\<close> is an
  endless loop or an abort inside the parser library.\<close>

partial_function (option) read_response ::
  "llhttp_execute \<Rightarrow> ('a, 'k) sys \<Rightarrow> socket_ops \<Rightarrow> string \<Rightarrow> http_response_parser \<Rightarrow> nat \<Rightarrow> 'k ps \<Rightarrow>
   ((errno + unit) \<times> string \<times> 'k ps) option" where
  "read_response execute sys upstream out p retries s =
     (case call_recv sys (so_fd upstream) kIoBufferSize s of
        (Received d, s1) \<Rightarrow>
          if d \<noteq> [] then
            do {
              (ok, p1) \<leftarrow> resp_parse execute d p;
              (if \<not> ok then Some (Inl EPROTO, out @ d, s1)
               else if response_complete p1 then Some (Inr (), out @ d, s1)
               else read_response execute sys upstream (out @ d) p1 0 s1)
            }
          else if \<not> response_complete p then
            do {
              (fin, p1) \<leftarrow> resp_finish p;
              Some (if fin then Inr () else Inl ECONNRESET, out, s1)
            }
          else Some (Inr (), out, s1)
      | (Recv_failed e, s1) \<Rightarrow>
          if e = EINTR then read_response execute sys upstream out p retries s1
          else if e = EAGAIN \<or> e = EWOULDBLOCK then
            do {
              (ready, s2) \<leftarrow> wait_fd sys (so_fd upstream) EPOLLIN s1;
              (if ready then read_response execute sys upstream out p retries s2
               else if ps_errno s2 = ETIMEDOUT \<and> length out > 0 \<and> \<not> response_complete p \<and>
                       retries < kMaxPartialReadTimeoutRetries
               then read_response execute sys upstream out p (Suc retries) s2
               else Some (Inl (ps_errno s2), out, s2))
            }
          else Some (Inl e, out, s1))"

text \<open>One iteration of the loop over the attempts; the upstream socket is closed at its end.\<close>

definition forward_attempt ::
  "llhttp_execute \<Rightarrow> nat \<Rightarrow> ('a, 'k) sys \<Rightarrow> request_info \<Rightarrow> string \<Rightarrow> 'k ps \<Rightarrow> ((errno + unit) \<times> string \<times> 'k ps) option" where
  "forward_attempt execute start sys req forward s =
     do {
       (conn, s1) \<leftarrow> connect_upstream sys (ri_host req) (ri_port req) s;
       (case conn of
          None \<Rightarrow> Some (Inl (ps_errno s1), [], s1)
        | Some upstream \<Rightarrow>
            do {
              (ok, s2) \<leftarrow> send_all_nonblocking_socket sys upstream (so_fd upstream) forward s1;
              (if \<not> ok then Some (Inl (ps_errno s2), [], call_close sys (so_fd upstream) s2)
               else do {
                 (r, out, s3) \<leftarrow> read_response execute sys upstream [] (http_response_parser_new start) 0 s2;
                 Some (r, out, call_close sys (so_fd upstream) s3)
               })
            })
     }"

text \<open>The result: success, the response, the error number passed out, and the state. \<open>left\<close> counts the attempts left;
  the first attempt is the one with \<open>left = 2\<close>.\<close>

fun forward_loop ::
  "llhttp_execute \<Rightarrow> nat \<Rightarrow> ('a, 'k) sys \<Rightarrow> request_info \<Rightarrow> string \<Rightarrow> nat \<Rightarrow> errno \<Rightarrow> string \<Rightarrow> 'k ps \<Rightarrow>
   (bool \<times> string \<times> errno \<times> 'k ps) option" where
  "forward_loop execute start sys req forward 0 final_errno out s = Some (False, out, final_errno, Ps final_errno (ps_k s))"
| "forward_loop execute start sys req forward (Suc left) final_errno out s =
     do {
       (r, out', s1) \<leftarrow> forward_attempt execute start sys req forward s;
       (case r of
          Inr _ \<Rightarrow> Some (True, out', 0, s1)
        | Inl e \<Rightarrow>
            if left = 1 \<and> (e = ETIMEDOUT \<or> e = ECONNRESET)
            then forward_loop execute start sys req forward left e out' s1
            else Some (False, out', e, Ps e (ps_k s1)))
     }"

definition forward_request ::
  "llhttp_execute \<Rightarrow> nat \<Rightarrow> ('a, 'k) sys \<Rightarrow> request_info \<Rightarrow> 'k ps \<Rightarrow> (bool \<times> string \<times> errno \<times> 'k ps) option" where
  "forward_request execute start sys req s =
     (let forward = build_forward_proxy_request req
      in if forward = [] then Some (False, [], EINVAL, Ps EINVAL (ps_k s))
         else forward_loop execute start sys req forward 2 0 [] s)"

section \<open>What a successful exchange is\<close>

fun resp_feed :: "llhttp_execute \<Rightarrow> string list \<Rightarrow> http_response_parser \<Rightarrow> http_response_parser option" where
  "resp_feed execute [] p = Some p"
| "resp_feed execute (c # cs) p =
     do {
       (ok, p1) \<leftarrow> resp_parse execute c p;
       (if ok then resp_feed execute cs p1 else None)
     }"

text \<open>The chunks are one response: the parser accepts them, it is complete after the last one or the end of the stream
  completes it, and it was not complete before the last one.\<close>

definition one_response :: "llhttp_execute \<Rightarrow> string list \<Rightarrow> http_response_parser \<Rightarrow> bool" where
  "one_response execute chunks p \<longleftrightarrow>
     (\<exists>q. resp_feed execute chunks p = Some q \<and> (response_complete q \<or> (\<exists>q'. resp_finish q = Some (True, q')))) \<and>
     (\<forall>n < length chunks. n > 0 \<longrightarrow> (\<exists>q. resp_feed execute (take n chunks) p = Some q \<and> \<not> response_complete q))"

lemma one_response_Cons:
  assumes "resp_parse execute d p = Some (True, p1)" and "\<not> response_complete p1" and "one_response execute chunks p1"
  shows "one_response execute (d # chunks) p"
  unfolding one_response_def
proof (intro conjI allI impI)
  show "\<exists>q. resp_feed execute (d # chunks) p = Some q \<and> (response_complete q \<or> (\<exists>q'. resp_finish q = Some (True, q')))"
    using assms(1,3) by (simp add: one_response_def)
  fix n assume n: "n < length (d # chunks)" "n > 0"
  then obtain j where j: "n = Suc j" "j < length chunks" by (cases n) auto
  show "\<exists>q. resp_feed execute (take n (d # chunks)) p = Some q \<and> \<not> response_complete q"
    using assms j by (cases "j = 0") (auto simp: one_response_def)
qed

lemma read_response_obs:
  assumes "read_response execute sys upstream out p retries s = Some x" and "kernel_law sys ob"
  shows "\<exists>chunks. adds_in ob (so_fd upstream) (concat chunks) (ps_k s) (ps_k (snd (snd x))) \<and> fst (snd x) = out @ concat chunks \<and>
    (fst x = Inr () \<longrightarrow> one_response execute chunks p)"
  using assms
proof (induction execute sys upstream out p retries s x rule: read_response.raw_induct [rotated 1, consumes 1, case_names step])
  case (step rd execute sys upstream out p retries s x)
  have rl: "recv_law sys ob" using step.prems by (simp add: kernel_law_def)
  obtain r s1 where c: "call_recv sys (so_fd upstream) kIoBufferSize s = (r, s1)" by (rule prod.exhaust)
  note o = call_recv_obs [OF rl c]
  have again: ?case if "rd execute sys upstream out p j s' = Some x" "same_obs ob (ps_k s) (ps_k s')" for j s'
    using step.IH [OF that(1) step.prems] that(2) by (metis adds_in_Nil adds_in_append append_Nil)
  show ?case
  proof (cases r)
    case (Received d)
    show ?thesis
    proof (cases "d = []")
      case True
      then show ?thesis using step.hyps c Received o
        by (intro exI [of _ "[]"]) (auto simp: one_response_def split: if_splits Option.bind_splits)
    next
      case False
      with step.hyps c Received obtain ok p1 where p1: "resp_parse execute d p = Some (ok, p1)"
        "(if \<not> ok then Some (Inl EPROTO, out @ d, s1) else if response_complete p1 then Some (Inr (), out @ d, s1)
          else rd execute sys upstream (out @ d) p1 0 s1) = Some x"
        by (auto split: Option.bind_splits)
      show ?thesis
      proof (cases "ok \<and> \<not> response_complete p1")
        case True
        with p1 have "rd execute sys upstream (out @ d) p1 0 s1 = Some x" by simp
        from step.IH [OF this step.prems] obtain chunks where
          "adds_in ob (so_fd upstream) (concat chunks) (ps_k s1) (ps_k (snd (snd x)))" "fst (snd x) = (out @ d) @ concat chunks"
          "fst x = Inr () \<longrightarrow> one_response execute chunks p1" by blast
        then show ?thesis using o Received True p1(1)
          by (intro exI [of _ "d # chunks"]) (auto intro: adds_in_append one_response_Cons)
      next
        case f: False
        then show ?thesis using o Received p1
          by (intro exI [of _ "[d]"]) (auto simp: one_response_def split: if_splits)
      qed
    qed
  next
    case (Recv_failed e)
    consider "e = EINTR" | "e \<noteq> EINTR" "e = EAGAIN" | "e \<noteq> EINTR" "e \<noteq> EAGAIN" by blast
    then show ?thesis
    proof cases
      case 1
      then show ?thesis using step.hyps c Recv_failed again [of retries s1] o by simp
    next
      case 2
      with step.hyps c Recv_failed obtain ready s2 where w: "wait_fd sys (so_fd upstream) EPOLLIN s1 = Some (ready, s2)"
        and x: "(if ready then rd execute sys upstream out p retries s2
           else if ps_errno s2 = ETIMEDOUT \<and> length out > 0 \<and> \<not> response_complete p \<and> retries < kMaxPartialReadTimeoutRetries
           then rd execute sys upstream out p (Suc retries) s2 else Some (Inl (ps_errno s2), out, s2)) = Some x"
        by (auto split: Option.bind_splits)
      have "same_obs ob (ps_k s) (ps_k s2)" using o Recv_failed wait_fd_same [OF step.prems w] by (auto intro: same_obs_trans)
      then show ?thesis using x again [of _ s2] by (auto split: if_splits intro!: exI [of _ "[]"])
    next
      case 3
      then show ?thesis using step.hyps c Recv_failed o
        by (intro exI [of _ "[]"]) (auto simp: EAGAIN_def EWOULDBLOCK_def)
    qed
  qed
qed

text \<open>The connection of an exchange: on descriptor \<open>f\<close> exactly the request was sent and exactly one response received.\<close>

definition exchanged :: "llhttp_execute \<Rightarrow> nat \<Rightarrow> 'k obs \<Rightarrow> string \<Rightarrow> string \<Rightarrow> 'k \<Rightarrow> bool" where
  "exchanged execute start ob forward out k \<longleftrightarrow>
     (\<exists>f chunks. out = concat chunks \<and> ob_in ob k f = out \<and> ob_out ob k f = forward \<and>
        one_response execute chunks (http_response_parser_new start))"

definition no_trace :: "'k obs \<Rightarrow> 'k \<Rightarrow> 'k \<Rightarrow> bool" where
  "no_trace ob k k' \<longleftrightarrow> ob_open ob k' = ob_open ob k \<and> keeps_open ob (ob_open ob k) k k'"

lemma no_trace_trans: "no_trace ob k1 k2 \<Longrightarrow> no_trace ob k2 k3 \<Longrightarrow> no_trace ob k1 k3"
  by (simp add: no_trace_def keeps_open_def)

lemma send_all_socket_obs:
  assumes "kernel_law sys ob" and "send_all_nonblocking_socket sys sock (so_fd sock) data s = Some (ok, s')"
  shows "\<exists>n. adds_out ob (so_fd sock) (take n data) (ps_k s) (ps_k s') \<and> (ok \<longrightarrow> take n data = data)"
  using send_all_obs [OF assms(2) [unfolded send_all_nonblocking_socket_def] _ _ wait_fd_quiet [OF assms(1)]] assms(1)
  by (auto simp: kernel_law_def)

lemma forward_attempt_obs:
  assumes law: "kernel_law sys ob" and run: "forward_attempt execute start sys req forward s = Some (r, out, s')"
  shows "no_trace ob (ps_k s) (ps_k s') \<and> (r = Inr () \<longrightarrow> exchanged execute start ob forward out (ps_k s'))"
proof -
  have o: "open_law sys ob" using law by (simp add: kernel_law_def)
  from run obtain conn s1 where c: "connect_upstream sys (ri_host req) (ri_port req) s = Some (conn, s1)"
    by (auto simp: forward_attempt_def split: Option.bind_splits)
  note cn = connect_upstream_obs [OF law c]
  show ?thesis
  proof (cases conn)
    case None
    then show ?thesis using run c cn by (auto simp: forward_attempt_def no_trace_def connected_def)
  next
    case (Some u)
    let ?f = "so_fd u"
    have new: "?f \<notin> ob_open ob (ps_k s)" "ob_open ob (ps_k s1) = insert ?f (ob_open ob (ps_k s))"
      "ob_in ob (ps_k s1) ?f = []" "ob_out ob (ps_k s1) ?f = []" "keeps_open ob (ob_open ob (ps_k s)) (ps_k s) (ps_k s1)"
      using cn Some by (simp_all add: connected_def)
    from run c Some obtain ok s2 where sn: "send_all_nonblocking_socket sys u ?f forward s1 = Some (ok, s2)"
      by (auto simp: forward_attempt_def split: Option.bind_splits)
    from send_all_socket_obs [OF law sn] obtain n where n: "adds_out ob ?f (take n forward) (ps_k s1) (ps_k s2)"
      "ok \<longrightarrow> take n forward = forward" by blast
    show ?thesis
    proof (cases ok)
      case False
      then have "s' = call_close sys ?f s2" "r = Inl (ps_errno s2)" using run c Some sn by (auto simp: forward_attempt_def)
      then show ?thesis using new n(1) by (auto simp: call_close_obs [OF o] no_trace_def keeps_open_def adds_out_def)
    next
      case True
      with run c Some sn obtain s3 where rd: "read_response execute sys u [] (http_response_parser_new start) 0 s2 = Some (r, out, s3)"
        and s': "s' = call_close sys ?f s3"
        by (auto simp: forward_attempt_def split: Option.bind_splits)
      from read_response_obs [OF rd law] obtain chunks where ch: "adds_in ob ?f (concat chunks) (ps_k s2) (ps_k s3)"
        "out = concat chunks" "r = Inr () \<longrightarrow> one_response execute chunks (http_response_parser_new start)" by auto
      have "ob_in ob (ps_k s') ?f = out" "ob_out ob (ps_k s') ?f = forward"
        using new n ch True by (auto simp: s' call_close_obs [OF o] adds_in_def adds_out_def)
      then have "r = Inr () \<longrightarrow> exchanged execute start ob forward out (ps_k s')"
        using ch unfolding exchanged_def by blast
      moreover have "no_trace ob (ps_k s) (ps_k s')"
        using new n ch by (auto simp: s' call_close_obs [OF o] no_trace_def keeps_open_def adds_out_def adds_in_def)
      ultimately show ?thesis by blast
    qed
  qed
qed

lemma forward_loop_obs:
  assumes "kernel_law sys ob" and "forward_loop execute start sys req forward left fe out0 s = Some (ok, out, e, s')"
  shows "no_trace ob (ps_k s) (ps_k s') \<and> (ok \<longrightarrow> e = 0 \<and> exchanged execute start ob forward out (ps_k s'))"
  using assms(2)
proof (induction left arbitrary: fe out0 s)
  case 0
  then show ?case by (auto simp: no_trace_def keeps_open_def)
next
  case (Suc left)
  then obtain r out1 s1 where a: "forward_attempt execute start sys req forward s = Some (r, out1, s1)"
    by (auto split: Option.bind_splits)
  note at = forward_attempt_obs [OF assms(1) a]
  show ?case
  proof (cases r)
    case (Inr u)
    then show ?thesis using Suc.prems a at by auto
  next
    case (Inl fe1)
    show ?thesis
    proof (cases "left = 1 \<and> (fe1 = ETIMEDOUT \<or> fe1 = ECONNRESET)")
      case True
      then have "forward_loop execute start sys req forward left fe1 out1 s1 = Some (ok, out, e, s')"
        using Suc.prems a Inl by simp
      from Suc.IH [OF this] at show ?thesis by (blast intro: no_trace_trans)
    next
      case False
      then have "Some (False, out1, fe1, Ps fe1 (ps_k s1)) = Some (ok, out, e, s')"
        using Suc.prems a Inl by (simp only: forward_loop.simps bind.simps prod.case sum.case if_False)
      then show ?thesis using at by auto
    qed
  qed
qed

section \<open>Termination\<close>

text \<open>What is documented of the parser library: it returns one of its error codes and keeps its \<open>finish\<close> field in range.\<close>

definition regular :: "llhttp_execute \<Rightarrow> bool" where
  "regular execute \<longleftrightarrow>
     (\<forall>p d evs err ll. execute p d = (evs, err, ll) \<longrightarrow> llhttp_errno_name err \<noteq> None \<and> ll_finish ll \<le> HTTP_FINISH_UNSAFE)"

definition finishable :: "http_response_parser \<Rightarrow> bool" where
  "finishable p \<longleftrightarrow> ll_finish (rsp_parser p) \<le> HTTP_FINISH_UNSAFE"

lemma resp_parse_returns:
  assumes "regular execute" and "finishable p"
  shows "\<exists>ok q. resp_parse execute d p = Some (ok, q) \<and> finishable q"
proof -
  obtain evs err ll where e: "execute (rsp_parser p) d = (evs, err, ll)" by (metis prod_cases3)
  with assms(1) obtain name where "llhttp_errno_name err = Some name" "ll_finish ll \<le> HTTP_FINISH_UNSAFE"
    unfolding regular_def by blast
  then show ?thesis using assms(2)
    by (auto simp: resp_parse_def e finishable_def llhttp_resume_after_upgrade_def Let_def)
qed

lemma resp_finish_returns:
  assumes "finishable p"
  shows "\<exists>fin q. resp_finish p = Some (fin, q)"
proof -
  have "ll_finish (rsp_parser p) \<in> {0, 1, 2}"
  proof -
    have "unat (ll_finish (rsp_parser p)) \<le> 2" using assms by (simp add: finishable_def HTTP_FINISH_UNSAFE_def word_le_nat_alt)
    then have "unat (ll_finish (rsp_parser p)) \<in> {0, 1, 2}" by auto
    then show ?thesis by (auto simp: word_unat_eq_iff)
  qed
  moreover have "llhttp_errno_name 0 \<noteq> None" "llhttp_errno_name 14 \<noteq> None"
    by (simp_all add: llhttp_errno_name_def http_errno_map_def)
  ultimately show ?thesis
    by (auto simp: resp_finish_def llhttp_finish_def Let_def HTTP_FINISH_SAFE_def HTTP_FINISH_SAFE_WITH_CB_def
        HTTP_FINISH_UNSAFE_def HPE_OK_def HPE_INVALID_EOF_STATE_def)
qed

lemma read_response_returns:
  assumes "finite_law sys m" and "regular execute" and "finishable p"
  shows "\<exists>r out' s'. read_response execute sys upstream out p retries s = Some (r, out', s')"
  using assms(3)
proof (induction "(m (ps_k s), kMaxPartialReadTimeoutRetries - retries)" arbitrary: s out p retries
    rule: wf_induct_rule [OF wf_lex_prod [OF wf_less_than wf_less_than]])
  case 1
  obtain r s1 where c: "call_recv sys (so_fd upstream) kIoBufferSize s = (r, s1)" by (rule prod.exhaust)
  note w = finite_recv [OF assms(1) c]
  have again: ?case if "read_response execute sys upstream out p retries s = read_response execute sys upstream out' p' j s'"
    and "m (ps_k s') < m (ps_k s) \<or> m (ps_k s') \<le> m (ps_k s) \<and> kMaxPartialReadTimeoutRetries - j < kMaxPartialReadTimeoutRetries - retries"
    and "finishable p'" for out' p' j s'
    using that "1.hyps" [of s' j p' out'] by (fastforce simp: that(1))
  show ?case
  proof (cases r)
    case (Received d)
    obtain ok p1 where p1: "resp_parse execute d p = Some (ok, p1)" "finishable p1"
      using resp_parse_returns [OF assms(2) "1.prems"] by blast
    obtain fin p2 where p2: "resp_finish p = Some (fin, p2)" using resp_finish_returns [OF "1.prems"] by blast
    show ?thesis
    proof (cases "d \<noteq> [] \<and> ok \<and> \<not> response_complete p1")
      case True
      show ?thesis
        by (rule again [of "out @ d" p1 0 s1])
          (use w(2) Received True p1 in \<open>subst read_response.simps, auto simp: c recv_event_def\<close>)
    next
      case False
      then show ?thesis using Received p1 p2 by (subst read_response.simps) (auto simp: c)
    qed
  next
    case (Recv_failed e)
    obtain b s2 where b: "wait_fd sys (so_fd upstream) EPOLLIN s1 = Some (b, s2)" "m (ps_k s2) \<le> m (ps_k s1)"
      "b \<longrightarrow> m (ps_k s2) < m (ps_k s1)"
      using wait_fd_returns [OF assms(1)] by blast
    consider "e = EINTR" | "e \<noteq> EINTR" "e = EAGAIN" "b"
      | "e \<noteq> EINTR" "e = EAGAIN" "\<not> b" "ps_errno s2 = ETIMEDOUT \<and> length out > 0 \<and> \<not> response_complete p \<and> retries < kMaxPartialReadTimeoutRetries"
      | "e \<noteq> EINTR" "e = EAGAIN" "\<not> b" "\<not> (ps_errno s2 = ETIMEDOUT \<and> length out > 0 \<and> \<not> response_complete p \<and> retries < kMaxPartialReadTimeoutRetries)"
      | "e \<noteq> EINTR" "e \<noteq> EAGAIN" by blast
    then show ?thesis
    proof cases
      case i: 1
      show ?thesis by (rule again [of out p retries s1])
        (use w(2) Recv_failed i "1.prems" in \<open>subst read_response.simps, auto simp: c recv_event_def\<close>)
    next
      case i: 2
      show ?thesis by (rule again [of out p retries s2])
        (use w(1) b Recv_failed i "1.prems" in \<open>subst read_response.simps, auto simp: c\<close>)
    next
      case i: 3
      show ?thesis by (rule again [of out p "Suc retries" s2])
        (use w(1) b Recv_failed i "1.prems" in \<open>subst read_response.simps, auto simp: c\<close>)
    next
      case 4
      then show ?thesis using b Recv_failed by (subst read_response.simps) (auto simp: c)
    next
      case 5
      then show ?thesis using Recv_failed by (subst read_response.simps) (auto simp: c EAGAIN_def EWOULDBLOCK_def)
    qed
  qed
qed

lemma forward_attempt_returns:
  assumes "finite_law sys m" and "regular execute"
  shows "\<exists>r out s'. forward_attempt execute start sys req forward s = Some (r, out, s')"
proof -
  obtain conn s1 where c: "connect_upstream sys (ri_host req) (ri_port req) s = Some (conn, s1)"
    using connect_upstream_returns [OF assms(1)] by blast
  show ?thesis
  proof (cases conn)
    case None
    then show ?thesis by (simp add: forward_attempt_def c)
  next
    case (Some u)
    obtain ok s2 where sn: "send_all_nonblocking_socket sys u (so_fd u) forward s1 = Some (ok, s2)"
      using send_all_returns [OF assms(1) wait_fd_wait_returns [OF assms(1)]] unfolding send_all_nonblocking_socket_def by blast
    have "finishable (http_response_parser_new start)"
      by (simp add: finishable_def http_response_parser_new_def llhttp_init_def llhttp_internal_init_def HTTP_FINISH_SAFE_def)
    then obtain r out s3 where "read_response execute sys u [] (http_response_parser_new start) 0 s2 = Some (r, out, s3)"
      using read_response_returns [OF assms] by blast
    then show ?thesis using Some sn by (simp add: forward_attempt_def c)
  qed
qed

lemma forward_loop_returns:
  assumes "finite_law sys m" and "regular execute"
  shows "\<exists>ok out e s'. forward_loop execute start sys req forward left fe out0 s = Some (ok, out, e, s')"
proof (induction left arbitrary: fe out0 s)
  case (Suc left)
  obtain r out s1 where a: "forward_attempt execute start sys req forward s = Some (r, out, s1)"
    using forward_attempt_returns [OF assms] by blast
  show ?case using Suc.IH by (cases r) (auto simp: a)
qed auto

lemma forward_nonempty: "build_forward_proxy_request req = [] \<longleftrightarrow> ri_method req = [] \<or> ri_host req = [] \<or> ri_is_connect req"
  by (simp add: build_forward_proxy_request_def Let_def split: prod.split)

section \<open>An instance\<close>

text \<open>A parser that takes every input for a whole response.\<close>

definition echo_execute :: llhttp_execute where
  "echo_execute p d = ([Message_begin, Body d, Message_complete], HPE_OK, p\<lparr>ll_finish := 0\<rparr>)"

lemma echo_regular: "regular echo_execute"
  by (simp add: regular_def echo_execute_def HPE_OK_def llhttp_errno_name_def http_errno_map_def HTTP_FINISH_UNSAFE_def)

lemma echo_parse: "d \<noteq> [] \<Longrightarrow> \<exists>q. resp_parse echo_execute d (http_response_parser_new start) = Some (True, q) \<and> response_complete q"
  by (simp add: resp_parse_def echo_execute_def http_response_parser_new_def response_error_def response_complete_def
      resp_events_def resp_on_message_begin_def clear_response_runtime_def resp_on_body_def resp_on_message_complete_def HPE_OK_def Let_def)

lemma demo_send_all:
  "send_all_loop demo_sys w f data 0 s = Some (True, Ps (ps_errno s) ((ps_k s)\<lparr>dk_out := (dk_out (ps_k s))(f := dk_out (ps_k s) f @ data)\<rparr>))"
proof (cases "data = []")
  case True
  then show ?thesis by (subst send_all_loop.simps) simp
next
  case False
  then show ?thesis
    by (subst send_all_loop.simps, simp add: call_send_def demo_sys_def) (subst send_all_loop.simps, simp)
qed

lemma demo_forward:
  assumes "d \<noteq> []"
  shows "\<exists>s'. forward_request echo_execute 0 demo_sys demo_request (demo_boot [Received d] []) = Some (True, d, 0, s')"
proof -
  define s0 where "s0 = demo_boot [Received d] []"
  have f: "fresh_fd [0] = 1" by (simp add: fresh_fd_def)
  have "\<exists>k1. connect_upstream demo_sys (ri_host demo_request) (ri_port demo_request) s0 = Some (Some (socket_ops_of 1), Ps 0 k1) \<and>
      dk_recvs k1 = [Received d]"
    by (simp add: connect_upstream_def demo_sys_def s0_def demo_boot_def syscall_def f)
  then obtain k1 where c: "connect_upstream demo_sys (ri_host demo_request) (ri_port demo_request) s0 = Some (Some (socket_ops_of 1), Ps 0 k1)"
    "dk_recvs k1 = [Received d]" by blast
  obtain s2 where sn: "send_all_nonblocking_socket demo_sys (socket_ops_of 1) 1 fw (Ps 0 k1) = Some (True, s2 fw)" "dk_recvs (ps_k (s2 fw)) = [Received d]" for fw
    using c(2) by (simp add: send_all_nonblocking_socket_def demo_send_all)
  obtain q where q: "resp_parse echo_execute d (http_response_parser_new 0) = Some (True, q)" "response_complete q"
    using echo_parse [OF assms] by blast
  have rd: "\<exists>s3. read_response echo_execute demo_sys (socket_ops_of 1) [] (http_response_parser_new 0) 0 (s2 fw) = Some (Inr (), d, s3)" for fw
    using assms sn(2) [of fw] by (subst read_response.simps) (simp add: call_recv_def demo_sys_def q)
  have "\<exists>s'. forward_attempt echo_execute 0 demo_sys demo_request fw s0 = Some (Inr (), d, s')" for fw
    using rd [of fw] by (auto simp: forward_attempt_def c(1) sn(1))
  moreover have "build_forward_proxy_request demo_request \<noteq> []" by (simp add: forward_nonempty demo_request_def request_info_empty_def)
  moreover obtain s' where "forward_attempt echo_execute 0 demo_sys demo_request (build_forward_proxy_request demo_request) s0 = Some (Inr (), d, s')"
    using calculation(1) by blast
  ultimately show ?thesis by (simp add: forward_request_def s0_def numeral_2_eq_2)
qed

section \<open>Properties\<close>



text \<open>C9. \<open>forward_request\<close> always returns when the environment produces finitely many chunks, readiness reports and
  interruptions: a silent upstream is given up after at most five further timeouts, and there are at most two attempts.\<close>

theorem forward_request_returns:
  assumes "finite_law sys m" and "regular execute"
  shows "\<exists>ok resp e s'. forward_request execute start sys req s = Some (ok, resp, e, s')"
  using forward_loop_returns [OF assms] by (auto simp: forward_request_def Let_def)

theorem forward_request_returns_witness:
  "\<exists>ok resp e s'. forward_request echo_execute 0 demo_sys demo_request (demo_boot [Recv_failed EINTR, Recv_failed EAGAIN] []) = Some (ok, resp, e, s')"
  by (rule forward_request_returns [OF demo_finite_law echo_regular])

text \<open>An upstream that accepts the request and closes the connection without a byte is reported as success with the
  empty response, so the client is sent nothing at all instead of an error.\<close>

theorem forward_request_empty_success:
  assumes "build_forward_proxy_request req \<noteq> []"
    and "connect_upstream sys (ri_host req) (ri_port req) s = Some (Some u, s1)"
    and "send_all_nonblocking_socket sys u (so_fd u) (build_forward_proxy_request req) s1 = Some (True, s2)"
    and "call_recv sys (so_fd u) kIoBufferSize s2 = (Received [], s3)"
  shows "forward_request execute start sys req s = Some (True, [], 0, call_close sys (so_fd u) s3)"
proof -
  have "\<not> response_complete (http_response_parser_new start)" "\<exists>q. resp_finish (http_response_parser_new start) = Some (True, q)"
    by (simp_all add: resp_finish_def http_response_parser_new_def response_error_def response_complete_def llhttp_finish_def
      llhttp_init_def llhttp_internal_init_def HTTP_FINISH_SAFE_def HTTP_FINISH_SAFE_WITH_CB_def HPE_OK_def Let_def)
  then have "read_response execute sys u [] (http_response_parser_new start) 0 s2 = Some (Inr (), [], s3)"
    using assms(4) by (subst read_response.simps) auto
  then have "forward_attempt execute start sys req (build_forward_proxy_request req) s = Some (Inr (), [], call_close sys (so_fd u) s3)"
    using assms(2,3) by (simp add: forward_attempt_def)
  then show ?thesis using assms(1) by (simp add: forward_request_def numeral_2_eq_2)
qed

theorem forward_request_empty_success_witness:
  "\<exists>s'. forward_request echo_execute 0 demo_sys demo_request (demo_boot [] []) = Some (True, [], 0, s')"
proof -
  have f: "fresh_fd [0] = 1" by (simp add: fresh_fd_def)
  obtain k1 where c: "connect_upstream demo_sys (ri_host demo_request) (ri_port demo_request) (demo_boot [] []) = Some (Some (socket_ops_of 1), Ps 0 k1)"
    "dk_recvs k1 = []"
    by (simp add: connect_upstream_def demo_sys_def demo_boot_def syscall_def f)
  have ne: "build_forward_proxy_request demo_request \<noteq> []" by (simp add: forward_nonempty demo_request_def request_info_empty_def)
  obtain s2 where sn: "send_all_nonblocking_socket demo_sys (socket_ops_of 1) (so_fd (socket_ops_of 1))
      (build_forward_proxy_request demo_request) (Ps 0 k1) = Some (True, s2)" "dk_recvs (ps_k s2) = []"
    using c(2) by (simp add: send_all_nonblocking_socket_def demo_send_all)
  have "call_recv demo_sys (so_fd (socket_ops_of 1)) kIoBufferSize s2 = (Received [], s2)"
    using sn(2) by (simp add: call_recv_def demo_sys_def)
  from forward_request_empty_success [OF ne c(1) sn(1) this] show ?thesis by simp
qed
end
