(* ===== verification/Connect_Tunnel.thy ===== *)
theory Connect_Tunnel
  imports Proxy_Io Message_Builder "HOL-Library.Sublist"
begin

text \<open>
  \<^verbatim>\<open>http_proxy::forward_connect_tunnel\<close> of \<^verbatim>\<open>src/net/proxy/http_proxy.cpp\<close>: the answer to a CONNECT request and the loop
  that relays bytes between the client and the upstream in both directions until both have closed.
\<close>

section \<open>Model\<close>

definition POLLIN :: u16 where "POLLIN = 0x001"
definition POLLOUT :: u16 where "POLLOUT = 0x004"
definition POLLERR :: u16 where "POLLERR = 0x008"
definition POLLHUP :: u16 where "POLLHUP = 0x010"
definition POLLNVAL :: u16 where "POLLNVAL = 0x020"

unbundle bit_operations_syntax

record tunnel =
  tu_c2u :: string
  tu_u2c :: string
  tu_c2u_offset :: nat
  tu_u2c_offset :: nat
  tu_client_eof :: bool
  tu_upstream_eof :: bool
  tu_upstream_write_shutdown :: bool
  tu_client_write_shutdown :: bool

definition tunnel_new :: tunnel where
  "tunnel_new = \<lparr>tu_c2u = [], tu_u2c = [], tu_c2u_offset = 0, tu_u2c_offset = 0, tu_client_eof = False,
     tu_upstream_eof = False, tu_upstream_write_shutdown = False, tu_client_write_shutdown = False\<rparr>"

text \<open>How an iteration of the loop ends: \<^verbatim>\<open>return true\<close>, \<^verbatim>\<open>break\<close>, or the next iteration.\<close>

datatype tunnel_next = Tunnel_return | Tunnel_break | Tunnel_again

definition tunnel_flush ::
  "('a, 'k) sys \<Rightarrow> fd \<Rightarrow> socket_ops \<Rightarrow> tunnel \<Rightarrow> 'k ps \<Rightarrow> (bool \<times> tunnel \<times> 'k ps) option" where
  "tunnel_flush sys client_fd upstream t s =
     do {
       (ok, buf, off, s1) \<leftarrow> flush_nonblocking_sock sys upstream (tu_c2u t) (tu_c2u_offset t) s;
       let t1 = t\<lparr>tu_c2u := buf, tu_c2u_offset := off\<rparr>;
       (if \<not> ok then Some (False, t1, s1)
        else do {
          (ok2, buf2, off2, s2) \<leftarrow> flush_nonblocking sys client_fd (tu_u2c t1) (tu_u2c_offset t1) s1;
          Some (ok2, t1\<lparr>tu_u2c := buf2, tu_u2c_offset := off2\<rparr>, s2)
        })
     }"

definition tunnel_shutdown :: "('a, 'k) sys \<Rightarrow> fd \<Rightarrow> socket_ops \<Rightarrow> tunnel \<Rightarrow> 'k ps \<Rightarrow> tunnel \<times> 'k ps" where
  "tunnel_shutdown sys client_fd upstream t s =
     (let (t1, s1) = (if tu_client_eof t \<and> tu_c2u t = [] \<and> \<not> tu_upstream_write_shutdown t
                      then (t\<lparr>tu_upstream_write_shutdown := True\<rparr>, snd (syscall (sys_shutdown sys (so_fd upstream)) s))
                      else (t, s))
      in if tu_upstream_eof t1 \<and> tu_u2c t1 = [] \<and> \<not> tu_client_write_shutdown t1
         then (t1\<lparr>tu_client_write_shutdown := True\<rparr>, snd (syscall (sys_shutdown sys client_fd) s1))
         else (t1, s1))"

definition client_events :: "tunnel \<Rightarrow> u16" where
  "client_events t = (if \<not> tu_client_eof t \<and> tu_c2u t = [] then POLLIN else 0) OR (if tu_u2c t \<noteq> [] then POLLOUT else 0)"

definition upstream_events :: "tunnel \<Rightarrow> u16" where
  "upstream_events t = (if \<not> tu_upstream_eof t \<and> tu_u2c t = [] then POLLIN else 0) OR (if tu_c2u t \<noteq> [] then POLLOUT else 0)"

definition hangup :: "u16 \<Rightarrow> bool" where
  "hangup ev \<longleftrightarrow> ev AND (POLLERR OR POLLHUP OR POLLNVAL) \<noteq> 0"

text \<open>\<open>revents\<close> has one mask per descriptor asked for.\<close>

definition revent :: "u16 list \<Rightarrow> nat \<Rightarrow> u16" where
  "revent revents i = (if i < length revents then revents ! i else 0)"

definition tunnel_read_client ::
  "('a, 'k) sys \<Rightarrow> fd \<Rightarrow> u16 list \<Rightarrow> tunnel \<Rightarrow> 'k ps \<Rightarrow> (bool \<times> tunnel \<times> 'k ps) option" where
  "tunnel_read_client sys client_fd revents t s =
     (if revent revents 0 AND POLLIN \<noteq> 0 then
        do {
          (ok, buf, eof, s1) \<leftarrow> append_nonblocking_read sys client_fd (tu_c2u t) (tu_client_eof t) s;
          Some (ok, t\<lparr>tu_c2u := buf, tu_client_eof := eof\<rparr>, s1)
        }
      else Some (True, t, s))"

definition tunnel_read_upstream ::
  "('a, 'k) sys \<Rightarrow> socket_ops \<Rightarrow> u16 list \<Rightarrow> tunnel \<Rightarrow> 'k ps \<Rightarrow> (bool \<times> tunnel \<times> 'k ps) option" where
  "tunnel_read_upstream sys upstream revents t s =
     (if revent revents 1 AND POLLIN \<noteq> 0 then
        do {
          (ok, buf, eof, s1) \<leftarrow> append_nonblocking_read_sock sys upstream (tu_u2c t) (tu_upstream_eof t) s;
          Some (ok, t\<lparr>tu_u2c := buf, tu_upstream_eof := eof\<rparr>, s1)
        }
      else Some (True, t, s))"

definition tunnel_read ::
  "('a, 'k) sys \<Rightarrow> fd \<Rightarrow> socket_ops \<Rightarrow> u16 list \<Rightarrow> tunnel \<Rightarrow> 'k ps \<Rightarrow> (tunnel_next \<times> tunnel \<times> 'k ps) option" where
  "tunnel_read sys client_fd upstream revents t s =
     do {
       (ok, t1, s1) \<leftarrow> tunnel_read_client sys client_fd revents t s;
       (if \<not> ok then Some (Tunnel_break, t1, s1)
        else do {
          (ok2, t2, s2) \<leftarrow> tunnel_read_upstream sys upstream revents t1 s1;
          Some (if ok2 then Tunnel_again else Tunnel_break, t2, s2)
        })
     }"

definition tunnel_poll ::
  "('a, 'k) sys \<Rightarrow> fd \<Rightarrow> socket_ops \<Rightarrow> tunnel \<Rightarrow> 'k ps \<Rightarrow> (tunnel_next \<times> tunnel \<times> 'k ps) option" where
  "tunnel_poll sys client_fd upstream t s =
     (if client_events t = 0 \<and> upstream_events t = 0 then Some (Tunnel_again, t, s)
      else case syscall (sys_poll sys [(client_fd, client_events t), (so_fd upstream, upstream_events t)] kIoTimeoutMs) s of
             (Inl e, s1) \<Rightarrow> if e = EINTR then Some (Tunnel_again, t, s1) else Some (Tunnel_break, t, s1)
           | (Inr revents, s1) \<Rightarrow>
               if \<forall>ev \<in> set revents. ev = 0 then Some (Tunnel_break, t, Ps ETIMEDOUT (ps_k s1))
               else if hangup (revent revents 0) \<or> hangup (revent revents 1) then Some (Tunnel_break, t, Ps ECONNRESET (ps_k s1))
               else tunnel_read sys client_fd upstream revents t s1)"

definition tunnel_step ::
  "('a, 'k) sys \<Rightarrow> fd \<Rightarrow> socket_ops \<Rightarrow> tunnel \<Rightarrow> 'k ps \<Rightarrow> (tunnel_next \<times> tunnel \<times> 'k ps) option" where
  "tunnel_step sys client_fd upstream t s =
     do {
       (ok, t1, s1) \<leftarrow> tunnel_flush sys client_fd upstream t s;
       (if \<not> ok then Some (Tunnel_break, t1, s1)
        else let (t2, s2) = tunnel_shutdown sys client_fd upstream t1 s1
             in if tu_client_eof t2 \<and> tu_upstream_eof t2 \<and> tu_c2u t2 = [] \<and> tu_u2c t2 = []
                then Some (Tunnel_return, t2, s2)
                else tunnel_poll sys client_fd upstream t2 s2)
     }"

partial_function (option) tunnel_loop ::
  "('a, 'k) sys \<Rightarrow> fd \<Rightarrow> socket_ops \<Rightarrow> tunnel \<Rightarrow> 'k ps \<Rightarrow> (bool \<times> tunnel \<times> 'k ps) option" where
  "tunnel_loop sys client_fd upstream t s =
     do {
       (nx, t1, s1) \<leftarrow> tunnel_step sys client_fd upstream t s;
       (case nx of
          Tunnel_return \<Rightarrow> Some (True, t1, s1)
        | Tunnel_break \<Rightarrow> Some (False, t1, s1)
        | Tunnel_again \<Rightarrow> tunnel_loop sys client_fd upstream t1 s1)
     }"

text \<open>The result: success, the error number passed out, and the state.\<close>

definition forward_connect_tunnel ::
  "('a, 'k) sys \<Rightarrow> fd \<Rightarrow> request_info \<Rightarrow> 'k ps \<Rightarrow> (bool \<times> errno \<times> 'k ps) option" where
  "forward_connect_tunnel sys client_fd req s =
     (if client_fd < 0 \<or> ri_host req = [] then Some (False, EINVAL, Ps EINVAL (ps_k s))
      else do {
        (conn, s1) \<leftarrow> connect_upstream sys (ri_host req) (if ri_port req = 0 then 443 else ri_port req) s;
        (case conn of
           None \<Rightarrow> Some (False, ps_errno s1, s1)
         | Some upstream \<Rightarrow>
             do {
               (ok, s2) \<leftarrow> send_all_nonblocking sys client_fd (build_connect_established_response ''hpserver'') s1;
               (if \<not> ok then Some (False, ps_errno s2, call_close sys (so_fd upstream) s2)
                else do {
                  (ok2, t, s3) \<leftarrow> tunnel_loop sys client_fd upstream tunnel_new s2;
                  Some (ok2, if ok2 then 0 else ps_errno s3, call_close sys (so_fd upstream) s3)
                })
             })
      })"

section \<open>What the loop keeps\<close>

text \<open>In state \<open>k\<close>, compared with the state \<open>k0\<close> before the loop: what came from the client is what went to the upstream
  followed by what is still buffered, and the same in the other direction.\<close>

definition relays :: "'k obs \<Rightarrow> fd \<Rightarrow> fd \<Rightarrow> 'k \<Rightarrow> tunnel \<Rightarrow> 'k \<Rightarrow> bool" where
  "relays ob c u k0 t k \<longleftrightarrow>
     ob_open ob k = ob_open ob k0 \<and> (\<forall>g. g \<noteq> c \<and> g \<noteq> u \<longrightarrow> ob_in ob k g = ob_in ob k0 g \<and> ob_out ob k g = ob_out ob k0 g) \<and>
     (\<exists>up down. ob_out ob k u = ob_out ob k0 u @ up \<and> ob_in ob k c = ob_in ob k0 c @ up @ drop (tu_c2u_offset t) (tu_c2u t) \<and>
        ob_out ob k c = ob_out ob k0 c @ down \<and> ob_in ob k u = ob_in ob k0 u @ down @ drop (tu_u2c_offset t) (tu_u2c t)) \<and>
     (tu_c2u t = [] \<and> tu_c2u_offset t = 0 \<or> tu_c2u_offset t < length (tu_c2u t)) \<and>
     (tu_u2c t = [] \<and> tu_u2c_offset t = 0 \<or> tu_u2c_offset t < length (tu_u2c t))"

lemma relays_same:
  "relays ob c u k0 t k \<Longrightarrow> same_obs ob k k' \<Longrightarrow> relays ob c u k0 t k'"
  by (simp add: relays_def same_obs_def)

lemma relays_flags [simp]:
  "relays ob c u k0 (t\<lparr>tu_client_eof := b\<rparr>) k = relays ob c u k0 t k"
  "relays ob c u k0 (t\<lparr>tu_upstream_eof := b\<rparr>) k = relays ob c u k0 t k"
  "relays ob c u k0 (t\<lparr>tu_upstream_write_shutdown := b\<rparr>) k = relays ob c u k0 t k"
  "relays ob c u k0 (t\<lparr>tu_client_write_shutdown := b\<rparr>) k = relays ob c u k0 t k"
  by (simp_all add: relays_def)

lemma relays_send_up:
  assumes "relays ob c u k0 t k" and "adds_out ob u sent k k'" and "c \<noteq> u"
    and "drop (tu_c2u_offset t) (tu_c2u t) = sent @ drop off buf" and "buf = [] \<and> off = 0 \<or> off < length buf"
  shows "relays ob c u k0 (t\<lparr>tu_c2u := buf, tu_c2u_offset := off\<rparr>) k'"
  using assms by (auto simp: relays_def adds_out_def)

lemma relays_send_down:
  assumes "relays ob c u k0 t k" and "adds_out ob c sent k k'" and "c \<noteq> u"
    and "drop (tu_u2c_offset t) (tu_u2c t) = sent @ drop off buf" and "buf = [] \<and> off = 0 \<or> off < length buf"
  shows "relays ob c u k0 (t\<lparr>tu_u2c := buf, tu_u2c_offset := off\<rparr>) k'"
  using assms by (auto simp: relays_def adds_out_def)

lemma relays_recv_up:
  assumes "relays ob c u k0 t k" and "adds_in ob c d k k'" and "c \<noteq> u"
  shows "relays ob c u k0 (t\<lparr>tu_c2u := tu_c2u t @ d\<rparr>) k'"
  using assms by (auto simp: relays_def adds_in_def)

lemma relays_recv_down:
  assumes "relays ob c u k0 t k" and "adds_in ob u d k k'" and "c \<noteq> u"
  shows "relays ob c u k0 (t\<lparr>tu_u2c := tu_u2c t @ d\<rparr>) k'"
  using assms by (auto simp: relays_def adds_in_def)

lemma relays_offsets:
  "relays ob c u k0 t k \<Longrightarrow> tu_c2u_offset t \<le> length (tu_c2u t) \<and> tu_u2c_offset t \<le> length (tu_u2c t)"
  by (auto simp: relays_def)

lemma tunnel_flush_relays:
  assumes law: "kernel_law sys ob" and "c \<noteq> so_fd u" and rel: "relays ob c (so_fd u) k0 t (ps_k s)"
    and run: "tunnel_flush sys c u t s = Some (ok, t', s')"
  shows "relays ob c (so_fd u) k0 t' (ps_k s')"
proof -
  have sl: "send_law sys ob" using law by (simp add: kernel_law_def)
  from run obtain ok1 buf off s1 where f: "flush_nonblocking sys (so_fd u) (tu_c2u t) (tu_c2u_offset t) s = Some (ok1, buf, off, s1)"
    by (auto simp: tunnel_flush_def flush_nonblocking_sock_def split: Option.bind_splits)
  let ?t1 = "t\<lparr>tu_c2u := buf, tu_c2u_offset := off\<rparr>"
  from flush_obs [OF f sl] relays_offsets [OF rel] relays_send_up [OF rel _ assms(2)]
  have r1: "relays ob c (so_fd u) k0 ?t1 (ps_k s1)" by auto
  show ?thesis
  proof (cases ok1)
    case False
    then show ?thesis using run f r1 by (auto simp: tunnel_flush_def flush_nonblocking_sock_def)
  next
    case True
    with run f obtain buf2 off2 where g: "flush_nonblocking sys c (tu_u2c ?t1) (tu_u2c_offset ?t1) s1 = Some (ok, buf2, off2, s')"
      and t': "t' = ?t1\<lparr>tu_u2c := buf2, tu_u2c_offset := off2\<rparr>"
      by (auto simp: tunnel_flush_def flush_nonblocking_sock_def split: Option.bind_splits)
    from flush_obs [OF g sl] relays_offsets [OF r1] relays_send_down [OF r1 _ assms(2)] show ?thesis by (auto simp: t')
  qed
qed

lemma tunnel_shutdown_relays:
  assumes "kernel_law sys ob" and "relays ob c (so_fd u) k0 t (ps_k s)" and "tunnel_shutdown sys c u t s = (t', s')"
  shows "relays ob c (so_fd u) k0 t' (ps_k s')"
proof -
  have same: "same_obs ob (ps_k v) (ps_k (snd (syscall (sys_shutdown sys f) v)))" for f v
    using syscall_same [of ob "sys_shutdown sys f" v] quiet_lawD(2) [of sys ob] assms(1)
    by (metis kernel_law_def prod.collapse)
  show ?thesis
    using assms(2,3) relays_same [OF _ same]
    by (auto simp: tunnel_shutdown_def Let_def split: if_splits)
qed

lemma tunnel_read_relays:
  assumes law: "kernel_law sys ob" and "c \<noteq> so_fd u" and rel: "relays ob c (so_fd u) k0 t (ps_k s)"
    and run: "tunnel_read sys c u revents t s = Some (nx, t', s')"
  shows "relays ob c (so_fd u) k0 t' (ps_k s')"
proof -
  have rl: "recv_law sys ob" using law by (simp add: kernel_law_def)
  have down: "relays ob c (so_fd u) k0 t2 (ps_k s2)"
    if r: "relays ob c (so_fd u) k0 t1 (ps_k s1)" and d: "tunnel_read_upstream sys u revents t1 s1 = Some (ok2, t2, s2)"
    for t1 s1 ok2 t2 s2
    using d r append_read_obs [OF _ rl] relays_recv_down [OF r _ assms(2)]
    by (fastforce simp: tunnel_read_upstream_def append_nonblocking_read_sock_def split: Option.bind_splits if_splits)
  have up: "relays ob c (so_fd u) k0 t1 (ps_k s1)" if d: "tunnel_read_client sys c revents t s = Some (ok, t1, s1)" for ok t1 s1
    using d rel append_read_obs [OF _ rl] relays_recv_up [OF rel _ assms(2)]
    by (fastforce simp: tunnel_read_client_def split: Option.bind_splits if_splits)
  show ?thesis using run up down by (auto simp: tunnel_read_def split: Option.bind_splits if_splits)
qed

lemma tunnel_poll_relays:
  assumes law: "kernel_law sys ob" and "c \<noteq> so_fd u" and rel: "relays ob c (so_fd u) k0 t (ps_k s)"
    and run: "tunnel_poll sys c u t s = Some (nx, t', s')"
  shows "relays ob c (so_fd u) k0 t' (ps_k s')"
proof -
  obtain r s1 where p: "syscall (sys_poll sys [(c, client_events t), (so_fd u, upstream_events t)] kIoTimeoutMs) s = (r, s1)"
    by (rule prod.exhaust)
  have q: "quiet_law sys ob" using law by (simp add: kernel_law_def)
  have r1: "relays ob c (so_fd u) k0 t (ps_k s1)" using rel syscall_same [OF quiet_lawD(1) [OF q] p] by (rule relays_same)
  show ?thesis
    using run rel r1 tunnel_read_relays [OF law assms(2) r1] by (auto simp: tunnel_poll_def p split: sum.splits if_splits)
qed

lemma tunnel_step_relays:
  assumes "kernel_law sys ob" and "c \<noteq> so_fd u" and "relays ob c (so_fd u) k0 t (ps_k s)"
    and "tunnel_step sys c u t s = Some (nx, t', s')"
  shows "relays ob c (so_fd u) k0 t' (ps_k s') \<and>
    (nx = Tunnel_return \<longrightarrow> tu_client_eof t' \<and> tu_upstream_eof t' \<and> tu_c2u t' = [] \<and> tu_u2c t' = [])"
proof -
  from assms(4) obtain ok t1 s1 where f: "tunnel_flush sys c u t s = Some (ok, t1, s1)"
    by (auto simp: tunnel_step_def split: Option.bind_splits)
  note r1 = tunnel_flush_relays [OF assms(1-3) f]
  obtain t2 s2 where d: "tunnel_shutdown sys c u t1 s1 = (t2, s2)" by (rule prod.exhaust)
  note r2 = tunnel_shutdown_relays [OF assms(1) r1 d]
  have np: "nx \<noteq> Tunnel_return" if "tunnel_poll sys c u t2 s2 = Some (nx, t', s')"
    using that by (auto simp: tunnel_poll_def tunnel_read_def split: if_splits prod.splits sum.splits Option.bind_splits)
  show ?thesis
    using assms(4) r1 r2 np tunnel_poll_relays [OF assms(1,2) r2] by (auto simp: tunnel_step_def f d split: if_splits)
qed

lemma tunnel_loop_relays:
  assumes "tunnel_loop sys c u t s = Some x" and "kernel_law sys ob" and "c \<noteq> so_fd u" and "relays ob c (so_fd u) k0 t (ps_k s)"
  shows "case x of (ok, t', s') \<Rightarrow> relays ob c (so_fd u) k0 t' (ps_k s') \<and> (ok \<longrightarrow> tu_c2u t' = [] \<and> tu_u2c t' = [])"
  using assms
proof (induction sys c u t s x rule: tunnel_loop.raw_induct [rotated 1, consumes 1, case_names step])
  case (step loop sys c u t s x)
  then obtain nx t1 s1 where st: "tunnel_step sys c u t s = Some (nx, t1, s1)" by (auto split: Option.bind_splits)
  note r = tunnel_step_relays [OF step.prems st]
  show ?case using step.hyps r step.IH [of sys c u t1 s1 x] step.prems by (cases nx) (auto simp: st)
qed

section \<open>Termination\<close>

lemma tunnel_flush_returns:
  assumes "finite_law sys m"
  shows "\<exists>ok t' s'. tunnel_flush sys c u t s = Some (ok, t', s') \<and> m (ps_k s') \<le> m (ps_k s)"
proof -
  obtain ok1 buf off s1 where f: "flush_nonblocking sys (so_fd u) (tu_c2u t) (tu_c2u_offset t) s = Some (ok1, buf, off, s1)"
    "m (ps_k s1) \<le> m (ps_k s)" using flush_returns [OF assms] by blast
  obtain ok2 buf2 off2 s2 where g: "flush_nonblocking sys c (tu_u2c t) (tu_u2c_offset t) s1 = Some (ok2, buf2, off2, s2)"
    "m (ps_k s2) \<le> m (ps_k s1)" using flush_returns [OF assms] by blast
  show ?thesis using f g by (cases ok1) (auto simp: tunnel_flush_def flush_nonblocking_sock_def)
qed

lemma tunnel_shutdown_le:
  assumes "finite_law sys m" and "tunnel_shutdown sys c u t s = (t', s')"
  shows "m (ps_k s') \<le> m (ps_k s)"
proof -
  have le: "m (ps_k (snd (syscall (sys_shutdown sys f) v))) \<le> m (ps_k v)" for f v
    using syscall_le [of m "sys_shutdown sys f" v] finite_le(1) [OF assms(1)] by (metis prod.collapse)
  show ?thesis using assms(2) le by (auto simp: tunnel_shutdown_def Let_def split: if_splits intro: order_trans)
qed

lemma tunnel_read_returns:
  assumes "finite_law sys m"
  shows "\<exists>nx t' s'. tunnel_read sys c u revents t s = Some (nx, t', s') \<and> m (ps_k s') \<le> m (ps_k s)"
proof -
  have up: "\<exists>ok t1 s1. tunnel_read_client sys c revents t s = Some (ok, t1, s1) \<and> m (ps_k s1) \<le> m (ps_k s)"
    using append_read_returns [OF assms, of c "tu_c2u t" "tu_client_eof t" s] by (auto simp: tunnel_read_client_def)
  have down: "\<exists>ok t2 s2. tunnel_read_upstream sys u revents t1 s1 = Some (ok, t2, s2) \<and> m (ps_k s2) \<le> m (ps_k s1)" for t1 s1
    using append_read_returns [OF assms, of "so_fd u" "tu_u2c t1" "tu_upstream_eof t1" s1]
    by (auto simp: tunnel_read_upstream_def append_nonblocking_read_sock_def)
  from up obtain ok t1 s1 where 1: "tunnel_read_client sys c revents t s = Some (ok, t1, s1)" "m (ps_k s1) \<le> m (ps_k s)" by blast
  from down obtain ok2 t2 s2 where 2: "tunnel_read_upstream sys u revents t1 s1 = Some (ok2, t2, s2)" "m (ps_k s2) \<le> m (ps_k s1)" by blast
  show ?thesis using 1 2 by (cases ok) (auto simp: tunnel_read_def)
qed

text \<open>The \<^verbatim>\<open>continue\<close> for an empty set of events is never taken: then both streams have ended and both buffers are empty.\<close>

lemma events_nonzero:
  assumes "\<not> (tu_client_eof t \<and> tu_upstream_eof t \<and> tu_c2u t = [] \<and> tu_u2c t = [])"
  shows "\<not> (client_events t = 0 \<and> upstream_events t = 0)"
  using assms by (auto simp: client_events_def upstream_events_def POLLIN_def POLLOUT_def)

lemma tunnel_poll_returns:
  assumes "finite_law sys m" and "\<not> (client_events t = 0 \<and> upstream_events t = 0)"
  shows "\<exists>nx t' s'. tunnel_poll sys c u t s = Some (nx, t', s') \<and> m (ps_k s') \<le> m (ps_k s) \<and>
    (nx = Tunnel_again \<longrightarrow> m (ps_k s') < m (ps_k s))"
proof -
  let ?fs = "[(c, client_events t), (so_fd u, upstream_events t)]"
  obtain r s1 where p: "syscall (sys_poll sys ?fs kIoTimeoutMs) s = (r, s1)" by (rule prod.exhaust)
  then have "sys_poll sys ?fs kIoTimeoutMs (ps_k s) = (r, ps_k s1)"
    by (auto simp: syscall_def split: prod.splits sum.splits)
  note le = finite_calls(4) [OF assms(1) this]
  show ?thesis
  proof (cases r)
    case (Inl e)
    then show ?thesis using p assms(2) le by (auto simp: tunnel_poll_def poll_event_def)
  next
    case (Inr revents)
    obtain nx t' s' where "tunnel_read sys c u revents t s1 = Some (nx, t', s')" "m (ps_k s') \<le> m (ps_k s1)"
      using tunnel_read_returns [OF assms(1)] by blast
    then show ?thesis using p assms(2) le Inr by (auto simp: tunnel_poll_def poll_event_def)
  qed
qed

lemma tunnel_step_returns:
  assumes "finite_law sys m"
  shows "\<exists>nx t' s'. tunnel_step sys c u t s = Some (nx, t', s') \<and> (nx = Tunnel_again \<longrightarrow> m (ps_k s') < m (ps_k s))"
proof -
  obtain ok t1 s1 where f: "tunnel_flush sys c u t s = Some (ok, t1, s1)" "m (ps_k s1) \<le> m (ps_k s)"
    using tunnel_flush_returns [OF assms] by blast
  obtain t2 s2 where d: "tunnel_shutdown sys c u t1 s1 = (t2, s2)" by (rule prod.exhaust)
  have le: "m (ps_k s2) \<le> m (ps_k s)" using tunnel_shutdown_le [OF assms d] f(2) by simp
  show ?thesis
  proof (cases "ok \<and> \<not> (tu_client_eof t2 \<and> tu_upstream_eof t2 \<and> tu_c2u t2 = [] \<and> tu_u2c t2 = [])")
    case True
    then obtain nx t' s' where "tunnel_poll sys c u t2 s2 = Some (nx, t', s')" "nx = Tunnel_again \<longrightarrow> m (ps_k s') < m (ps_k s2)"
      using tunnel_poll_returns [OF assms events_nonzero] by blast
    moreover have "tunnel_step sys c u t s = tunnel_poll sys c u t2 s2" using True by (auto simp: tunnel_step_def f d)
    ultimately show ?thesis using le by auto
  next
    case False
    then show ?thesis by (cases ok) (auto simp: tunnel_step_def f d)
  qed
qed

lemma tunnel_loop_returns:
  assumes "finite_law sys m"
  shows "\<exists>ok t' s'. tunnel_loop sys c u t s = Some (ok, t', s')"
proof (induction "m (ps_k s)" arbitrary: t s rule: less_induct)
  case less
  obtain nx t1 s1 where st: "tunnel_step sys c u t s = Some (nx, t1, s1)" "nx = Tunnel_again \<longrightarrow> m (ps_k s1) < m (ps_k s)"
    using tunnel_step_returns [OF assms] by blast
  show ?case
  proof (cases nx)
    case Tunnel_again
    with st less [of s1 t1] show ?thesis by (subst tunnel_loop.simps) simp
  qed (use st in \<open>subst tunnel_loop.simps, auto\<close>)+
qed

section \<open>A whole tunnel\<close>

text \<open>Both directions, from the state \<open>k\<close> before the tunnel to the state \<open>k'\<close> after it, with upstream \<open>u\<close>.\<close>

definition tunnelled :: "'k obs \<Rightarrow> fd \<Rightarrow> fd \<Rightarrow> 'k \<Rightarrow> bool \<Rightarrow> 'k \<Rightarrow> bool" where
  "tunnelled ob c u k ok k' \<longleftrightarrow>
     (\<exists>from_client to_client. ob_in ob k' c = ob_in ob k c @ from_client \<and> ob_out ob k' c = ob_out ob k c @ to_client \<and>
        prefix (ob_out ob k' u) from_client \<and>
        prefix to_client (build_connect_established_response ''hpserver'' @ ob_in ob k' u) \<and>
        (ok \<longrightarrow> ob_out ob k' u = from_client \<and> to_client = build_connect_established_response ''hpserver'' @ ob_in ob k' u))"

definition others_kept :: "'k obs \<Rightarrow> fd \<Rightarrow> 'k \<Rightarrow> 'k \<Rightarrow> bool" where
  "others_kept ob c k k' \<longleftrightarrow> ob_open ob k' = ob_open ob k \<and> keeps_open ob (ob_open ob k - {c}) k k'"

lemma tunnel_after_send:
  assumes "open_law sys ob" and "connected ob k (Some u) (ps_k s1)" and "c \<in> ob_open ob k"
    and "adds_out ob c (take n (build_connect_established_response ''hpserver'')) (ps_k s1) (ps_k s2)"
  shows "others_kept ob c k (ps_k (call_close sys (so_fd u) s2)) \<and> tunnelled ob c (so_fd u) k False (ps_k (call_close sys (so_fd u) s2))"
proof -
  have "tunnelled ob c (so_fd u) k False (ps_k (call_close sys (so_fd u) s2))"
    using assms unfolding tunnelled_def
    by - (rule exI [of _ "[]"], rule exI [of _ "take n (build_connect_established_response ''hpserver'')"],
      auto simp: call_close_obs [OF assms(1)] adds_out_def connected_def keeps_open_def take_is_prefix)
  moreover have "others_kept ob c k (ps_k (call_close sys (so_fd u) s2))"
    using assms by (auto simp: others_kept_def call_close_obs [OF assms(1)] adds_out_def connected_def keeps_open_def)
  ultimately show ?thesis by blast
qed

lemma tunnel_after_loop:
  assumes "open_law sys ob" and "connected ob k (Some u) (ps_k s1)" and "c \<in> ob_open ob k"
    and "adds_out ob c (build_connect_established_response ''hpserver'') (ps_k s1) (ps_k s2)"
    and "relays ob c (so_fd u) (ps_k s2) t (ps_k s3)" and "ok \<longrightarrow> tu_c2u t = [] \<and> tu_u2c t = []"
  shows "others_kept ob c k (ps_k (call_close sys (so_fd u) s3)) \<and> tunnelled ob c (so_fd u) k ok (ps_k (call_close sys (so_fd u) s3))"
proof -
  define est where "est = build_connect_established_response ''hpserver''"
  have f: "so_fd u \<noteq> c" "so_fd u \<notin> ob_open ob k" using assms(2,3) by (auto simp: connected_def)
  from assms(5) obtain up down where rel: "ob_out ob (ps_k s3) (so_fd u) = ob_out ob (ps_k s2) (so_fd u) @ up"
    "ob_in ob (ps_k s3) c = ob_in ob (ps_k s2) c @ up @ drop (tu_c2u_offset t) (tu_c2u t)"
    "ob_out ob (ps_k s3) c = ob_out ob (ps_k s2) c @ down"
    "ob_in ob (ps_k s3) (so_fd u) = ob_in ob (ps_k s2) (so_fd u) @ down @ drop (tu_u2c_offset t) (tu_u2c t)"
    unfolding relays_def by blast
  have k2: "ob_out ob (ps_k s2) (so_fd u) = []" "ob_in ob (ps_k s2) (so_fd u) = []" "ob_in ob (ps_k s2) c = ob_in ob k c"
    "ob_out ob (ps_k s2) c = ob_out ob k c @ est"
    using assms(2-4) f by (auto simp: adds_out_def connected_def keeps_open_def est_def)
  have "tunnelled ob c (so_fd u) k ok (ps_k (call_close sys (so_fd u) s3))"
    unfolding tunnelled_def est_def [symmetric]
    by (intro exI [of _ "up @ drop (tu_c2u_offset t) (tu_c2u t)"] exI [of _ "est @ down"])
      (use rel k2 assms(6) in \<open>auto simp: call_close_obs [OF assms(1)]\<close>)
  moreover have "others_kept ob c k (ps_k (call_close sys (so_fd u) s3))"
    using assms(2,4,5) f by (auto simp: others_kept_def call_close_obs [OF assms(1)] adds_out_def connected_def keeps_open_def relays_def)
  ultimately show ?thesis by blast
qed

lemma connect_tunnel_obs:
  assumes law: "kernel_law sys ob" and c: "c \<in> ob_open ob (ps_k s)" and run: "forward_connect_tunnel sys c req s = Some (ok, e, s')"
  shows "others_kept ob c (ps_k s) (ps_k s') \<and> (ok \<longrightarrow> e = 0) \<and>
    (\<not> ok \<and> keeps_open ob {c} (ps_k s) (ps_k s') \<or> (\<exists>u. tunnelled ob c u (ps_k s) ok (ps_k s')))"
proof (cases "c < 0 \<or> ri_host req = []")
  case True
  then show ?thesis using run by (auto simp: forward_connect_tunnel_def others_kept_def keeps_open_def)
next
  case False
  define port where "port = (if ri_port req = 0 then 443 else ri_port req)"
  have o: "open_law sys ob" and sl: "send_law sys ob" using law by (simp_all add: kernel_law_def)
  obtain conn s1 where cn: "connect_upstream sys (ri_host req) port s = Some (conn, s1)"
    using run False by (auto simp: forward_connect_tunnel_def port_def split: Option.bind_splits)
  note co = connect_upstream_obs [OF law cn]
  show ?thesis
  proof (cases conn)
    case None
    then have "s' = s1" "\<not> ok" using run False cn by (auto simp: forward_connect_tunnel_def port_def)
    then show ?thesis using co None c by (auto simp: connected_def keeps_open_def others_kept_def)
  next
    case (Some u)
    obtain ok1 s2 where sn: "send_all_nonblocking sys c (build_connect_established_response ''hpserver'') s1 = Some (ok1, s2)"
      using run False cn Some by (auto simp: forward_connect_tunnel_def port_def split: Option.bind_splits)
    obtain n where n: "adds_out ob c (take n (build_connect_established_response ''hpserver'')) (ps_k s1) (ps_k s2)"
      "ok1 \<longrightarrow> take n (build_connect_established_response ''hpserver'') = build_connect_established_response ''hpserver''"
      using send_all_obs [OF sn [unfolded send_all_nonblocking_def] sl _ wait_fd_quiet [OF law]] by auto
    show ?thesis
    proof (cases ok1)
      case f: False
      then have "s' = call_close sys (so_fd u) s2" "\<not> ok"
        using run False cn Some sn by (auto simp: forward_connect_tunnel_def port_def)
      then show ?thesis using tunnel_after_send [OF o co [unfolded Some] c n(1)] by auto
    next
      case True
      with run False cn Some sn obtain t s3 where lp: "tunnel_loop sys c u tunnel_new s2 = Some (ok, t, s3)"
        and s': "s' = call_close sys (so_fd u) s3" "e = (if ok then 0 else ps_errno s3)"
        by (auto simp: forward_connect_tunnel_def port_def split: Option.bind_splits)
      have "c \<noteq> so_fd u" using co Some c by (auto simp: connected_def)
      moreover have "relays ob c (so_fd u) (ps_k s2) tunnel_new (ps_k s2)" by (simp add: relays_def tunnel_new_def)
      ultimately have "relays ob c (so_fd u) (ps_k s2) t (ps_k s3)" "ok \<longrightarrow> tu_c2u t = [] \<and> tu_u2c t = []"
        using tunnel_loop_relays [OF lp law] by auto
      from tunnel_after_loop [OF o co [unfolded Some] c _ this] n True show ?thesis by (auto simp: s')
    qed
  qed
qed

section \<open>Properties\<close>

text \<open>C7. A CONNECT tunnel relays faithfully: whatever the peers and the system calls do, when \<open>forward_connect_tunnel\<close> returns it has
  closed the upstream and touched no other open descriptor; what the upstream was sent is a prefix of what the client
  sent, and what the client was sent is a prefix of the established response followed by what the upstream sent; and
  when it reports success both are the whole of it.\<close>

theorem connect_tunnel_relays:
  assumes "kernel_law sys ob" and "c \<in> ob_open ob (ps_k s)" and "forward_connect_tunnel sys c req s = Some (ok, e, s')"
  shows "ob_open ob (ps_k s') = ob_open ob (ps_k s) \<and>
    (\<forall>g \<in> ob_open ob (ps_k s). g \<noteq> c \<longrightarrow> ob_in ob (ps_k s') g = ob_in ob (ps_k s) g \<and> ob_out ob (ps_k s') g = ob_out ob (ps_k s) g) \<and>
    (\<not> ok \<and> ob_in ob (ps_k s') c = ob_in ob (ps_k s) c \<and> ob_out ob (ps_k s') c = ob_out ob (ps_k s) c \<or>
     (\<exists>u from_client to_client. ob_in ob (ps_k s') c = ob_in ob (ps_k s) c @ from_client \<and>
        ob_out ob (ps_k s') c = ob_out ob (ps_k s) c @ to_client \<and> prefix (ob_out ob (ps_k s') u) from_client \<and>
        prefix to_client (build_connect_established_response ''hpserver'' @ ob_in ob (ps_k s') u) \<and>
        (ok \<longrightarrow> e = 0 \<and> ob_out ob (ps_k s') u = from_client \<and>
           to_client = build_connect_established_response ''hpserver'' @ ob_in ob (ps_k s') u)))"
  using connect_tunnel_obs [OF assms]
  by (fastforce simp: others_kept_def keeps_open_def tunnelled_def)

lemma demo_flush:
  "flush_nonblocking demo_sys f buf 0 s = Some (True, [], 0, Ps (ps_errno s) ((ps_k s)\<lparr>dk_out := (dk_out (ps_k s))(f := dk_out (ps_k s) f @ buf)\<rparr>))"
proof (cases "buf = []")
  case True
  then show ?thesis by (subst flush_nonblocking.simps) simp
next
  case False
  then show ?thesis
    by (subst flush_nonblocking.simps, simp add: call_send_def demo_sys_def) (subst flush_nonblocking.simps, simp)
qed

lemma tunnel_total:
  assumes "finite_law sys m"
  shows "\<exists>ok e s'. forward_connect_tunnel sys c req s = Some (ok, e, s')"
proof (cases "c < 0 \<or> ri_host req = []")
  case False
  define port where "port = (if ri_port req = 0 then 443 else ri_port req)"
  obtain conn s1 where cn: "connect_upstream sys (ri_host req) port s = Some (conn, s1)"
    using connect_upstream_returns [OF assms] by blast
  obtain ok s2 where sn: "send_all_nonblocking sys c (build_connect_established_response ''hpserver'') s1 = Some (ok, s2)"
    using send_all_returns [OF assms wait_fd_wait_returns [OF assms]] unfolding send_all_nonblocking_def by blast
  obtain ok2 t s3 where lp: "tunnel_loop sys c (the conn) tunnel_new s2 = Some (ok2, t, s3)"
    using tunnel_loop_returns [OF assms] by blast
  show ?thesis using False cn sn lp by (cases conn; cases ok) (auto simp: forward_connect_tunnel_def port_def)
qed (auto simp: forward_connect_tunnel_def)

text \<open>C10. The relay ends when the environment produces finitely many events: there is no busy loop, since every further iteration
  follows a readiness report or an interruption.\<close>

theorem connect_tunnel_returns:
  assumes "finite_law sys m"
  shows "\<exists>ok e s'. forward_connect_tunnel sys c req s = Some (ok, e, s')"
  using assms by (rule tunnel_total)

theorem connect_tunnel_returns_witness:
  "\<exists>ok e s'. forward_connect_tunnel demo_sys 0 demo_request (demo_boot [Received ''x''] [[POLLIN, POLLIN]]) = Some (ok, e, s')"
  by (rule connect_tunnel_returns [OF demo_finite_law])

theorem connect_tunnel_relays_witness:
  "\<exists>ok e s'. forward_connect_tunnel demo_sys 0 demo_request (demo_boot [Received ''x''] [[POLLIN, POLLIN]]) = Some (ok, e, s') \<and>
     set (dk_open (ps_k s')) = {0}"
proof -
  obtain ok e s' where r: "forward_connect_tunnel demo_sys 0 demo_request (demo_boot [Received ''x''] [[POLLIN, POLLIN]]) = Some (ok, e, s')"
    using tunnel_total [OF demo_finite_law] by blast
  from connect_tunnel_relays [OF demo_kernel_law _ r] r show ?thesis by (auto simp: demo_obs_def demo_boot_def)
qed

text \<open>A hang-up ends the tunnel even when data can still be read: if the poll reports POLLHUP for a peer, also together
  with POLLIN, the iteration stops with ECONNRESET and reads nothing more.\<close>

theorem tunnel_hangup_discards:
  assumes "tunnel_flush sys c u t s = Some (True, t1, s1)" and "tunnel_shutdown sys c u t1 s1 = (t2, s2)"
    and "\<not> (tu_client_eof t2 \<and> tu_upstream_eof t2)"
    and "sys_poll sys [(c, client_events t2), (so_fd u, upstream_events t2)] 20000 (ps_k s2) = (Inr [r0, r1], k3)"
    and "r1 = POLLIN OR POLLHUP"
  shows "tunnel_step sys c u t s = Some (Tunnel_break, t2, Ps ECONNRESET k3) \<and> tunnel_loop sys c u t s = Some (False, t2, Ps ECONNRESET k3)"
proof -
  have "\<not> (client_events t2 = 0 \<and> upstream_events t2 = 0)" using assms(3) by (intro events_nonzero) blast
  moreover have "r1 \<noteq> 0" "hangup r1"
    using assms(5) by (simp_all add: hangup_def POLLIN_def POLLHUP_def POLLERR_def POLLNVAL_def)
  ultimately have "tunnel_step sys c u t s = Some (Tunnel_break, t2, Ps ECONNRESET k3)"
    using assms(1-4) by (auto simp: tunnel_step_def tunnel_poll_def syscall_def kIoTimeoutMs_def revent_def)
  then show ?thesis by (subst tunnel_loop.simps) simp
qed

theorem tunnel_hangup_discards_witness:
  "\<exists>t s. tunnel_loop demo_sys 0 (socket_ops_of 1) tunnel_new (demo_boot [Received ''data''] [[0, POLLIN OR POLLHUP]]) = Some (False, t, s) \<and>
     ps_errno s = ECONNRESET \<and> dk_recvs (ps_k s) = [Received ''data'']"
proof -
  let ?s = "demo_boot [Received ''data''] [[0, POLLIN OR POLLHUP]]"
  have f: "tunnel_flush demo_sys 0 (socket_ops_of 1) tunnel_new ?s = Some (True, tunnel_new, ?s)"
    by (simp add: tunnel_flush_def flush_nonblocking_sock_def tunnel_new_def demo_flush demo_boot_def fun_upd_idem)
  have d: "tunnel_shutdown demo_sys 0 (socket_ops_of 1) tunnel_new ?s = (tunnel_new, ?s)"
    by (simp add: tunnel_shutdown_def tunnel_new_def)
  have "sys_poll demo_sys fs t (ps_k ?s) = (Inr [0, POLLIN OR POLLHUP], (ps_k ?s)\<lparr>dk_polls := []\<rparr>)" for fs t
    by (simp add: demo_sys_def demo_boot_def)
  from tunnel_hangup_discards [OF f d _ this] show ?thesis by (simp add: tunnel_new_def demo_boot_def)
qed
end
