(* ===== verification/Timer.thy ===== *)
theory Timer
  imports Prelude "HOL-Library.Monad_Syntax"
begin

text \<open>
  \<^verbatim>\<open>src/util/timer.h\<close>: the idle timers of the client connections. Entries are kept by identifier; a
  heap of nodes, ordered by expiry, may hold stale nodes, recognised by version and expiry. Times are
  nanoseconds of the steady clock. A callback is a value of type \<open>'c\<close>; what running it does to the timer
  and to the rest of the program (\<open>'w\<close>) is the argument \<open>run_cb\<close>, and \<open>now\<close> reads the clock.
\<close>

section \<open>Model\<close>

record timer_node =
  tn_id :: int
  tn_expires :: int
  tn_version :: u64

record 'c timer_entry =
  te_expires :: int
  te_callback :: "'c option"
  te_version :: u64

text \<open>The priority queue is the list of its nodes in the order in which they would be popped.\<close>

record 'c timer =
  ti_heap :: "timer_node list"
  ti_entries :: "(int \<times> 'c timer_entry) list"

definition timer_new :: "'c timer" where
  "timer_new = \<lparr>ti_heap = [], ti_entries = []\<rparr>"

definition kCompactMinHeapSize :: nat where "kCompactMinHeapSize = 4096"

definition kCompactRatioThreshold :: nat where "kCompactRatioThreshold = 4"

definition heap_push :: "timer_node \<Rightarrow> timer_node list \<Rightarrow> timer_node list" where
  "heap_push n h = insort_key tn_expires n h"

definition milliseconds :: "int \<Rightarrow> int" where
  "milliseconds ms = ms * 1000000"

definition entry_node :: "int \<times> 'c timer_entry \<Rightarrow> timer_node" where
  "entry_node p = \<lparr>tn_id = fst p, tn_expires = te_expires (snd p), tn_version = te_version (snd p)\<rparr>"

definition maybe_compact_heap :: "'c timer \<Rightarrow> 'c timer" where
  "maybe_compact_heap t =
     (if length (ti_heap t) < kCompactMinHeapSize then t
      else let live_count = length (ti_entries t)
           in if live_count = 0 then t\<lparr>ti_heap := []\<rparr>
              else if length (ti_heap t) \<le> live_count * kCompactRatioThreshold then t
              else t\<lparr>ti_heap := fold (\<lambda>p. heap_push (entry_node p)) (ti_entries t) []\<rparr>)"

text \<open>\<open>entries_[id]\<close> default-constructs an absent entry with version 0.\<close>

definition add :: "int \<Rightarrow> int \<Rightarrow> int \<Rightarrow> 'c option \<Rightarrow> 'c timer \<Rightarrow> 'c timer" where
  "add tnow i timeout_ms callback t =
     (if i < 0 then t
      else let expire = tnow + milliseconds timeout_ms;
               v = (case map_of (ti_entries t) i of None \<Rightarrow> 0 | Some e \<Rightarrow> te_version e) + 1
           in maybe_compact_heap
                (t\<lparr>ti_entries := AList.update i \<lparr>te_expires = expire, te_callback = callback, te_version = v\<rparr> (ti_entries t),
                   ti_heap := heap_push \<lparr>tn_id = i, tn_expires = expire, tn_version = v\<rparr> (ti_heap t)\<rparr>))"

definition adjust :: "int \<Rightarrow> int \<Rightarrow> int \<Rightarrow> 'c timer \<Rightarrow> 'c timer" where
  "adjust tnow i timeout_ms t =
     (case map_of (ti_entries t) i of
        None \<Rightarrow> t
      | Some e \<Rightarrow>
          let v = te_version e + 1; expire = tnow + milliseconds timeout_ms
          in maybe_compact_heap
               (t\<lparr>ti_entries := AList.update i (e\<lparr>te_version := v, te_expires := expire\<rparr>) (ti_entries t),
                  ti_heap := heap_push \<lparr>tn_id = i, tn_expires = expire, tn_version = v\<rparr> (ti_heap t)\<rparr>))"

definition remove :: "int \<Rightarrow> 'c timer \<Rightarrow> 'c timer" where
  "remove i t = maybe_compact_heap (t\<lparr>ti_entries := AList.delete i (ti_entries t)\<rparr>)"

definition live :: "(int \<times> 'c timer_entry) list \<Rightarrow> timer_node \<Rightarrow> bool" where
  "live es n \<longleftrightarrow>
     (case map_of es (tn_id n) of
        None \<Rightarrow> False
      | Some e \<Rightarrow> te_version e = tn_version n \<and> te_expires e = tn_expires n)"

definition discard_stale_top :: "'c timer \<Rightarrow> 'c timer" where
  "discard_stale_top t = t\<lparr>ti_heap := dropWhile (\<lambda>n. \<not> live (ti_entries t) n) (ti_heap t)\<rparr>"

partial_function (option) tick ::
  "('w \<Rightarrow> int \<times> 'w) \<Rightarrow> ('c \<Rightarrow> 'c timer \<times> 'w \<Rightarrow> 'c timer \<times> 'w) \<Rightarrow> 'c timer \<times> 'w \<Rightarrow> ('c timer \<times> 'w) option" where
  "tick now run_cb s =
     (let t = discard_stale_top (fst s)
      in case ti_heap t of
           [] \<Rightarrow> Some (t, snd s)
         | current # rest \<Rightarrow>
             (case now (snd s) of (tnow, w) \<Rightarrow>
                if tn_expires current > tnow then Some (t, w)
                else case map_of (ti_entries t) (tn_id current) of
                       None \<Rightarrow> tick now run_cb (t\<lparr>ti_heap := rest\<rparr>, w)
                     | Some e \<Rightarrow>
                         (let t' = t\<lparr>ti_entries := AList.delete (tn_id current) (ti_entries t), ti_heap := rest\<rparr>
                          in case te_callback e of
                               None \<Rightarrow> tick now run_cb (t', w)
                             | Some c \<Rightarrow> tick now run_cb (run_cb c (t', w)))))"

text \<open>\<^verbatim>\<open>duration_cast\<close> truncates towards zero; the count is cast to a 32-bit \<^verbatim>\<open>int\<close>.\<close>

definition to_ms :: "int \<Rightarrow> int" where
  "to_ms ns = (if ns \<ge> 0 then ns div 1000000 else - ((- ns) div 1000000))"

definition int_cast :: "int \<Rightarrow> int" where
  "int_cast x = sint (word_of_int x :: u32)"

definition get_next_timeout_ms ::
  "('w \<Rightarrow> int \<times> 'w) \<Rightarrow> ('c \<Rightarrow> 'c timer \<times> 'w \<Rightarrow> 'c timer \<times> 'w) \<Rightarrow> 'c timer \<times> 'w \<Rightarrow> (int \<times> 'c timer \<times> 'w) option" where
  "get_next_timeout_ms now run_cb s =
     do {
       (t0, w) \<leftarrow> tick now run_cb s;
       let t = discard_stale_top t0;
       (case ti_heap t of
          [] \<Rightarrow> Some (-1, t, w)
        | first # _ \<Rightarrow>
            (case now w of (tnow, w') \<Rightarrow>
               let diff = to_ms (tn_expires first - tnow)
               in Some (if diff > 0 then int_cast diff else 0, t, w')))
     }"

definition timer_contains :: "int \<Rightarrow> 'c timer \<Rightarrow> bool" where
  "timer_contains i t \<longleftrightarrow> map_of (ti_entries t) i \<noteq> None"

definition timer_empty :: "'c timer \<Rightarrow> bool" where
  "timer_empty t \<longleftrightarrow> ti_entries t = []"

definition timer_size :: "'c timer \<Rightarrow> nat" where
  "timer_size t = length (ti_entries t)"

section \<open>Invariant\<close>

text \<open>Every entry has its node in the heap, so no timer can be forgotten.\<close>

definition timer_wf :: "'c timer \<Rightarrow> bool" where
  "timer_wf t \<longleftrightarrow> distinct (map fst (ti_entries t)) \<and> sorted (map tn_expires (ti_heap t)) \<and>
     entry_node ` set (ti_entries t) \<subseteq> set (ti_heap t)"

lemma timer_wf_new: "timer_wf timer_new"
  by (simp add: timer_wf_def timer_new_def)

lemma set_heap_push [simp]: "set (heap_push n h) = insert n (set h)"
  by (simp add: heap_push_def set_insort_key)

lemma length_heap_push [simp]: "length (heap_push n h) = Suc (length h)"
  by (simp add: heap_push_def)

lemma sorted_heap_push [simp]: "sorted (map tn_expires (heap_push n h)) = sorted (map tn_expires h)"
  by (simp add: heap_push_def sorted_insort_key)

lemma rebuilt_heap:
  "set (fold (\<lambda>p. heap_push (entry_node p)) es h) = entry_node ` set es \<union> set h"
  "length (fold (\<lambda>p. heap_push (entry_node p)) es h) = length es + length h"
  "sorted (map tn_expires (fold (\<lambda>p. heap_push (entry_node p)) es h)) = sorted (map tn_expires h)"
  by (induction es arbitrary: h) auto

lemma live_entry:
  assumes "distinct (map fst es)"
  shows "live es n \<longleftrightarrow> n \<in> entry_node ` set es"
proof
  assume "live es n"
  then obtain e where "map_of es (tn_id n) = Some e" "n = entry_node (tn_id n, e)"
    by (cases n) (auto simp: live_def entry_node_def split: option.splits)
  then show "n \<in> entry_node ` set es" by (metis image_eqI map_of_SomeD)
next
  assume "n \<in> entry_node ` set es"
  then obtain i e where "(i, e) \<in> set es" "n = entry_node (i, e)" by auto
  with assms show "live es n" by (simp add: live_def entry_node_def)
qed

lemma compact_entries [simp]: "ti_entries (maybe_compact_heap t) = ti_entries t"
  by (simp add: maybe_compact_heap_def Let_def)

lemma compact_wf: "timer_wf t \<Longrightarrow> timer_wf (maybe_compact_heap t)"
  by (auto simp: maybe_compact_heap_def Let_def timer_wf_def rebuilt_heap)

lemma compact_length: "length (ti_heap (maybe_compact_heap t)) \<le> length (ti_heap t)"
  by (auto simp: maybe_compact_heap_def Let_def rebuilt_heap kCompactRatioThreshold_def)

lemma compact_bound:
  "length (ti_heap (maybe_compact_heap t)) < kCompactMinHeapSize \<or>
   length (ti_heap (maybe_compact_heap t)) \<le> kCompactRatioThreshold * length (ti_entries t)"
  by (auto simp: maybe_compact_heap_def Let_def rebuilt_heap kCompactRatioThreshold_def kCompactMinHeapSize_def)

lemma update_entries_wf:
  assumes "timer_wf t" and "n = entry_node (i, e)"
  shows "timer_wf (t\<lparr>ti_entries := AList.update i e (ti_entries t), ti_heap := heap_push n (ti_heap t)\<rparr>)"
proof -
  have "set (AList.update i e es) \<subseteq> insert (i, e) (set es)" for es by (induction es) auto
  then show ?thesis
    using assms by (auto simp: timer_wf_def distinct_update)
qed

lemma delete_entries_wf:
  "timer_wf t \<Longrightarrow> timer_wf (t\<lparr>ti_entries := AList.delete i (ti_entries t)\<rparr>)"
  by (auto simp: timer_wf_def AList.delete_eq intro: distinct_map_filter)

lemma add_wf: "timer_wf t \<Longrightarrow> timer_wf (add tnow i ms c t)"
  by (simp add: add_def Let_def compact_wf update_entries_wf entry_node_def)

lemma adjust_wf: "timer_wf t \<Longrightarrow> timer_wf (adjust tnow i ms t)"
  by (simp add: adjust_def Let_def compact_wf update_entries_wf entry_node_def split: option.split)

lemma remove_wf: "timer_wf t \<Longrightarrow> timer_wf (remove i t)"
  by (simp add: remove_def compact_wf delete_entries_wf)

lemma remove_entries [simp]: "ti_entries (remove i t) = AList.delete i (ti_entries t)"
  by (simp add: remove_def)

lemma remove_heap_length: "length (ti_heap (remove i t)) \<le> length (ti_heap t)"
  using compact_length [of "t\<lparr>ti_entries := AList.delete i (ti_entries t)\<rparr>"] by (simp add: remove_def)

lemma discard_entries [simp]: "ti_entries (discard_stale_top t) = ti_entries t"
  by (simp add: discard_stale_top_def)

lemma discard_length: "length (ti_heap (discard_stale_top t)) \<le> length (ti_heap t)"
  by (simp add: discard_stale_top_def length_dropWhile_le)

lemma in_dropWhile: "x \<in> set xs \<Longrightarrow> \<not> P x \<Longrightarrow> x \<in> set (dropWhile P xs)"
  by (induction xs) auto

lemma sorted_dropWhile_key: "sorted (map f xs) \<Longrightarrow> sorted (map f (dropWhile P xs))"
  by (induction xs) auto

lemma discard_wf: "timer_wf t \<Longrightarrow> timer_wf (discard_stale_top t)"
  by (auto simp: timer_wf_def discard_stale_top_def sorted_dropWhile_key live_entry intro!: in_dropWhile)

text \<open>After discarding, the top node is live and expires first; an empty heap means no entries.\<close>

lemma discard_top:
  assumes "timer_wf t"
  shows "case ti_heap (discard_stale_top t) of
      [] \<Rightarrow> ti_entries t = []
    | n # h \<Rightarrow> live (ti_entries t) n \<and> (\<forall>p \<in> set (ti_entries t). tn_expires n \<le> te_expires (snd p))"
proof (cases "ti_heap (discard_stale_top t)")
  case Nil
  with discard_wf [OF assms] show ?thesis by (simp add: timer_wf_def)
next
  case (Cons n h)
  then have "live (ti_entries t) n" by (auto simp: discard_stale_top_def dropWhile_eq_Cons_conv)
  moreover have "tn_expires n \<le> te_expires (snd p)" if "p \<in> set (ti_entries t)" for p
  proof -
    have "entry_node p \<in> set (n # h)" using discard_wf [OF assms] that Cons by (auto simp: timer_wf_def)
    then have "tn_expires n \<le> tn_expires (entry_node p)"
      using discard_wf [OF assms] Cons by (auto simp: timer_wf_def)
    then show ?thesis by (simp add: entry_node_def)
  qed
  ultimately show ?thesis using Cons by simp
qed

text \<open>Popping the live top together with its entry keeps the invariant.\<close>

lemma pop_entry_wf:
  assumes "timer_wf t" and "ti_heap t = n # h"
  shows "timer_wf (t\<lparr>ti_entries := AList.delete (tn_id n) (ti_entries t), ti_heap := h\<rparr>)"
proof -
  have "entry_node p \<in> set h" if "p \<in> set (AList.delete (tn_id n) (ti_entries t))" for p
  proof -
    from that have "fst p \<noteq> tn_id n" "p \<in> set (ti_entries t)" by (auto simp: AList.delete_eq)
    then have "entry_node p \<noteq> n" "entry_node p \<in> set (n # h)"
      using assms by (auto simp: timer_wf_def entry_node_def)
    then show ?thesis by simp
  qed
  then show ?thesis using assms by (auto simp: timer_wf_def distinct_delete)
qed

section \<open>Running the timer\<close>

text \<open>
  The client of a timer: each callback belongs to one identifier, and running it when that identifier
  has no entry leaves the entries alone, keeps the invariant and does not grow the heap.
\<close>

locale timer_client =
  fixes now :: "'w \<Rightarrow> int \<times> 'w"
    and run_cb :: "'c \<Rightarrow> 'c timer \<times> 'w \<Rightarrow> 'c timer \<times> 'w"
    and cb_id :: "'c \<Rightarrow> int"
  assumes cb_entries: "timer_wf t \<Longrightarrow> map_of (ti_entries t) (cb_id c) = None \<Longrightarrow>
            ti_entries (fst (run_cb c (t, w))) = ti_entries t"
    and cb_wf: "timer_wf t \<Longrightarrow> timer_wf (fst (run_cb c (t, w)))"
    and cb_heap: "length (ti_heap (fst (run_cb c (t, w)))) \<le> length (ti_heap t)"
begin

definition owned :: "'c timer \<Rightarrow> bool" where
  "owned t \<longleftrightarrow> (\<forall>(i, e) \<in> set (ti_entries t). \<forall>c. te_callback e = Some c \<longrightarrow> cb_id c = i)"

lemma owned_delete: "owned t \<Longrightarrow> owned (t\<lparr>ti_entries := AList.delete i (ti_entries t), ti_heap := h\<rparr>)"
  by (auto simp: owned_def AList.delete_eq)

text \<open>One iteration of \<open>tick\<close> that fires: the entry of the top node is removed, the others stay, and
  the heap is shorter.\<close>

definition fired :: "timer_node \<Rightarrow> timer_node list \<Rightarrow> 'c timer_entry \<Rightarrow> 'c timer \<times> 'w \<Rightarrow> 'c timer \<times> 'w" where
  "fired n h e s =
     (let t' = (fst s)\<lparr>ti_entries := AList.delete (tn_id n) (ti_entries (fst s)), ti_heap := h\<rparr>
      in case te_callback e of None \<Rightarrow> (t', snd s) | Some c \<Rightarrow> run_cb c (t', snd s))"

lemma fired_ok:
  assumes "timer_wf t" and "owned t" and "ti_heap t = n # h" and "map_of (ti_entries t) (tn_id n) = Some e"
    and r_def: "r = fst (fired n h e (t, w))"
  shows "timer_wf r \<and> owned r \<and> ti_entries r = AList.delete (tn_id n) (ti_entries t) \<and>
    length (ti_heap r) < length (ti_heap t)"
proof -
  let ?t = "t\<lparr>ti_entries := AList.delete (tn_id n) (ti_entries t), ti_heap := h\<rparr>"
  have wf: "timer_wf ?t" by (rule pop_entry_wf [OF assms(1,3)])
  have ow: "owned ?t" by (rule owned_delete [OF assms(2)])
  show ?thesis
  proof (cases "te_callback e")
    case None
    then have "r = ?t" by (simp add: r_def fired_def)
    then show ?thesis using wf ow assms(3) by simp
  next
    case (Some c)
    then have r: "r = fst (run_cb c (?t, w))" by (simp add: r_def fired_def)
    have "cb_id c = tn_id n" using Some assms(2) map_of_SomeD [OF assms(4)] by (auto simp: owned_def)
    then have "map_of (ti_entries ?t) (cb_id c) = None" by (simp add: delete_conv)
    from cb_entries [OF wf this, of w] cb_wf [OF wf, of c w] cb_heap [of c ?t w] ow assms(3)
    show ?thesis by (auto simp: r owned_def)
  qed
qed

text \<open>Every property of \<open>tick\<close> follows from this induction over the length of the heap.\<close>

lemma tick_unfold:
  assumes "timer_wf t" and "owned t"
  shows "tick now run_cb (t, w) =
     (case ti_heap (discard_stale_top t) of
        [] \<Rightarrow> Some (discard_stale_top t, w)
      | n # h \<Rightarrow>
          (if tn_expires n > fst (now w) then Some (discard_stale_top t, snd (now w))
           else tick now run_cb
                  (fired n h (the (map_of (ti_entries t) (tn_id n))) (discard_stale_top t, snd (now w)))))"
proof (cases "ti_heap (discard_stale_top t)")
  case Nil
  then show ?thesis by (subst tick.simps) simp
next
  case (Cons n h)
  then have "live (ti_entries t) n" using discard_top [OF assms(1)] by simp
  then obtain e where "map_of (ti_entries t) (tn_id n) = Some e" by (auto simp: live_def split: option.splits)
  with Cons show ?thesis
    by (subst tick.simps) (auto simp: fired_def Let_def split: prod.splits option.splits)
qed

lemma tick_induct [consumes 2, case_names Done Later Fire]:
  assumes "timer_wf t" and "owned t"
    and "\<And>t w. timer_wf t \<Longrightarrow> owned t \<Longrightarrow> ti_heap (discard_stale_top t) = [] \<Longrightarrow> P t w (Some (discard_stale_top t, w))"
    and "\<And>t w n h. timer_wf t \<Longrightarrow> owned t \<Longrightarrow> ti_heap (discard_stale_top t) = n # h \<Longrightarrow>
           tn_expires n > fst (now w) \<Longrightarrow> P t w (Some (discard_stale_top t, snd (now w)))"
    and "\<And>t w n h e t' w'. timer_wf t \<Longrightarrow> owned t \<Longrightarrow> ti_heap (discard_stale_top t) = n # h \<Longrightarrow>
           tn_expires n \<le> fst (now w) \<Longrightarrow> (tn_id n, e) \<in> set (ti_entries t) \<Longrightarrow> te_expires e = tn_expires n \<Longrightarrow>
           ti_entries t' = AList.delete (tn_id n) (ti_entries t) \<Longrightarrow>
           fired n h e (discard_stale_top t, snd (now w)) = (t', w') \<Longrightarrow>
           P t' w' (tick now run_cb (t', w')) \<Longrightarrow> P t w (tick now run_cb (t', w'))"
  shows "P t w (tick now run_cb (t, w))"
  using assms(1,2)
proof (induction "length (ti_heap t)" arbitrary: t w rule: less_induct)
  case less
  let ?d = "discard_stale_top t"
  note tick = tick_unfold [OF less.prems, of w]
  show ?case
  proof (cases "ti_heap ?d")
    case Nil
    then show ?thesis using assms(3) [OF less.prems] tick by simp
  next
    case (Cons n h)
    show ?thesis
    proof (cases "tn_expires n > fst (now w)")
      case True
      then show ?thesis using assms(4) [OF less.prems Cons] tick Cons by simp
    next
      case False
      have d: "timer_wf ?d" "owned ?d" using discard_wf less.prems by (simp_all add: owned_def)
      have "live (ti_entries t) n" using discard_top [OF less.prems(1)] Cons by simp
      then obtain e where e: "map_of (ti_entries t) (tn_id n) = Some e" "te_expires e = tn_expires n"
        by (auto simp: live_def split: option.splits)
      obtain t' w' where f: "fired n h e (?d, snd (now w)) = (t', w')" by fastforce
      from fired_ok [OF d Cons _ refl, of e "snd (now w)"] e f have
        t': "timer_wf t'" "owned t'" "ti_entries t' = AList.delete (tn_id n) (ti_entries t)"
          "length (ti_heap t') < length (ti_heap t)"
        using discard_length [of t] by auto
      have "tick now run_cb (t, w) = tick now run_cb (t', w')" using tick Cons False e f by simp
      with assms(5) [OF less.prems Cons _ map_of_SomeD [OF e(1)] e(2) t'(3) f less.hyps [OF t'(4,1,2)]] False
      show ?thesis by simp
    qed
  qed
qed

text \<open>\<open>tick\<close> returns, keeps the invariant, removes only entries and leaves none that had expired when
  the clock was last read.\<close>

lemma tick_returns:
  assumes "timer_wf t" and "owned t"
  shows "\<exists>t' w'. tick now run_cb (t, w) = Some (t', w') \<and> timer_wf t' \<and> owned t' \<and>
     set (ti_entries t') \<subseteq> set (ti_entries t)"
  using assms
proof (induction rule: tick_induct)
  case (Done t w)
  then show ?case by (simp add: discard_wf owned_def)
next
  case (Later t w n h)
  then show ?case by (simp add: discard_wf owned_def)
next
  case (Fire t w n h e t' w')
  then show ?case by (auto simp: AList.delete_eq)
qed

text \<open>With a clock that reads \<open>T\<close> throughout the call, exactly the entries that expire at \<open>T\<close> or before
  are removed.\<close>

lemma filter_delete:
  assumes "distinct (map fst es)" and "(i, e) \<in> set es" and "\<not> P (i, e)"
  shows "filter P (AList.delete i es) = filter P es"
proof -
  have "fst p \<noteq> i" if "p \<in> set es" "P p" for p
    using assms that eq_key_imp_eq_value [of es i e "snd p"] by (cases p) auto
  then have "((case p of (k, _) \<Rightarrow> i \<noteq> k) \<and> P p) = P p" if "p \<in> set es" for p
    using that by (cases p) fastforce
  then show ?thesis by (simp add: AList.delete_eq conj_commute cong: filter_cong)
qed

lemma tick_exact:
  assumes "timer_wf t" and "owned t" and now: "\<And>w. fst (now w) = T"
  shows "\<exists>t' w'. tick now run_cb (t, w) = Some (t', w') \<and> timer_wf t' \<and> owned t' \<and>
     ti_entries t' = filter (\<lambda>p. te_expires (snd p) > T) (ti_entries t)"
  using assms(1,2)
proof (induction rule: tick_induct)
  case (Done t w)
  then show ?case using discard_top [OF Done(1)] by (simp add: discard_wf owned_def)
next
  case (Later t w n h)
  then have "filter (\<lambda>p. te_expires (snd p) > T) (ti_entries t) = ti_entries t"
    using discard_top [OF Later(1)] now by (auto intro!: filter_True)
  with Later show ?case by (simp add: discard_wf owned_def)
next
  case (Fire t w n h e t' w')
  have "filter (\<lambda>p. te_expires (snd p) > T) (ti_entries t') = filter (\<lambda>p. te_expires (snd p) > T) (ti_entries t)"
    unfolding Fire(7) using Fire(1,4-6) now by (intro filter_delete) (auto simp: timer_wf_def)
  with Fire(9) show ?case by auto
qed

text \<open>The time to the next expiry, in whole milliseconds, of what is left after the tick.\<close>

lemma next_timeout:
  assumes "timer_wf t" and "owned t" and now: "\<And>w. fst (now w) = T"
  defines "pending \<equiv> filter (\<lambda>p. te_expires (snd p) > T) (ti_entries t)"
  shows "\<exists>t' w'. get_next_timeout_ms now run_cb (t, w) =
       Some (if pending = [] then -1
             else let ms = (Min ((te_expires \<circ> snd) ` set pending) - T) div 1000000
                  in if ms > 0 then int_cast ms else 0, t', w') \<and>
     timer_wf t' \<and> owned t' \<and> ti_entries t' = pending"
proof -
  from tick_exact [OF assms(1-3), of w] obtain t1 w1 where
    t1: "tick now run_cb (t, w) = Some (t1, w1)" "timer_wf t1" "owned t1" "ti_entries t1 = pending"
    unfolding pending_def by blast
  let ?d = "discard_stale_top t1"
  have d: "timer_wf ?d" "owned ?d" "ti_entries ?d = pending" using t1 discard_wf by (simp_all add: owned_def)
  show ?thesis
  proof (cases "ti_heap ?d")
    case Nil
    then have "pending = []" using discard_top [OF t1(2)] t1(4) by simp
    with Nil t1 d show ?thesis by (auto simp: get_next_timeout_ms_def Let_def)
  next
    case (Cons n h)
    with discard_top [OF t1(2)] t1(4) have n: "live pending n" "\<forall>p \<in> set pending. tn_expires n \<le> te_expires (snd p)"
      by auto
    then obtain e where e: "(tn_id n, e) \<in> set pending" "te_expires e = tn_expires n"
      by (auto simp: live_def dest: map_of_SomeD split: option.splits)
    then have m: "Min ((te_expires \<circ> snd) ` set pending) = tn_expires n"
      using n(2) by (intro Min_eqI) (force+)
    have "tn_expires n > T" using e by (auto simp: pending_def)
    then have "to_ms (tn_expires n - T) = (tn_expires n - T) div 1000000" by (simp add: to_ms_def)
    moreover obtain w2 where "now w1 = (T, w2)" using now [of w1] by (metis prod.collapse)
    moreover have "pending \<noteq> []" using e by auto
    ultimately show ?thesis using Cons t1 d m by (auto simp: get_next_timeout_ms_def Let_def)
  qed
qed

end

lemma int_cast_small: "0 \<le> x \<Longrightarrow> x < 2 ^ 31 \<Longrightarrow> int_cast x = x"
  by (simp add: int_cast_def sint_sbintrunc' signed_take_bit_int_eq_self)

lemma update_map_of: "map_of (AList.update i e es) j = (if j = i then Some e else map_of es j)"
  by (simp add: update_conv)

section \<open>Properties\<close>

text \<open>C16. No timer can be lost: \<open>add\<close>, \<open>adjust\<close> and \<open>remove\<close> keep the invariant that every entry has a
  heap node with its version and expiry, also when the heap is compacted, and compaction bounds the
  heap: below 4096 nodes or at most four nodes per live entry.\<close>

theorem timer_operations_keep_nodes:
  assumes "timer_wf t" and "t' \<in> {add tnow i ms cb t, adjust tnow i ms t, remove i t}" and "i \<ge> 0"
  shows "timer_wf t' \<and> (t' = t \<or> length (ti_heap t') < 4096 \<or> length (ti_heap t') \<le> 4 * length (ti_entries t'))"
proof -
  have bound: "length (ti_heap (maybe_compact_heap u)) < 4096 \<or>
      length (ti_heap (maybe_compact_heap u)) \<le> 4 * length (ti_entries (maybe_compact_heap u))" for u :: "'a timer"
    using compact_bound [of u] by (simp add: kCompactMinHeapSize_def kCompactRatioThreshold_def)
  have "t' = t \<or> (\<exists>u. t' = maybe_compact_heap u)"
    using assms(2,3) by (auto simp: add_def adjust_def remove_def Let_def split: option.splits)
  then have "t' = t \<or> length (ti_heap t') < 4096 \<or> length (ti_heap t') \<le> 4 * length (ti_entries t')"
    using bound by blast
  moreover have "timer_wf t'" using assms(1,2) by (auto simp: add_wf adjust_wf remove_wf)
  ultimately show ?thesis by blast
qed

theorem timer_operations_keep_nodes_witness:
  "timer_wf (add 0 5 15000 (Some ()) timer_new)"
  using timer_operations_keep_nodes [OF timer_wf_new, of "add 0 5 15000 (Some ()) timer_new" 0 5 15000 "Some ()"]
  by simp

text \<open>What the operations do to the entries: \<open>add\<close> sets exactly the given identifier to expire
  \<open>timeout_ms\<close> after now with the given callback, \<open>adjust\<close> changes only the expiry of an existing entry
  and nothing otherwise, \<open>remove\<close> deletes exactly the identifier.\<close>

theorem timer_operations_entries:
  assumes "i \<ge> 0"
  shows "map_option (\<lambda>e. (te_expires e, te_callback e)) (map_of (ti_entries (add tnow i ms cb t)) j) =
      (if j = i then Some (tnow + ms * 1000000, cb)
       else map_option (\<lambda>e. (te_expires e, te_callback e)) (map_of (ti_entries t) j)) \<and>
    map_option (\<lambda>e. (te_expires e, te_callback e)) (map_of (ti_entries (adjust tnow i ms t)) j) =
      (if j = i then map_option (\<lambda>e. (tnow + ms * 1000000, te_callback e)) (map_of (ti_entries t) i)
       else map_option (\<lambda>e. (te_expires e, te_callback e)) (map_of (ti_entries t) j)) \<and>
    map_of (ti_entries (remove i t)) j = (if j = i then None else map_of (ti_entries t) j)"
  using assms
  by (simp_all add: add_def adjust_def Let_def update_map_of milliseconds_def delete_conv' split: option.split)

theorem timer_operations_entries_witness:
  "map_option (\<lambda>e. (te_expires e, te_callback e)) (map_of (ti_entries (add 0 5 15000 (Some ()) timer_new)) 5) =
     Some (15000000000, Some ())"
  using timer_operations_entries [of 5 0 15000 "Some ()" timer_new 5] by simp

end
