(* ===== verification/Bitwise_Trie.thy ===== *)
theory Bitwise_Trie
  imports Interfaces
begin

text \<open>
  \<^verbatim>\<open>src/util/bitwise_trie.h\<close>: a map from 32-bit keys to values, one trie level per bit, the most
  significant bit first. The nodes own their children, so a node is a tree value; the loops walk
  from bit 31 down to bit 0 and the recursion counts the bits that are left.
\<close>

section \<open>Model\<close>

datatype 'a trie_node =
  TrieNode (child0: "'a trie_node option") (child1: "'a trie_node option") (node_value: "'a option")

definition new_node :: "'a trie_node" where
  "new_node = TrieNode None None None"

definition key_bit :: "u32 \<Rightarrow> nat \<Rightarrow> u32" where
  "key_bit key i = drop_bit i key AND 1"

definition get_child :: "u32 \<Rightarrow> 'a trie_node \<Rightarrow> 'a trie_node option" where
  "get_child b n = (if b = 0 then child0 n else child1 n)"

definition set_child :: "u32 \<Rightarrow> 'a trie_node \<Rightarrow> 'a trie_node \<Rightarrow> 'a trie_node" where
  "set_child b c n =
     (if b = 0 then TrieNode (Some c) (child1 n) (node_value n)
      else TrieNode (child0 n) (Some c) (node_value n))"

fun trie_search_loop :: "nat \<Rightarrow> u32 \<Rightarrow> 'a trie_node \<Rightarrow> 'a option" where
  "trie_search_loop 0 key current = node_value current"
| "trie_search_loop (Suc i) key current =
     (case get_child (key_bit key i) current of
        None \<Rightarrow> None
      | Some c \<Rightarrow> trie_search_loop i key c)"

definition trie_search :: "u32 \<Rightarrow> 'a trie_node \<Rightarrow> 'a option" where
  "trie_search key root = trie_search_loop 32 key root"

fun trie_insert_loop :: "nat \<Rightarrow> u32 \<Rightarrow> 'a \<Rightarrow> 'a trie_node \<Rightarrow> 'a trie_node" where
  "trie_insert_loop 0 key v current = TrieNode (child0 current) (child1 current) (Some v)"
| "trie_insert_loop (Suc i) key v current =
     (let b = key_bit key i;
          c = (case get_child b current of None \<Rightarrow> new_node | Some c \<Rightarrow> c)
      in set_child b (trie_insert_loop i key v c) current)"

definition trie_insert :: "u32 \<Rightarrow> 'a \<Rightarrow> 'a trie_node \<Rightarrow> 'a trie_node" where
  "trie_insert key v root = trie_insert_loop 32 key v root"

text \<open>\<^verbatim>\<open>remove\<close> resets the value of the leaf and keeps the path; it returns whether there was one.\<close>

fun trie_remove_loop :: "nat \<Rightarrow> u32 \<Rightarrow> 'a trie_node \<Rightarrow> bool \<times> 'a trie_node" where
  "trie_remove_loop 0 key current =
     (node_value current \<noteq> None, TrieNode (child0 current) (child1 current) None)"
| "trie_remove_loop (Suc i) key current =
     (let b = key_bit key i
      in case get_child b current of
           None \<Rightarrow> (False, current)
         | Some c \<Rightarrow>
             (let r = trie_remove_loop i key c in (fst r, set_child b (snd r) current)))"

definition trie_remove :: "u32 \<Rightarrow> 'a trie_node \<Rightarrow> bool \<times> 'a trie_node" where
  "trie_remove key root = trie_remove_loop 32 key root"

section \<open>Lemmas\<close>

lemma key_bit_eq: "key_bit k i = (if bit k i then 1 else 0)"
  by (rule bit_word_eqI) (auto simp: key_bit_def bit_simps intro!: gr0I)

lemma key_bit_eq_iff [simp]: "key_bit k i = key_bit j i \<longleftrightarrow> bit k i = bit j i"
  by (simp add: key_bit_eq)

lemma key_bit_cases: "key_bit k i = 0 \<or> key_bit k i = 1"
  by (simp add: key_bit_eq)

lemma get_set_child [simp]:
  "b \<in> {0, 1} \<Longrightarrow> d \<in> {0, 1} \<Longrightarrow>
     get_child d (set_child b c n) = (if d = b then Some c else get_child d n)"
  by (auto simp: get_child_def set_child_def)

lemma get_set_key_bit [simp]:
  "get_child (key_bit k i) (set_child (key_bit j i) c n) =
     (if bit k i = bit j i then Some c else get_child (key_bit k i) n)"
  using key_bit_cases [of k i] key_bit_cases [of j i] by (subst get_set_child) auto

lemma search_new_node [simp]: "trie_search_loop n k new_node = None"
  by (cases n) (simp_all add: new_node_def get_child_def)

lemma node_value_eta [simp]: "TrieNode (child0 n) (child1 n) (node_value n) = n"
  by (cases n) simp

lemma search_insert_loop:
  "trie_search_loop n k (trie_insert_loop n j v t) =
     (if \<forall>i < n. bit k i = bit j i then Some v else trie_search_loop n k t)"
proof (induction n arbitrary: t)
  case (Suc n)
  show ?case
  proof (cases "bit k n = bit j n")
    case True
    then have kb: "key_bit k n = key_bit j n" by simp
    show ?thesis
      using True by (auto simp: Let_def Suc.IH less_Suc_eq kb split: option.splits)
  qed (auto simp: Let_def less_Suc_eq)
qed simp

lemma search_remove_loop:
  "trie_search_loop n k (snd (trie_remove_loop n j t)) =
     (if \<forall>i < n. bit k i = bit j i then None else trie_search_loop n k t)"
proof (induction n arbitrary: t)
  case (Suc n)
  show ?case
  proof (cases "bit k n = bit j n")
    case True
    then have kb: "key_bit k n = key_bit j n" by simp
    show ?thesis
      using True by (auto simp: Let_def Suc.IH less_Suc_eq kb split: option.splits)
  qed (auto simp: Let_def less_Suc_eq split: option.splits)
qed simp

lemma remove_found_loop: "fst (trie_remove_loop n j t) \<longleftrightarrow> trie_search_loop n j t \<noteq> None"
  by (induction n arbitrary: t) (auto simp: Let_def split: option.splits)

lemma u32_bits_eq: "(\<forall>i < 32. bit k i = bit j i) \<longleftrightarrow> k = (j :: u32)"
  by (auto intro: bit_word_eqI)

interpretation trie_map: key_map "new_node :: 'a trie_node" trie_insert trie_remove trie_search
  by unfold_locales
    (simp_all add: trie_search_def trie_insert_def trie_remove_def search_insert_loop
      search_remove_loop remove_found_loop u32_bits_eq)

section \<open>Properties\<close>

text \<open>
  C27. The trie is a finite map: after any sequence of insertions into a new trie, a search returns
  the value of the last insertion with that key, and nothing for a key that was never inserted.
\<close>

theorem trie_search_after_inserts:
  "trie_search k (foldl (\<lambda>t (j, v). trie_insert j v t) new_node kvs) = map_of (rev kvs) k"
  using trie_map.search_insert_all [of k kvs new_node]
  by (simp add: trie_map.km_insert_all_def trie_map.search_empty split: option.splits)

text \<open>
  Removing a key makes exactly that key disappear and reports whether it was there.
\<close>

theorem trie_remove_exact:
  "trie_search k (snd (trie_remove j t)) = (if k = j then None else trie_search k t) \<and>
   (fst (trie_remove j t) \<longleftrightarrow> trie_search j t \<noteq> None)"
  by (simp add: trie_map.search_remove trie_map.remove_found)

end
