(* ===== verification/Bloom_Filter.thy ===== *)
theory Bloom_Filter
  imports Interfaces
begin

text \<open>
  \<^verbatim>\<open>src/util/bloom_filter.h\<close>: a bit vector and three FNV-1a hashes with different seeds. The
  arithmetic of the hash is that of \<^verbatim>\<open>uint64_t\<close>. A filter of size 0 would divide by zero in
  \<^verbatim>\<open>hash % bits_.size()\<close>; \<open>bloom_wf\<close> excludes it.
\<close>

section \<open>Model\<close>

record bloom_filter =
  bf_bits :: "bool list"

definition bloom_filter_new :: "nat \<Rightarrow> bloom_filter" where
  "bloom_filter_new n = \<lparr>bf_bits = replicate n False\<rparr>"

definition fnv1a_hash :: "string \<Rightarrow> u64 \<Rightarrow> u64" where
  "fnv1a_hash data seed =
     foldl (\<lambda>hash c. (hash XOR of_nat (char_code c)) * 1099511628211) seed data"

definition compute_hashes :: "string \<Rightarrow> u64 list" where
  "compute_hashes data =
     [fnv1a_hash data 0xcbf29ce484222325,
      fnv1a_hash data 0x811c9dc5,
      fnv1a_hash data 0x100000001b3]"

definition hash_slot :: "bool list \<Rightarrow> u64 \<Rightarrow> nat" where
  "hash_slot bs hash = unat hash mod length bs"

definition bloom_add :: "string \<Rightarrow> bloom_filter \<Rightarrow> bloom_filter" where
  "bloom_add data f =
     f\<lparr>bf_bits := foldl (\<lambda>bs hash. bs[hash_slot bs hash := True]) (bf_bits f) (compute_hashes data)\<rparr>"

definition bloom_contains :: "string \<Rightarrow> bloom_filter \<Rightarrow> bool" where
  "bloom_contains data f \<longleftrightarrow>
     list_all (\<lambda>hash. bf_bits f ! hash_slot (bf_bits f) hash) (compute_hashes data)"

definition bloom_clear :: "bloom_filter \<Rightarrow> bloom_filter" where
  "bloom_clear f = f\<lparr>bf_bits := map (\<lambda>_. False) (bf_bits f)\<rparr>"

definition bloom_wf :: "bloom_filter \<Rightarrow> bool" where
  "bloom_wf f \<longleftrightarrow> bf_bits f \<noteq> []"

section \<open>Lemmas\<close>

definition set_slots :: "u64 list \<Rightarrow> bool list \<Rightarrow> bool list" where
  "set_slots hs bs = foldl (\<lambda>bs hash. bs[hash_slot bs hash := True]) bs hs"

lemma length_set_slots [simp]: "length (set_slots hs bs) = length bs"
  by (induction hs arbitrary: bs) (auto simp: set_slots_def)

lemma set_slots_nth:
  "i < length bs \<Longrightarrow> set_slots hs bs ! i \<longleftrightarrow> bs ! i \<or> (\<exists>h \<in> set hs. unat h mod length bs = i)"
proof (induction hs arbitrary: bs)
  case (Cons h hs)
  have "set_slots (h # hs) bs = set_slots hs (bs[hash_slot bs h := True])"
    by (simp add: set_slots_def)
  moreover have "hash_slot bs h < length bs"
    using Cons.prems by (auto simp: hash_slot_def intro!: mod_less_divisor)
  ultimately show ?case
    using Cons by (auto simp: nth_list_update) (auto simp: hash_slot_def)
qed (simp add: set_slots_def)

lemma bits_bloom_add: "bf_bits (bloom_add d f) = set_slots (compute_hashes d) (bf_bits f)"
  by (simp add: bloom_add_def set_slots_def)

lemma length_bloom_add [simp]: "length (bf_bits (bloom_add d f)) = length (bf_bits f)"
  by (simp add: bits_bloom_add)

lemma bloom_contains_iff:
  "bloom_contains d f \<longleftrightarrow> (\<forall>h \<in> set (compute_hashes d). bf_bits f ! (unat h mod length (bf_bits f)))"
  by (simp add: bloom_contains_def hash_slot_def list_all_iff)

lemma bloom_contains_add:
  assumes "bloom_wf f"
  shows "bloom_contains d (bloom_add e f) \<longleftrightarrow>
     (\<forall>h \<in> set (compute_hashes d).
        bf_bits f ! (unat h mod length (bf_bits f)) \<or>
        (\<exists>g \<in> set (compute_hashes e). unat g mod length (bf_bits f) = unat h mod length (bf_bits f)))"
  using assms by (auto simp: bloom_contains_iff bits_bloom_add set_slots_nth bloom_wf_def)

interpretation bloom_set: approx_set bloom_wf bloom_add bloom_contains
proof unfold_locales
  show "bloom_wf f \<Longrightarrow> bloom_wf (bloom_add k f)" for f k
    by (auto simp: bloom_wf_def simp flip: length_greater_0_conv)
  show "bloom_wf f \<Longrightarrow> bloom_contains k (bloom_add k f)" for f k
    by (auto simp: bloom_contains_add)
  show "bloom_wf f \<Longrightarrow> bloom_contains k f \<Longrightarrow> bloom_contains k (bloom_add j f)" for f k j
    by (simp add: bloom_contains_add) (simp add: bloom_contains_iff)
qed

lemma bloom_wf_new [simp]: "bloom_wf (bloom_filter_new n) \<longleftrightarrow> 0 < n"
  by (simp add: bloom_wf_def bloom_filter_new_def)

lemma bloom_wf_fold: "bloom_wf f \<Longrightarrow> bloom_wf (foldl (\<lambda>f d. bloom_add d f) f ds)"
  by (induction ds arbitrary: f) (auto simp: bloom_set.invar_add)

lemma bloom_contains_fold_mono:
  "bloom_wf f \<Longrightarrow> bloom_contains d f \<Longrightarrow> bloom_contains d (foldl (\<lambda>f d. bloom_add d f) f ds)"
  by (induction ds arbitrary: f) (auto simp: bloom_set.invar_add bloom_set.contains_mono)

section \<open>Properties\<close>

text \<open>
  C32. The filter has no false negatives: whatever sequence of strings has been added to a filter of
  positive size, in whatever order, each of them is reported as contained.
\<close>

theorem bloom_no_false_negatives:
  assumes "bloom_wf f" and "d \<in> set ds"
  shows "bloom_contains d (foldl (\<lambda>f d. bloom_add d f) f ds)"
proof -
  from assms(2) obtain xs ys where "ds = xs @ d # ys" by (auto simp: in_set_conv_decomp)
  then show ?thesis
    using assms(1) by (simp add: bloom_wf_fold bloom_set.invar_add bloom_set.contains_added
        bloom_contains_fold_mono)
qed

theorem bloom_no_false_negatives_witness:
  "bloom_wf (bloom_filter_new 8) \<and> ''b'' \<in> set [''a'', ''b''] \<and>
   bloom_contains ''b'' (foldl (\<lambda>f d. bloom_add d f) (bloom_filter_new 8) [''a'', ''b''])"
  using bloom_no_false_negatives [of "bloom_filter_new 8" "''b''" "[''a'', ''b'']"] by simp

text \<open>
  Clearing empties the filter: afterwards no string is reported as contained.
\<close>

theorem bloom_clear_empty: "bloom_wf f \<Longrightarrow> \<not> bloom_contains d (bloom_clear f)"
  by (auto simp: bloom_contains_iff bloom_clear_def bloom_wf_def compute_hashes_def)

theorem bloom_clear_empty_witness:
  "bloom_wf (bloom_add ''a'' (bloom_filter_new 8)) \<and>
   \<not> bloom_contains ''a'' (bloom_clear (bloom_add ''a'' (bloom_filter_new 8)))"
  using bloom_clear_empty [of "bloom_add ''a'' (bloom_filter_new 8)" "''a''"]
  by (simp add: bloom_set.invar_add)

end
