(* ===== verification/Ip_Filter.thy ===== *)
theory Ip_Filter
  imports Bitwise_Trie Bloom_Filter
begin

text \<open>
  \<^verbatim>\<open>src/net/core/ip_filter.h\<close> and \<^verbatim>\<open>ip_filter.cpp\<close>: the client blacklist, a trie of
  addresses in host byte order guarded by a Bloom filter. Blacklist entries are single addresses or
  CIDR ranges. \<^verbatim>\<open>std::stoi\<close> throws on a malformed prefix length and nobody catches it, so
  loading a list is a sum type; the file system is the argument \<open>read_file\<close>.
\<close>

section \<open>Model\<close>

record ip_filter =
  ipf_trie :: "bool trie_node"
  ipf_bloom :: bloom_filter
  ipf_list_path :: string

definition ip_filter_new :: "nat \<Rightarrow> ip_filter" where
  "ip_filter_new bloom_size =
     \<lparr>ipf_trie = new_node, ipf_bloom = bloom_filter_new bloom_size, ipf_list_path = []\<rparr>"

text \<open>The four bytes of an address in memory on a little-endian machine, as
  \<^verbatim>\<open>reinterpret_cast<const char*>(&ip)\<close> sees them.\<close>

definition ip_bytes :: "u32 \<Rightarrow> string" where
  "ip_bytes ip = map (\<lambda>i. char_of (unat (drop_bit (8 * i) ip AND 0xFF))) [0..<4]"

definition add_ip :: "u32 \<Rightarrow> ip_filter \<Rightarrow> ip_filter" where
  "add_ip ip f =
     f\<lparr>ipf_trie := trie_insert ip True (ipf_trie f),
       ipf_bloom := bloom_add (ip_bytes ip) (ipf_bloom f)\<rparr>"

text \<open>
  \<^verbatim>\<open>inet_pton(AF_INET, ...)\<close> of the C library: four decimal numbers up to 255 without leading
  zeros, separated by dots; \<open>pton4\<close> scans with the finished octets (reversed) and the current one.
  \<open>inet_pton4\<close> is the call followed by \<^verbatim>\<open>ntohl\<close>.
\<close>

fun pton4 :: "string \<Rightarrow> nat list \<Rightarrow> nat option \<Rightarrow> nat list option" where
  "pton4 [] os cur =
     (case cur of Some v \<Rightarrow> if length os = 3 then Some (rev (v # os)) else None | None \<Rightarrow> None)"
| "pton4 (c # cs) os cur =
     (if isdigit c then
        (case cur of
           None \<Rightarrow> pton4 cs os (Some (digit_val c))
         | Some v \<Rightarrow>
             if v = 0 then None
             else if 10 * v + digit_val c > 255 then None
             else pton4 cs os (Some (10 * v + digit_val c)))
      else if c = CHR ''.'' then
        (case cur of
           None \<Rightarrow> None
         | Some v \<Rightarrow> if length os = 3 then None else pton4 cs (v # os) None)
      else None)"

definition inet_pton4 :: "string \<Rightarrow> u32 option" where
  "inet_pton4 s =
     map_option (foldl (\<lambda>a v. push_bit 8 a OR of_nat v) 0) (pton4 (c_str s) [] None)"

definition add_range :: "u32 \<Rightarrow> u32 \<Rightarrow> ip_filter \<Rightarrow> ip_filter" where
  "add_range base_ip num_ips f =
     foldl (\<lambda>f i. add_ip (base_ip + of_nat i) f) f [0..<unat num_ips]"

definition add_cidr :: "string \<Rightarrow> ip_filter \<Rightarrow> stoi_error + ip_filter" where
  "add_cidr cidr f =
     (case find_char (CHR ''/'') cidr 0 of
        None \<Rightarrow>
          (case inet_pton4 cidr of
             Some ip \<Rightarrow> Inr (add_ip ip f)
           | None \<Rightarrow> Inr f)
      | Some slash_pos \<Rightarrow>
          (case stoi (drop (slash_pos + 1) cidr) of
             Inl e \<Rightarrow> Inl e
           | Inr mlen \<Rightarrow>
               (case inet_pton4 (take slash_pos cidr) of
                  None \<Rightarrow> Inr f
                | Some ip_addr \<Rightarrow>
                    if mlen \<le> 0 \<or> mlen > 32 then Inr f
                    else if mlen \<ge> 24 then
                      (let num_ips = push_bit (nat (32 - mlen)) 1;
                           base_ip = ip_addr AND push_bit (nat (32 - mlen)) 0xFFFFFFFF
                       in Inr (add_range base_ip num_ips f))
                    else Inr (add_ip ip_addr f))))"

definition is_blocked :: "u32 \<Rightarrow> ip_filter \<Rightarrow> bool" where
  "is_blocked ip f \<longleftrightarrow>
     (if \<not> bloom_contains (ip_bytes ip) (ipf_bloom f) then False
      else trie_search ip (ipf_trie f) \<noteq> None)"

fun add_lines :: "string list \<Rightarrow> ip_filter \<Rightarrow> stoi_error + ip_filter" where
  "add_lines [] f = Inr f"
| "add_lines (line # ls) f =
     (if line = [] \<or> line ! 0 = CHR ''#'' then add_lines ls f
      else case add_cidr line f of Inl e \<Rightarrow> Inl e | Inr f' \<Rightarrow> add_lines ls f')"

definition ip_filter_init ::
    "(string \<Rightarrow> string option) \<Rightarrow> string \<Rightarrow> ip_filter \<Rightarrow> stoi_error + ip_filter" where
  "ip_filter_init read_file path f =
     (if path = [] then Inr f
      else let f' = f\<lparr>ipf_list_path := path\<rparr>
           in case read_file path of
                None \<Rightarrow> Inr f'
              | Some contents \<Rightarrow> add_lines (getlines contents) f')"

section \<open>The guarded set\<close>

interpretation ip_set: filtered_set "new_node :: bool trie_node" trie_insert trie_remove trie_search
  bloom_wf "\<lambda>ip. bloom_add (ip_bytes ip)" "\<lambda>ip. bloom_contains (ip_bytes ip)"
  by unfold_locales (auto intro: bloom_set.invar_add bloom_set.contains_added bloom_set.contains_mono)

definition ip_filter_wf :: "ip_filter \<Rightarrow> bool" where
  "ip_filter_wf f \<longleftrightarrow> bloom_wf (ipf_bloom f) \<and>
     (\<forall>ip. trie_search ip (ipf_trie f) \<noteq> None \<longrightarrow> bloom_contains (ip_bytes ip) (ipf_bloom f))"

lemma ip_filter_wf_consistent:
  "ip_filter_wf f \<longleftrightarrow> ip_set.fs_consistent (ipf_trie f) (ipf_bloom f)"
  by (simp add: ip_filter_wf_def ip_set.fs_consistent_def)

lemma ip_filter_wf_new: "0 < n \<Longrightarrow> ip_filter_wf (ip_filter_new n)"
  by (simp add: ip_filter_wf_def ip_filter_new_def trie_map.search_empty)

lemma add_ip_wf: "ip_filter_wf f \<Longrightarrow> ip_filter_wf (add_ip ip f)"
  by (simp add: ip_filter_wf_consistent add_ip_def ip_set.consistent_add)

lemma is_blocked_add_ip:
  assumes "ip_filter_wf f"
  shows "is_blocked x (add_ip ip f) \<longleftrightarrow> x = ip \<or> is_blocked x f"
  using ip_set.query_add [of "ipf_trie f" "ipf_bloom f" x ip True] assms
  by (auto simp: is_blocked_def add_ip_def ip_filter_wf_consistent)

lemma is_blocked_new [simp]: "\<not> is_blocked x (ip_filter_new n)"
  by (simp add: is_blocked_def ip_filter_new_def trie_map.search_empty)

lemma add_ips_wf:
  "ip_filter_wf f \<Longrightarrow> ip_filter_wf (foldl (\<lambda>f i. add_ip (g i) f) f is)"
  by (induction "is" arbitrary: f) (auto simp: add_ip_wf)

lemma is_blocked_add_ips:
  "ip_filter_wf f \<Longrightarrow>
     is_blocked x (foldl (\<lambda>f i. add_ip (g i) f) f is) \<longleftrightarrow> (\<exists>i \<in> set is. x = g i) \<or> is_blocked x f"
  by (induction "is" arbitrary: f) (auto simp: add_ip_wf is_blocked_add_ip)

lemma is_blocked_add_range:
  "ip_filter_wf f \<Longrightarrow>
     is_blocked x (add_range b n f) \<longleftrightarrow> (\<exists>i < unat n. x = b + of_nat i) \<or> is_blocked x f"
  by (auto simp: add_range_def is_blocked_add_ips)

lemma add_range_wf: "ip_filter_wf f \<Longrightarrow> ip_filter_wf (add_range b n f)"
  by (simp add: add_range_def add_ips_wf)

section \<open>CIDR ranges\<close>

text \<open>\<open>cidr_mask\<close> is the network mask of a prefix length; an address is in a range when it agrees with
  the range's address under the mask.\<close>

definition cidr_mask :: "nat \<Rightarrow> u32" where
  "cidr_mask p = NOT (mask (32 - p))"

definition in_cidr :: "u32 \<Rightarrow> nat \<Rightarrow> u32 \<Rightarrow> bool" where
  "in_cidr net p ip \<longleftrightarrow> ip AND cidr_mask p = net AND cidr_mask p"

lemma push_bit_ones: "push_bit k (0xFFFFFFFF :: u32) = NOT (mask k)"
proof -
  have "(0xFFFFFFFF :: u32) = - 1" by simp
  then show ?thesis by (simp only: push_bit_minus_one_eq_not_mask)
qed

lemma disjoint_plus: "a AND b = 0 \<Longrightarrow> a + b = (a OR b :: u32)"
  by (simp add: disjunctive_add_eq_or)

lemma block_addresses:
  fixes ip x :: u32
  assumes "k < 32"
  shows "(\<exists>i < 2 ^ k. x = (ip AND NOT (mask k)) + of_nat i) \<longleftrightarrow>
           x AND NOT (mask k) = ip AND NOT (mask k)"
proof
  assume "\<exists>i < 2 ^ k. x = (ip AND NOT (mask k)) + of_nat i"
  then obtain i where i: "i < 2 ^ k" and x: "x = (ip AND NOT (mask k)) + of_nat i" by blast
  have m: "(of_nat i :: u32) AND mask k = of_nat i"
    using i by (simp add: take_bit_of_nat take_bit_nat_eq_self flip: take_bit_eq_mask)
  have "(ip AND NOT (mask k)) + (of_nat i AND mask k) = (ip AND NOT (mask k)) OR (of_nat i AND mask k)"
    by (rule disjoint_plus) (auto intro!: bit_word_eqI simp: bit_simps)
  then have "x = (ip AND NOT (mask k)) OR (of_nat i AND mask k)" by (simp only: x m)
  then show "x AND NOT (mask k) = ip AND NOT (mask k)"
    by (auto intro!: bit_word_eqI simp: bit_simps)
next
  assume eq: "x AND NOT (mask k) = ip AND NOT (mask k)"
  have "x = (x AND NOT (mask k)) OR (x AND mask k)"
    by (auto intro!: bit_word_eqI simp: bit_simps)
  also have "\<dots> = (x AND NOT (mask k)) + (x AND mask k)"
    by (subst disjoint_plus) (auto intro!: bit_word_eqI simp: bit_simps)
  finally have x: "x = (ip AND NOT (mask k)) + of_nat (unat (x AND mask k))" by (simp add: eq)
  have "unat (x AND mask k) < 2 ^ k"
    by (simp add: unsigned_take_bit_eq flip: take_bit_eq_mask)
  with x show "\<exists>i < 2 ^ k. x = (ip AND NOT (mask k)) + of_nat i" by blast
qed

lemma unat_power_of_two: "k < 32 \<Longrightarrow> unat (2 ^ k :: u32) = 2 ^ k"
proof -
  assume "k < 32"
  then have "(2 :: nat) ^ k < 2 ^ 32" by (intro power_strict_increasing) simp_all
  then have "unat (of_nat (2 ^ k) :: u32) = 2 ^ k" by (simp only: unat_of_nat) simp
  then show ?thesis by simp
qed

lemma add_cidr_wf: "ip_filter_wf f \<Longrightarrow> add_cidr c f = Inr f' \<Longrightarrow> ip_filter_wf f'"
  by (auto simp: add_cidr_def Let_def add_ip_wf add_range_wf
      split: option.splits sum.splits if_splits)

lemma add_lines_wf: "ip_filter_wf f \<Longrightarrow> add_lines ls f = Inr f' \<Longrightarrow> ip_filter_wf f'"
  by (induction ls f rule: add_lines.induct) (auto simp: add_cidr_wf split: if_splits sum.splits)

text \<open>
  What one line of the list blocks, stated without the data structures: a comment or an unreadable
  line blocks nothing, a plain address blocks itself, a range with a prefix of 24 to 32 bits blocks
  the range, and a range with a shorter prefix blocks its written address only.
\<close>

definition range_blocks :: "u32 \<Rightarrow> int \<Rightarrow> u32 \<Rightarrow> bool" where
  "range_blocks net m x \<longleftrightarrow>
     (24 \<le> m \<and> m \<le> 32 \<and> in_cidr net (nat m) x) \<or> (0 < m \<and> m < 24 \<and> x = net)"

definition entry_blocks :: "string \<Rightarrow> u32 \<Rightarrow> bool" where
  "entry_blocks line x \<longleftrightarrow>
     line \<noteq> [] \<and> line ! 0 \<noteq> CHR ''#'' \<and>
     (case find_char (CHR ''/'') line 0 of
        None \<Rightarrow> inet_pton4 line = Some x
      | Some p \<Rightarrow>
          (case (stoi (drop (p + 1) line), inet_pton4 (take p line)) of
             (Inr m, Some net) \<Rightarrow> range_blocks net m x
           | _ \<Rightarrow> False))"

lemma add_range_blocks:
  assumes "ip_filter_wf f" and "24 \<le> m" and "m \<le> 32"
  shows "is_blocked x (add_range (net AND push_bit (nat (32 - m)) 0xFFFFFFFF)
           (2 ^ nat (32 - m)) f) \<longleftrightarrow> range_blocks net m x \<or> is_blocked x f"
proof -
  have k: "nat (32 - m) < 32" and p: "32 - nat m = nat (32 - m)" using assms(2,3) by auto
  show ?thesis
    unfolding is_blocked_add_range [OF assms(1)] unat_power_of_two [OF k] push_bit_ones
      block_addresses [OF k]
    using assms(2,3) by (simp add: range_blocks_def in_cidr_def cidr_mask_def p)
qed

lemma add_cidr_blocks:
  assumes "ip_filter_wf f" and "add_cidr line f = Inr f'" and "line \<noteq> []" and "line ! 0 \<noteq> CHR ''#''"
  shows "is_blocked x f' \<longleftrightarrow> entry_blocks line x \<or> is_blocked x f"
  using assms
  by (auto simp: add_cidr_def entry_blocks_def Let_def is_blocked_add_ip add_range_blocks
      split: option.splits sum.splits if_splits) (auto simp: range_blocks_def)

lemma add_lines_blocks:
  "ip_filter_wf f \<Longrightarrow> add_lines ls f = Inr f' \<Longrightarrow>
     is_blocked x f' \<longleftrightarrow> (\<exists>l \<in> set ls. entry_blocks l x) \<or> is_blocked x f"
proof (induction ls f rule: add_lines.induct)
  case (2 line ls f)
  show ?case
  proof (cases "line = [] \<or> line ! 0 = CHR ''#''")
    case True
    with 2 show ?thesis by (auto simp: entry_blocks_def)
  next
    case False
    with "2.prems" obtain g where g: "add_cidr line f = Inr g" "add_lines ls g = Inr f'"
      by (auto split: sum.splits)
    with 2 False show ?thesis by (auto simp: add_cidr_blocks add_cidr_wf)
  qed
qed simp

section \<open>Properties\<close>


text \<open>The lemmas that read a concrete list file.\<close>

lemmas read_list_simps = add_cidr_def entry_blocks_def range_blocks_def in_cidr_def cidr_mask_def
  find_char_def inet_pton4_def c_str_def isdigit_def isspace_def digit_val_def char_code_def stoi_def
  mask_eq_exp_minus_1 LF_def Let_def


text \<open>
  A CIDR entry with a prefix shorter than 24 bits does not block its range: it blocks the one
  address written in it, so every other address of the range stays allowed (unless it was blocked
  before).
\<close>

theorem short_prefix_blocks_one_address:
  assumes "ip_filter_wf f" and "CHR ''/'' \<notin> set a" and "a \<noteq> []"
    and "inet_pton4 a = Some net" and "stoi m = Inr p" and "0 < p" and "p < 24"
  shows "\<exists>f'. add_cidr (a @ CHR ''/'' # m) f = Inr f' \<and>
           (\<forall>x. is_blocked x f' \<longleftrightarrow> x = net \<or> is_blocked x f)"
  using assms find_char_append [OF assms(2), of m]
  by (simp add: add_cidr_def is_blocked_add_ip)

theorem short_prefix_blocks_one_address_witness:
  "\<exists>f'. add_cidr (''10.0.0.0'' @ CHR ''/'' # ''8'') (ip_filter_new 8) = Inr f' \<and>
     is_blocked 0x0A000000 f' \<and> \<not> is_blocked 0x0A000001 f'"
  using short_prefix_blocks_one_address
    [OF ip_filter_wf_new, of 8 "''10.0.0.0''" "0x0A000000" "''8''" 8]
  by (auto simp: read_list_simps)

text \<open>
  A malformed prefix length is not skipped: \<^verbatim>\<open>std::stoi\<close> throws, nothing in
  \<^verbatim>\<open>add_cidr\<close> or \<^verbatim>\<open>init\<close> catches it, and loading the list ends with the exception
  whatever the rest of the file holds.
\<close>

theorem malformed_prefix_aborts_load:
  assumes "add_lines ls f = Inr f'" and "CHR ''/'' \<notin> set a" and "a \<noteq> []" and "a ! 0 \<noteq> CHR ''#''"
    and "stoi m = Inl e"
  shows "add_lines (ls @ (a @ CHR ''/'' # m) # rest) f = Inl e"
proof -
  have h: "(a @ CHR ''/'' # m) ! 0 = a ! 0" using assms(3) by (cases a) simp_all
  have "add_cidr (a @ CHR ''/'' # m) f' = Inl e"
    using find_char_append [OF assms(2), of m] assms(5) by (simp add: add_cidr_def)
  then have "add_lines ((a @ CHR ''/'' # m) # rest) f' = Inl e" using assms(3,4) h by simp
  then show ?thesis using assms(1)
    by (induction ls f rule: add_lines.induct) (auto split: if_splits sum.splits)
qed

theorem malformed_prefix_aborts_load_witness:
  "add_lines ([''10.0.0.1''] @ (''10.1.0.0'' @ CHR ''/'' # ''all'') # [''10.2.0.1'']) (ip_filter_new 8)
     = Inl InvalidArgument"
  by (rule malformed_prefix_aborts_load [where f' = "add_ip 0x0A000001 (ip_filter_new 8)"])
    (simp_all add: read_list_simps)

end
