(* ===== verification/Threadsafe_Queue.thy ===== *)
theory Threadsafe_Queue
  imports Interfaces
begin

text \<open>
  \<^verbatim>\<open>src/util/threadsafe_queue.h\<close>: the queue of the thread pool, a singly linked list whose last node
  is an empty dummy. Nodes live in an explicit heap; the result \<open>None\<close> of an operation stands for the
  dereference of a null or freed pointer, and the lemmas show it never occurs.
\<close>

section \<open>Model\<close>

type_synonym addr = nat

record 'a node =
  nd_data :: "'a option"
  nd_next :: "addr option"

record 'a threadsafe_queue =
  tq_heap :: "addr \<rightharpoonup> 'a node"
  tq_head :: addr
  tq_tail :: addr

definition empty_node :: "'a node" where
  "empty_node = \<lparr>nd_data = None, nd_next = None\<rparr>"

text \<open>The constructor allocates the dummy at \<open>p\<close>.\<close>

definition threadsafe_queue_new :: "addr \<Rightarrow> 'a threadsafe_queue" where
  "threadsafe_queue_new p = \<lparr>tq_heap = [p \<mapsto> empty_node], tq_head = p, tq_tail = p\<rparr>"

definition get_tail :: "'a threadsafe_queue \<Rightarrow> addr" where
  "get_tail q = tq_tail q"

text \<open>\<open>p\<close> is the address of the new node; the current tail node receives the data and the link.\<close>

definition tq_push :: "addr \<Rightarrow> 'a \<Rightarrow> 'a threadsafe_queue \<Rightarrow> 'a threadsafe_queue option" where
  "tq_push p val q =
     (let h = (tq_heap q)(p \<mapsto> empty_node)
      in case h (tq_tail q) of
           None \<Rightarrow> None
         | Some n \<Rightarrow> Some (q\<lparr>tq_heap := h(tq_tail q \<mapsto> n\<lparr>nd_data := Some val, nd_next := Some p\<rparr>),
                             tq_tail := p\<rparr>))"

definition tq_empty :: "'a threadsafe_queue \<Rightarrow> bool" where
  "tq_empty q \<longleftrightarrow> tq_head q = get_tail q"

text \<open>\<^verbatim>\<open>pop_head\<close>: the head becomes the old head's successor; the old head is freed when the returned
  owner goes out of scope.\<close>

definition pop_head :: "'a threadsafe_queue \<Rightarrow> 'a threadsafe_queue option" where
  "pop_head q =
     (case tq_heap q (tq_head q) of
        None \<Rightarrow> None
      | Some n \<Rightarrow>
          (case nd_next n of
             None \<Rightarrow> None
           | Some nx \<Rightarrow> Some (q\<lparr>tq_heap := (tq_heap q)(tq_head q := None), tq_head := nx\<rparr>)))"

text \<open>The part of a pop after the queue was seen to be non-empty.\<close>

definition take_head :: "'a threadsafe_queue \<Rightarrow> ('a option \<times> 'a threadsafe_queue) option" where
  "take_head q =
     (case tq_heap q (tq_head q) of
        None \<Rightarrow> None
      | Some n \<Rightarrow>
          (case nd_data n of
             None \<Rightarrow> None
           | Some x \<Rightarrow> map_option (\<lambda>q'. (Some x, q')) (pop_head q)))"

definition try_pop :: "'a threadsafe_queue \<Rightarrow> ('a option \<times> 'a threadsafe_queue) option" where
  "try_pop q = (if tq_head q = get_tail q then Some (None, q) else take_head q)"

text \<open>\<^verbatim>\<open>wait_pop\<close> blocks while the queue is empty; the model gives the step that leaves the wait.\<close>

definition wait_pop :: "'a threadsafe_queue \<Rightarrow> ('a option \<times> 'a threadsafe_queue) option" where
  "wait_pop q = (if tq_head q \<noteq> get_tail q then take_head q else None)"

section \<open>The nodes form a list\<close>

fun chain :: "(addr \<rightharpoonup> 'a node) \<Rightarrow> addr \<Rightarrow> addr list \<Rightarrow> 'a list \<Rightarrow> addr \<Rightarrow> bool" where
  "chain h a [] [] t \<longleftrightarrow> a = t"
| "chain h a (b # bs) (x # xs) t \<longleftrightarrow>
     a = b \<and> (\<exists>c. h a = Some \<lparr>nd_data = Some x, nd_next = Some c\<rparr> \<and> chain h c bs xs t)"
| "chain h a _ _ t \<longleftrightarrow> False"

text \<open>The data nodes and the dummy are distinct, and nothing else is allocated: no node leaks.\<close>

definition tq_repr :: "'a threadsafe_queue \<Rightarrow> 'a list \<Rightarrow> bool" where
  "tq_repr q xs \<longleftrightarrow>
     (\<exists>as. chain (tq_heap q) (tq_head q) as xs (tq_tail q) \<and> distinct (as @ [tq_tail q]) \<and>
        tq_heap q (tq_tail q) = Some empty_node \<and> dom (tq_heap q) = set (as @ [tq_tail q]))"

lemma chain_cong:
  "(\<And>a. a \<in> set as \<Longrightarrow> h a = h' a) \<Longrightarrow> chain h a as xs t = chain h' a as xs t"
  by (induction h a as xs t rule: chain.induct) auto

lemma chain_snoc:
  "chain h a (as @ [t]) (xs @ [x]) p \<longleftrightarrow> chain h a as xs t \<and> h t = Some \<lparr>nd_data = Some x, nd_next = Some p\<rparr>"
  if "length as = length xs"
  using that by (induction as xs arbitrary: a rule: list_induct2) auto

lemma chain_length: "chain h a as xs t \<Longrightarrow> length as = length xs"
  by (induction h a as xs t rule: chain.induct) auto

lemma tq_repr_new: "tq_repr (threadsafe_queue_new p) []"
  by (auto simp: tq_repr_def threadsafe_queue_new_def intro!: exI [of _ "[]"])

lemma tq_push_repr:
  assumes "tq_repr q xs" and "tq_heap q p = None"
  shows "\<exists>q'. tq_push p x q = Some q' \<and> tq_repr q' (xs @ [x])"
proof -
  from assms(1) obtain as where as: "chain (tq_heap q) (tq_head q) as xs (tq_tail q)"
    "distinct (as @ [tq_tail q])" "tq_heap q (tq_tail q) = Some empty_node"
    "dom (tq_heap q) = set (as @ [tq_tail q])" by (auto simp: tq_repr_def)
  have p: "p \<notin> set as" "p \<noteq> tq_tail q" using as(4) assms(2) by (auto simp: domIff)
  let ?h = "(tq_heap q)(p \<mapsto> empty_node, tq_tail q \<mapsto> \<lparr>nd_data = Some x, nd_next = Some p\<rparr>)"
  have push: "tq_push p x q = Some (q\<lparr>tq_heap := ?h, tq_tail := p\<rparr>)"
    using as(3) p by (simp add: tq_push_def empty_node_def Let_def)
  have "chain ?h (tq_head q) as xs (tq_tail q)"
    using as(1,2) p by (subst chain_cong [of _ _ "tq_heap q"]) auto
  then have "chain ?h (tq_head q) (as @ [tq_tail q]) (xs @ [x]) p"
    using chain_length [OF as(1)] by (simp add: chain_snoc)
  then have "tq_repr (q\<lparr>tq_heap := ?h, tq_tail := p\<rparr>) (xs @ [x])"
    using as p unfolding tq_repr_def by (intro exI [of _ "as @ [tq_tail q]"]) auto
  with push show ?thesis by blast
qed

lemma tq_repr_nonempty:
  assumes "tq_repr q xs"
  shows "tq_head q = tq_tail q \<longleftrightarrow> xs = []"
proof -
  from assms obtain as where as: "chain (tq_heap q) (tq_head q) as xs (tq_tail q)"
    "distinct (as @ [tq_tail q])" by (auto simp: tq_repr_def)
  from this chain_length [OF as(1)] show ?thesis by (cases as; cases xs) auto
qed

lemma take_head_repr:
  assumes "tq_repr q (x # xs)"
  shows "\<exists>q'. take_head q = Some (Some x, q') \<and> tq_repr q' xs"
proof -
  from assms obtain as where as: "chain (tq_heap q) (tq_head q) as (x # xs) (tq_tail q)"
    "distinct (as @ [tq_tail q])" "tq_heap q (tq_tail q) = Some empty_node"
    "dom (tq_heap q) = set (as @ [tq_tail q])" by (auto simp: tq_repr_def)
  then obtain b bs c where b: "as = tq_head q # bs" "chain (tq_heap q) c bs xs (tq_tail q)"
    "tq_heap q (tq_head q) = Some \<lparr>nd_data = Some x, nd_next = Some c\<rparr>" by (cases as) auto
  let ?h = "(tq_heap q)(tq_head q := None)"
  have "chain ?h c bs xs (tq_tail q)"
    using b as(2) by (subst chain_cong [of _ _ "tq_heap q"]) auto
  then have "tq_repr (q\<lparr>tq_heap := ?h, tq_head := c\<rparr>) xs"
    using as b unfolding tq_repr_def by (intro exI [of _ bs]) auto
  with b(3) show ?thesis by (simp add: take_head_def pop_head_def)
qed

interpretation tq: fifo_queue tq_repr "\<lambda>q p. tq_heap q p = None" tq_push try_pop
proof unfold_locales
  fix q :: "'a threadsafe_queue" and xs x p
  show "tq_repr q xs \<Longrightarrow> tq_heap q p = None \<Longrightarrow> \<exists>q'. tq_push p x q = Some q' \<and> tq_repr q' (xs @ [x])"
    by (rule tq_push_repr)
  show "tq_repr q [] \<Longrightarrow> try_pop q = Some (None, q)"
    using tq_repr_nonempty [of q "[]"] by (simp add: try_pop_def get_tail_def)
  show "tq_repr q (x # xs) \<Longrightarrow> \<exists>q'. try_pop q = Some (Some x, q') \<and> tq_repr q' xs"
    using tq_repr_nonempty [of q "x # xs"] take_head_repr [of q x xs] by (simp add: try_pop_def get_tail_def)
qed

text \<open>
  A consumer that saw a non-empty queue and then lets producers run (they need only the tail mutex)
  still finds the same first item: pushes never touch the head of a non-empty queue.
\<close>

lemma take_head_after_push:
  assumes "tq_repr q (x # xs)" and "tq_heap q p = None" and "tq_push p y q = Some q'"
  shows "\<exists>r. take_head q' = Some (Some x, r) \<and> tq_repr r (xs @ [y])"
  using tq_push_repr [OF assms(1,2), of y] assms(3) take_head_repr [of q' x "xs @ [y]"] by auto

section \<open>Properties\<close>

text \<open>C15. The linked list of \<open>threadsafe_queue\<close> behaves as a FIFO queue and is memory safe: on every
  queue that represents \<open>xs\<close>, a push at a free address gives a queue that represents \<open>xs @ [x]\<close>, a pop
  gives the first item and the rest, or reports empty, without dereferencing a null or freed node and
  without leaking one; \<open>empty\<close> is right.\<close>

theorem threadsafe_queue_refines_fifo:
  assumes "tq_repr q xs" and "tq_heap q p = None"
  shows "(\<exists>q'. tq_push p x q = Some q' \<and> tq_repr q' (xs @ [x])) \<and>
    (case xs of [] \<Rightarrow> try_pop q = Some (None, q)
     | y # ys \<Rightarrow> \<exists>q'. try_pop q = Some (Some y, q') \<and> wait_pop q = Some (Some y, q') \<and> tq_repr q' ys) \<and>
    (tq_empty q \<longleftrightarrow> xs = [])"
  using tq.push_appends [OF assms, of x] tq.pop_none [of q] tq.pop_first [of q] tq_repr_nonempty [OF assms(1)] assms(1)
  by (auto simp: tq_empty_def get_tail_def wait_pop_def try_pop_def split: list.splits)

theorem threadsafe_queue_refines_fifo_witness:
  "tq_repr (threadsafe_queue_new 0) ([] :: nat list) \<and>
   (\<exists>q'. tq_push 1 (5::nat) (threadsafe_queue_new 0) = Some q' \<and> tq_repr q' [5])"
  using threadsafe_queue_refines_fifo [OF tq_repr_new, of 0 1 "5::nat"] tq_repr_new [of 0, where ?'a = nat]
  by (simp add: threadsafe_queue_new_def)

end
