(* ===== verification/Thread_Pool.thy ===== *)
theory Thread_Pool
  imports Threadsafe_Queue "HOL-Library.Multiset" "HOL-Library.Monad_Syntax"
begin

text \<open>
  \<^verbatim>\<open>src/util/thread_pool.h\<close>: the bounded pool that runs the proxy jobs. The first part models its
  operations as single calls. The second part is a step relation for the worker threads, the callers
  of \<^verbatim>\<open>push\<close> and \<^verbatim>\<open>try_push\<close> and the callers of \<^verbatim>\<open>stop\<close> and \<^verbatim>\<open>pop_task\<close>, split at the
  accesses to the queue, to the atomic counters and flags and to the mutex.
\<close>

section \<open>Operations\<close>

text \<open>The queue size counter is a \<^verbatim>\<open>std::atomic<std::size_t>\<close>: it wraps at 64 bits.\<close>

record 't thread_pool =
  tp_queue :: "'t threadsafe_queue"
  tp_max :: u64
  tp_count :: u64
  tp_stopped :: bool
  tp_done :: bool
  tp_flags :: "bool list"
  tp_threads :: nat

definition thread_pool_new :: "addr \<Rightarrow> nat \<Rightarrow> u64 \<Rightarrow> 't thread_pool" where
  "thread_pool_new p thread_count max_queue_size =
     \<lparr>tp_queue = threadsafe_queue_new p, tp_max = (if max_queue_size = 0 then 1 else max_queue_size),
      tp_count = 0, tp_stopped = False, tp_done = False, tp_flags = replicate thread_count False,
      tp_threads = thread_count\<rparr>"

definition on_task_dequeued :: "('t, 'b) thread_pool_scheme \<Rightarrow> ('t, 'b) thread_pool_scheme" where
  "on_task_dequeued tp =
     (let previous = tp_count tp; tp' = tp\<lparr>tp_count := previous - 1\<rparr>
      in if previous = 0 then tp'\<lparr>tp_count := 0\<rparr> else tp')"

definition pop_task :: "('t, 'b) thread_pool_scheme \<Rightarrow> ('t option \<times> ('t, 'b) thread_pool_scheme) option" where
  "pop_task tp =
     do {
       (r, q) \<leftarrow> try_pop (tp_queue tp);
       (case r of
          None \<Rightarrow> Some (None, tp\<lparr>tp_queue := q\<rparr>)
        | Some t \<Rightarrow> Some (Some t, on_task_dequeued (tp\<lparr>tp_queue := q\<rparr>)))
     }"

text \<open>The discarded tasks are returned beside the pool.\<close>

partial_function (option) clear_queue :: "'t thread_pool \<Rightarrow> ('t list \<times> 't thread_pool) option" where
  "clear_queue tp =
     do {
       (r, q) \<leftarrow> try_pop (tp_queue tp);
       (case r of
          None \<Rightarrow> Some ([], tp\<lparr>tp_queue := q\<rparr>)
        | Some t \<Rightarrow> do { (ts, tp') \<leftarrow> clear_queue (on_task_dequeued (tp\<lparr>tp_queue := q\<rparr>)); Some (t # ts, tp') })
     }"

definition enqueue :: "addr \<Rightarrow> 't \<Rightarrow> 't thread_pool \<Rightarrow> 't thread_pool option" where
  "enqueue p t tp =
     do { q \<leftarrow> tq_push p t (tp_queue tp); Some (tp\<lparr>tp_queue := q, tp_count := tp_count tp + 1\<rparr>) }"

text \<open>\<^verbatim>\<open>try_push\<close>: the boolean says whether a future is returned.\<close>

definition try_push :: "addr \<Rightarrow> 't \<Rightarrow> 't thread_pool \<Rightarrow> (bool \<times> 't thread_pool) option" where
  "try_push p t tp =
     (if tp_count tp \<ge> tp_max tp \<or> tp_stopped tp \<or> tp_done tp then Some (False, tp)
      else map_option (Pair True) (enqueue p t tp))"

text \<open>\<^verbatim>\<open>push\<close> waits until there is room or the pool is stopped, and throws in the second case.\<close>

datatype 't push_outcome = Waits | Throws | Pushed "'t thread_pool"

definition push_task :: "addr \<Rightarrow> 't \<Rightarrow> 't thread_pool \<Rightarrow> 't push_outcome option" where
  "push_task p t tp =
     (if \<not> (tp_count tp < tp_max tp \<or> tp_stopped tp \<or> tp_done tp) then Some Waits
      else if tp_stopped tp \<or> tp_done tp then Some Throws
      else map_option Pushed (enqueue p t tp))"

text \<open>
  \<^verbatim>\<open>stop\<close>: \<open>join\<close> is what the worker threads do to the pool until the last of them has returned. The
  first component says whether the call did anything.
\<close>

definition stop :: "('t thread_pool \<Rightarrow> 't thread_pool) \<Rightarrow> bool \<Rightarrow> 't thread_pool \<Rightarrow> (bool \<times> 't thread_pool) option" where
  "stop join wait_for_tasks tp =
     (if wait_for_tasks \<and> (tp_done tp \<or> tp_stopped tp) \<or> \<not> wait_for_tasks \<and> tp_stopped tp
      then Some (False, tp)
      else do {
        tp1 \<leftarrow> (if wait_for_tasks then Some (tp\<lparr>tp_done := True\<rparr>)
               else map_option snd
                 (clear_queue (tp\<lparr>tp_stopped := True, tp_flags := replicate (length (tp_flags tp)) True\<rparr>)));
        (_, tp2) \<leftarrow> clear_queue (join tp1);
        Some (True, tp2\<lparr>tp_threads := 0, tp_flags := []\<rparr>)
      })"

section \<open>Sequential correctness\<close>

text \<open>Between calls that do not overlap the counter is the length of the queue.\<close>

definition pool_repr :: "('t, 'b) thread_pool_scheme \<Rightarrow> 't list \<Rightarrow> bool" where
  "pool_repr tp ts \<longleftrightarrow> tq_repr (tp_queue tp) ts \<and> tp_count tp = of_nat (length ts) \<and>
     length ts \<le> unat (tp_max tp)"

lemma pool_repr_new: "pool_repr (thread_pool_new p n m) []"
  by (simp add: pool_repr_def thread_pool_new_def tq_repr_new)

lemma unat_max_less: "unat (x :: u64) < 2 ^ 64"
  using unsigned_less [of x] by simp

lemma pool_repr_count: "pool_repr tp ts \<Longrightarrow> unat (tp_count tp) = length ts"
  using unat_max_less [of "tp_max tp"] by (simp add: pool_repr_def unat_of_nat)

lemma pool_repr_full: "pool_repr tp ts \<Longrightarrow> tp_count tp \<ge> tp_max tp \<longleftrightarrow> length ts = unat (tp_max tp)"
  using pool_repr_count [of tp ts] by (auto simp: word_le_nat_alt pool_repr_def)

lemma enqueue_repr:
  assumes "pool_repr tp ts" and "length ts < unat (tp_max tp)" and "tq_heap (tp_queue tp) p = None"
  shows "\<exists>tp'. enqueue p t tp = Some tp' \<and> pool_repr tp' (ts @ [t]) \<and> tp_max tp' = tp_max tp"
  using tq.push_appends [of "tp_queue tp" ts p t] assms by (auto simp: pool_repr_def enqueue_def)

lemma dequeue_repr:
  assumes "pool_repr tp (t # ts)" and "tq_repr q ts"
  shows "pool_repr (on_task_dequeued (tp\<lparr>tp_queue := q\<rparr>)) ts"
proof -
  have "tp_count tp \<noteq> 0" using pool_repr_count [OF assms(1)] by auto
  then show ?thesis using assms by (simp add: pool_repr_def on_task_dequeued_def Let_def)
qed

lemma on_task_dequeued_frame [simp]:
  "tp_queue (on_task_dequeued tp) = tp_queue tp" "tp_max (on_task_dequeued tp) = tp_max tp"
  "tp_stopped (on_task_dequeued tp) = tp_stopped tp" "tp_done (on_task_dequeued tp) = tp_done tp"
  by (simp_all add: on_task_dequeued_def Let_def)

lemma clear_queue_ok:
  assumes "tq_repr (tp_queue tp) ts"
  shows "\<exists>tp'. clear_queue tp = Some (ts, tp') \<and> tq_repr (tp_queue tp') [] \<and>
     (pool_repr tp ts \<longrightarrow> tp_count tp' = 0) \<and> tp_stopped tp' = tp_stopped tp \<and> tp_done tp' = tp_done tp"
  using assms
proof (induction ts arbitrary: tp)
  case Nil
  with tq.pop_none [OF Nil] show ?case by (subst clear_queue.simps) (simp add: pool_repr_def)
next
  case (Cons t ts)
  from tq.pop_first [OF Cons.prems] obtain q where
    q: "try_pop (tp_queue tp) = Some (Some t, q)" "tq_repr q ts" by blast
  let ?tp1 = "on_task_dequeued (tp\<lparr>tp_queue := q\<rparr>)"
  from Cons.IH [of ?tp1] q(2) obtain tp' where
    "clear_queue ?tp1 = Some (ts, tp')" "tq_repr (tp_queue tp') []"
    "pool_repr ?tp1 ts \<longrightarrow> tp_count tp' = 0" "tp_stopped tp' = tp_stopped tp" "tp_done tp' = tp_done tp" by auto
  with q dequeue_repr [of tp t ts q] show ?case by (subst clear_queue.simps) simp
qed

lemma stop_ok:
  assumes "tq_repr (tp_queue tp) ts" and "\<And>tp. \<exists>us. tq_repr (tp_queue (join tp)) us \<and>
      tp_stopped (join tp) = tp_stopped tp \<and> tp_done (join tp) = tp_done tp"
  shows "\<exists>r tp'. stop join wait_for_tasks tp = Some (r, tp') \<and> (tp_stopped tp' \<or> tp_done tp') \<and>
     (r \<longrightarrow> tq_repr (tp_queue tp') [] \<and> tp_threads tp' = 0)"
proof -
  have join: "\<exists>us tp2. clear_queue (join tp1) = Some (us, tp2) \<and> tq_repr (tp_queue tp2) [] \<and>
      tp_stopped tp2 = tp_stopped tp1 \<and> tp_done tp2 = tp_done tp1" for tp1
    using assms(2) [of tp1] clear_queue_ok [of "join tp1"] by metis
  show ?thesis
  proof (cases wait_for_tasks)
    case True
    then show ?thesis using join [of "tp\<lparr>tp_done := True\<rparr>"] by (fastforce simp: stop_def)
  next
    case False
    let ?tp = "tp\<lparr>tp_stopped := True, tp_flags := replicate (length (tp_flags tp)) True\<rparr>"
    from clear_queue_ok [of ?tp ts] assms(1) obtain tp1 where
      "clear_queue ?tp = Some (ts, tp1)" "tp_stopped tp1" by auto
    with False join [of tp1] show ?thesis by (fastforce simp: stop_def)
  qed
qed

section \<open>Threads\<close>

text \<open>
  A worker stands: before a \<^verbatim>\<open>try_pop\<close> outside the mutex; after it obtained a task and before the
  counter is decremented; after the decrement found zero and before the counter is reset; before it
  runs the task; before it reads its stop flag; before it locks the mutex; in the wait with the mutex,
  before the \<^verbatim>\<open>try_pop\<close> of the predicate and before its reads of \<^verbatim>\<open>is_done\<close> and the flag; blocked
  with the mutex released; returned.
\<close>

datatype 't worker =
    Wk_try | Wk_got 't | Wk_zero 't | Wk_task 't | Wk_flag | Wk_lock | Wk_pred | Wk_pred2 | Wk_blocked | Wk_exit

text \<open>
  The thread inside the critical section of \<^verbatim>\<open>push\<close> or \<^verbatim>\<open>try_push\<close>: mutex locked; the counter read
  below the limit; \<^verbatim>\<open>is_stopped\<close> read as false; \<^verbatim>\<open>is_done\<close> read as false; the task queued and the
  counter not yet incremented. A refused \<^verbatim>\<open>try_push\<close>, a throwing \<^verbatim>\<open>push\<close> and a \<^verbatim>\<open>push\<close> that
  starts waiting all leave by unlocking; a waiting \<^verbatim>\<open>push\<close> comes back by locking again.
\<close>

datatype 't pusher = Pu_none | Pu_locked 't | Pu_room 't | Pu_live 't | Pu_pass 't | Pu_queued

text \<open>A thread outside the pool in \<^verbatim>\<open>clear_queue\<close> or \<^verbatim>\<open>pop_task\<close>.\<close>

datatype taker = Tk_idle | Tk_got | Tk_zero

datatype owner = Free | By_pusher | By_worker nat

record 't pool_system = "'t thread_pool" +
  ps_mtx :: owner
  ps_pusher :: "'t pusher"
  ps_taker :: taker
  ps_workers :: "'t worker list"
  ps_accepted :: "'t list"
  ps_dequeued :: "'t list"
  ps_run :: "'t list"
  ps_taken :: "'t list"

definition pool_system_new :: "addr \<Rightarrow> nat \<Rightarrow> u64 \<Rightarrow> 't pool_system" where
  "pool_system_new p n m =
     thread_pool.extend (thread_pool_new p n m)
       \<lparr>ps_mtx = Free, ps_pusher = Pu_none, ps_taker = Tk_idle, ps_workers = replicate n Wk_try,
        ps_accepted = [], ps_dequeued = [], ps_run = [], ps_taken = []\<rparr>"

definition at :: "'t pool_system \<Rightarrow> nat \<Rightarrow> 't worker \<Rightarrow> bool" where
  "at s i w \<longleftrightarrow> i < length (ps_workers s) \<and> ps_workers s ! i = w"

definition goto :: "nat \<Rightarrow> 't worker \<Rightarrow> 't pool_system \<Rightarrow> 't pool_system" where
  "goto i w s = s\<lparr>ps_workers := (ps_workers s)[i := w]\<rparr>"

definition popped :: "'t \<Rightarrow> 't threadsafe_queue \<Rightarrow> 't pool_system \<Rightarrow> 't pool_system" where
  "popped t q s = s\<lparr>tp_queue := q, ps_dequeued := ps_dequeued s @ [t]\<rparr>"

inductive pool_step :: "'t pool_system \<Rightarrow> 't pool_system \<Rightarrow> bool" where
  push_lock:
    "ps_mtx s = Free \<Longrightarrow> pool_step s (s\<lparr>ps_mtx := By_pusher, ps_pusher := Pu_locked t\<rparr>)"
| push_room:
    "ps_pusher s = Pu_locked t \<Longrightarrow> tp_count s < tp_max s \<Longrightarrow> pool_step s (s\<lparr>ps_pusher := Pu_room t\<rparr>)"
| push_no_room:
    "ps_pusher s = Pu_locked t \<Longrightarrow> \<not> tp_count s < tp_max s \<Longrightarrow>
     pool_step s (s\<lparr>ps_pusher := Pu_none, ps_mtx := Free\<rparr>)"
| push_not_stopped:
    "ps_pusher s = Pu_room t \<Longrightarrow> \<not> tp_stopped s \<Longrightarrow> pool_step s (s\<lparr>ps_pusher := Pu_live t\<rparr>)"
| push_stopped:
    "ps_pusher s = Pu_room t \<Longrightarrow> tp_stopped s \<Longrightarrow> pool_step s (s\<lparr>ps_pusher := Pu_none, ps_mtx := Free\<rparr>)"
| push_not_done:
    "ps_pusher s = Pu_live t \<Longrightarrow> \<not> tp_done s \<Longrightarrow> pool_step s (s\<lparr>ps_pusher := Pu_pass t\<rparr>)"
| push_done:
    "ps_pusher s = Pu_live t \<Longrightarrow> tp_done s \<Longrightarrow> pool_step s (s\<lparr>ps_pusher := Pu_none, ps_mtx := Free\<rparr>)"
| push_queue:
    "ps_pusher s = Pu_pass t \<Longrightarrow> tq_heap (tp_queue s) p = None \<Longrightarrow> tq_push p t (tp_queue s) = Some q \<Longrightarrow>
     pool_step s (s\<lparr>tp_queue := q, ps_accepted := ps_accepted s @ [t], ps_pusher := Pu_queued\<rparr>)"
| push_count:
    "ps_pusher s = Pu_queued \<Longrightarrow>
     pool_step s (s\<lparr>tp_count := tp_count s + 1, ps_pusher := Pu_none, ps_mtx := Free\<rparr>)"
| work_pop:
    "at s i Wk_try \<Longrightarrow> try_pop (tp_queue s) = Some (Some t, q) \<Longrightarrow> pool_step s (goto i (Wk_got t) (popped t q s))"
| work_none:
    "at s i Wk_try \<Longrightarrow> try_pop (tp_queue s) = Some (None, q) \<Longrightarrow> pool_step s (goto i Wk_lock s)"
| work_sub:
    "at s i (Wk_got t) \<Longrightarrow>
     pool_step s (goto i (if tp_count s = 0 then Wk_zero t else Wk_task t) (s\<lparr>tp_count := tp_count s - 1\<rparr>))"
| work_zero:
    "at s i (Wk_zero t) \<Longrightarrow> pool_step s (goto i (Wk_task t) (s\<lparr>tp_count := 0\<rparr>))"
| work_run:
    "at s i (Wk_task t) \<Longrightarrow> pool_step s (goto i Wk_flag (s\<lparr>ps_run := ps_run s @ [t]\<rparr>))"
| work_flag_set:
    "at s i Wk_flag \<Longrightarrow> tp_flags s ! i \<Longrightarrow> pool_step s (goto i Wk_exit s)"
| work_flag_clear:
    "at s i Wk_flag \<Longrightarrow> \<not> tp_flags s ! i \<Longrightarrow> pool_step s (goto i Wk_try s)"
| work_lock:
    "at s i Wk_lock \<Longrightarrow> ps_mtx s = Free \<Longrightarrow> pool_step s (goto i Wk_pred (s\<lparr>ps_mtx := By_worker i\<rparr>))"
| work_pred_pop:
    "at s i Wk_pred \<Longrightarrow> try_pop (tp_queue s) = Some (Some t, q) \<Longrightarrow>
     pool_step s (goto i (Wk_got t) ((popped t q s)\<lparr>ps_mtx := Free\<rparr>))"
| work_pred_none:
    "at s i Wk_pred \<Longrightarrow> try_pop (tp_queue s) = Some (None, q) \<Longrightarrow> pool_step s (goto i Wk_pred2 s)"
| work_leave:
    "at s i Wk_pred2 \<Longrightarrow> tp_done s \<or> tp_flags s ! i \<Longrightarrow> pool_step s (goto i Wk_exit (s\<lparr>ps_mtx := Free\<rparr>))"
| work_block:
    "at s i Wk_pred2 \<Longrightarrow> \<not> (tp_done s \<or> tp_flags s ! i) \<Longrightarrow>
     pool_step s (goto i Wk_blocked (s\<lparr>ps_mtx := Free\<rparr>))"
| work_wake:
    "at s i Wk_blocked \<Longrightarrow> ps_mtx s = Free \<Longrightarrow> pool_step s (goto i Wk_pred (s\<lparr>ps_mtx := By_worker i\<rparr>))"
| take_pop:
    "ps_taker s = Tk_idle \<Longrightarrow> try_pop (tp_queue s) = Some (Some t, q) \<Longrightarrow>
     pool_step s ((popped t q s)\<lparr>ps_taker := Tk_got, ps_taken := ps_taken s @ [t]\<rparr>)"
| take_sub:
    "ps_taker s = Tk_got \<Longrightarrow>
     pool_step s (s\<lparr>tp_count := tp_count s - 1, ps_taker := (if tp_count s = 0 then Tk_zero else Tk_idle)\<rparr>)"
| take_zero:
    "ps_taker s = Tk_zero \<Longrightarrow> pool_step s (s\<lparr>tp_count := 0, ps_taker := Tk_idle\<rparr>)"
| set_done: "pool_step s (s\<lparr>tp_done := True\<rparr>)"
| set_stopped: "pool_step s (s\<lparr>tp_stopped := True\<rparr>)"
| set_flag: "tp_stopped s \<Longrightarrow> pool_step s (s\<lparr>tp_flags := (tp_flags s)[i := True]\<rparr>)"

section \<open>Invariant of the threads\<close>

fun inflight :: "'t worker \<Rightarrow> 't multiset" where
  "inflight (Wk_got t) = {#t#}"
| "inflight (Wk_zero t) = {#t#}"
| "inflight (Wk_task t) = {#t#}"
| "inflight _ = {#}"

definition all_inflight :: "'t pool_system \<Rightarrow> 't multiset" where
  "all_inflight s = sum_list (map inflight (ps_workers s))"

text \<open>Every accepted task is queued, being run, run or taken out, exactly once, and tasks leave the
  queue in the order in which they were accepted.\<close>

definition tasks_ok :: "'t pool_system \<Rightarrow> bool" where
  "tasks_ok s \<longleftrightarrow>
     (\<exists>ts. tq_repr (tp_queue s) ts \<and> ps_accepted s = ps_dequeued s @ ts) \<and>
     mset (ps_dequeued s) = mset (ps_run s) + mset (ps_taken s) + all_inflight s"

lemma sum_list_update_mset:
  assumes "i < length ws"
  shows "sum_list (map f (ws[i := w])) + f (ws ! i) = sum_list (map f ws) + (f w :: 'a multiset)"
  using assms
proof (induction ws arbitrary: i)
  case (Cons a ws)
  then show ?case by (cases i) (auto simp: ac_simps)
qed simp

lemma all_inflight_goto:
  assumes "at s i w"
  shows "all_inflight (goto i w' s) + inflight w = all_inflight s + inflight w'"
  using sum_list_update_mset [of i "ps_workers s" inflight w'] assms
  by (simp add: all_inflight_def goto_def at_def)

lemma goto_simps [simp]:
  "tp_queue (goto i w s) = tp_queue s" "tp_max (goto i w s) = tp_max s" "tp_count (goto i w s) = tp_count s"
  "tp_stopped (goto i w s) = tp_stopped s" "tp_done (goto i w s) = tp_done s" "tp_flags (goto i w s) = tp_flags s"
  "ps_mtx (goto i w s) = ps_mtx s" "ps_pusher (goto i w s) = ps_pusher s" "ps_taker (goto i w s) = ps_taker s"
  "ps_workers (goto i w s) = (ps_workers s)[i := w]" "ps_accepted (goto i w s) = ps_accepted s"
  "ps_dequeued (goto i w s) = ps_dequeued s" "ps_run (goto i w s) = ps_run s" "ps_taken (goto i w s) = ps_taken s"
  by (simp_all add: goto_def)

lemma try_pop_repr:
  assumes "tq_repr q ts" and "try_pop q = Some (r, q')"
  shows "case r of None \<Rightarrow> ts = [] \<and> q' = q | Some t \<Rightarrow> \<exists>us. ts = t # us \<and> tq_repr q' us"
  using assms tq.pop_none [of q] tq.pop_first [of q] by (cases ts) (fastforce split: option.splits)+

text \<open>A worker's step that does not touch the queue keeps the tasks if it keeps the task in flight.\<close>

lemma tasks_ok_goto:
  assumes "tasks_ok s" and "at s i w" and "inflight w' = inflight w"
    and "tp_queue s' = tp_queue s" "ps_accepted s' = ps_accepted s" "ps_dequeued s' = ps_dequeued s"
      "ps_run s' = ps_run s" "ps_taken s' = ps_taken s" "ps_workers s' = ps_workers s"
  shows "tasks_ok (goto i w' s')"
  using all_inflight_goto [OF assms(2), of w'] assms(1,3-) by (simp add: tasks_ok_def all_inflight_def)

lemma tasks_ok_popped:
  assumes "tasks_ok s" and "at s i w" and "inflight w = {#}" and "try_pop (tp_queue s) = Some (Some t, q)"
    and "s' = popped t q s \<or> s' = (popped t q s)\<lparr>ps_mtx := m\<rparr>"
  shows "tasks_ok (goto i (Wk_got t) s')"
proof -
  from assms(1) obtain ts where ts: "tq_repr (tp_queue s) ts" "ps_accepted s = ps_dequeued s @ ts"
    by (auto simp: tasks_ok_def)
  from try_pop_repr [OF ts(1) assms(4)] obtain us where "ts = t # us" "tq_repr q us" by auto
  with ts assms(1,3,5) all_inflight_goto [OF assms(2), of "Wk_got t"] show ?thesis
    by (auto simp: tasks_ok_def popped_def all_inflight_def)
qed

lemma tasks_ok_frame:
  assumes "tasks_ok s" and "tp_queue s' = tp_queue s" "ps_accepted s' = ps_accepted s"
    "ps_dequeued s' = ps_dequeued s" "ps_run s' = ps_run s" "ps_taken s' = ps_taken s" "ps_workers s' = ps_workers s"
  shows "tasks_ok s'"
  using assms by (simp add: tasks_ok_def all_inflight_def)

lemma tasks_ok_step: "pool_step s s' \<Longrightarrow> tasks_ok s \<Longrightarrow> tasks_ok s'"
proof (induction rule: pool_step.induct)
  case (push_queue s t p q)
  then obtain ts where ts: "tq_repr (tp_queue s) ts" "ps_accepted s = ps_dequeued s @ ts"
    by (auto simp: tasks_ok_def)
  with tq_push_repr [OF ts(1) push_queue(2), of t] push_queue show ?case
    by (auto simp: tasks_ok_def all_inflight_def)
next
  case (take_pop s t q)
  then obtain ts where ts: "tq_repr (tp_queue s) ts" "ps_accepted s = ps_dequeued s @ ts"
    by (auto simp: tasks_ok_def)
  from try_pop_repr [OF ts(1) take_pop(2)] ts take_pop show ?case
    by (auto simp: tasks_ok_def all_inflight_def popped_def)
next
  case (work_run s i t)
  then show ?case using all_inflight_goto [OF work_run(1), of Wk_flag]
    by (auto simp: tasks_ok_def all_inflight_def)
next
  case (work_pop s i t q)
  then show ?case by (auto intro: tasks_ok_popped [of s])
next
  case (work_pred_pop s i t q)
  then show ?case by (auto intro: tasks_ok_popped [of s])
qed ((rule tasks_ok_goto, assumption, assumption, simp_all; fail) | (rule tasks_ok_frame, assumption, simp_all; fail))+

text \<open>
  The mutex, and why a worker may leave: it saw an empty queue and \<^verbatim>\<open>is_done\<close> while holding the mutex,
  so no push was between its check of \<^verbatim>\<open>is_done\<close> and its insertion, and no later one passes the check.
\<close>

definition flagged :: "'t pool_system \<Rightarrow> bool" where
  "flagged s \<longleftrightarrow> True \<in> set (tp_flags s)"

fun queuing :: "'t pusher \<Rightarrow> bool" where
  "queuing (Pu_pass t) \<longleftrightarrow> True"
| "queuing Pu_queued \<longleftrightarrow> True"
| "queuing _ \<longleftrightarrow> False"

definition drained :: "'t pool_system \<Rightarrow> bool" where
  "drained s \<longleftrightarrow> tp_done s \<and> tq_repr (tp_queue s) [] \<and> \<not> queuing (ps_pusher s)"

fun worker_ok :: "'t pool_system \<Rightarrow> nat \<Rightarrow> 't worker \<Rightarrow> bool" where
  "worker_ok s i Wk_pred \<longleftrightarrow> ps_mtx s = By_worker i"
| "worker_ok s i Wk_pred2 \<longleftrightarrow> ps_mtx s = By_worker i \<and> tq_repr (tp_queue s) []"
| "worker_ok s i Wk_exit \<longleftrightarrow> flagged s \<or> drained s"
| "worker_ok s i _ \<longleftrightarrow> True"

definition threads_ok :: "'t pool_system \<Rightarrow> bool" where
  "threads_ok s \<longleftrightarrow> length (tp_flags s) = length (ps_workers s) \<and>
     (ps_pusher s \<noteq> Pu_none \<longrightarrow> ps_mtx s = By_pusher) \<and>
     (\<forall>i. i < length (ps_workers s) \<longrightarrow> worker_ok s i (ps_workers s ! i))"

lemma threads_ok_worker: "threads_ok s \<Longrightarrow> at s i w \<Longrightarrow> worker_ok s i w"
  by (auto simp: threads_ok_def at_def)

text \<open>What a step must keep for the other workers.\<close>

definition keeps :: "'t pool_system \<Rightarrow> 't pool_system \<Rightarrow> nat \<Rightarrow> bool" where
  "keeps s s' j \<longleftrightarrow> (ps_mtx s = By_worker j \<longrightarrow> ps_mtx s' = By_worker j \<and>
       (tq_repr (tp_queue s) [] \<longrightarrow> tq_repr (tp_queue s') [])) \<and>
     (flagged s \<or> drained s \<longrightarrow> flagged s' \<or> drained s')"

lemma worker_ok_keeps: "worker_ok s j w \<Longrightarrow> keeps s s' j \<Longrightarrow> worker_ok s' j w"
  by (cases w) (auto simp: keeps_def)

lemma threads_ok_goto:
  assumes "threads_ok s" and "ps_workers s' = ps_workers s" "length (tp_flags s') = length (tp_flags s)"
    and "ps_pusher s' \<noteq> Pu_none \<Longrightarrow> ps_mtx s' = By_pusher"
    and "\<And>j. j \<noteq> i \<Longrightarrow> keeps s s' j" and "worker_ok s' i w"
  shows "threads_ok (goto i w s')"
proof -
  have "worker_ok (goto i w s') j v = worker_ok s' j v" for j v
    by (cases v) (auto simp: flagged_def drained_def)
  moreover have "worker_ok s' j ((ps_workers s)[i := w] ! j)" if "j < length (ps_workers s)" for j
    using assms(1,5,6) that by (cases "j = i") (auto simp: threads_ok_def intro: worker_ok_keeps)
  ultimately show ?thesis
    using assms(1-4) by (simp add: threads_ok_def)
qed

lemma threads_ok_shared:
  assumes "threads_ok s" and "ps_workers s' = ps_workers s" "length (tp_flags s') = length (tp_flags s)"
    and "ps_pusher s' \<noteq> Pu_none \<Longrightarrow> ps_mtx s' = By_pusher" and "\<And>j. keeps s s' j"
  shows "threads_ok s'"
  using assms by (auto simp: threads_ok_def intro: worker_ok_keeps)

lemma try_pop_Some_nonempty:
  assumes "try_pop q = Some (Some t, q')"
  shows "\<not> tq_repr q []"
  using assms tq.pop_none [of q] by auto

lemma try_pop_None_empty:
  assumes "tasks_ok s" and "try_pop (tp_queue s) = Some (None, q)"
  shows "tq_repr (tp_queue s) []"
  using assms try_pop_repr [of "tp_queue s" _ None q] by (auto simp: tasks_ok_def)

lemma flagged_nth: "threads_ok s \<Longrightarrow> at s i w \<Longrightarrow> tp_flags s ! i \<Longrightarrow> flagged s"
  by (auto simp: flagged_def threads_ok_def at_def in_set_conv_nth)

lemma threads_ok_free: "threads_ok s \<Longrightarrow> ps_mtx s \<noteq> By_pusher \<Longrightarrow> ps_pusher s = Pu_none"
  by (auto simp: threads_ok_def)

lemma threads_ok_pusher: "threads_ok s \<Longrightarrow> ps_pusher s \<noteq> Pu_none \<Longrightarrow> ps_mtx s = By_pusher"
  by (simp add: threads_ok_def)

lemma set_update_True: "True \<in> set xs \<Longrightarrow> True \<in> set (xs[i := True])"
proof (induction xs arbitrary: i)
  case (Cons x xs)
  then show ?case by (cases i) auto
qed simp

lemmas pool_frame = keeps_def flagged_def drained_def popped_def

lemma threads_ok_step:
  assumes "pool_step s s'" and "tasks_ok s" and "threads_ok s"
  shows "threads_ok s'"
  using assms
proof (induction rule: pool_step.induct)
  case (work_pop s i t q)
  then show ?case using try_pop_Some_nonempty [OF work_pop(2)]
    by (intro threads_ok_goto [of s]) (auto simp: pool_frame dest: threads_ok_pusher)
next
  case (work_pred_pop s i t q)
  then show ?case
    using try_pop_Some_nonempty [OF work_pred_pop(2)] threads_ok_worker [OF work_pred_pop(4,1)] threads_ok_free [of s]
    by (intro threads_ok_goto [of s]) (auto simp: pool_frame)
next
  case (work_pred_none s i q)
  then show ?case
    using try_pop_None_empty [OF work_pred_none(3,2)] threads_ok_worker [OF work_pred_none(4,1)] threads_ok_free [of s]
    by (intro threads_ok_goto [of s]) (auto simp: pool_frame)
next
  case (work_leave s i)
  then show ?case
    using flagged_nth [OF work_leave(4,1)] threads_ok_worker [OF work_leave(4,1)] threads_ok_free [of s]
    by (intro threads_ok_goto [of s]) (auto simp: pool_frame)
next
  case (work_block s i)
  then show ?case
    using threads_ok_worker [OF work_block(4,1)] threads_ok_free [of s]
    by (intro threads_ok_goto [of s]) (auto simp: pool_frame)
next
  case (work_flag_set s i)
  then show ?case
    using flagged_nth [OF work_flag_set(4,1)] by (intro threads_ok_goto [of s]) (auto simp: keeps_def dest: threads_ok_pusher)
next
  case (take_pop s t q)
  then show ?case using try_pop_Some_nonempty [OF take_pop(2)]
    by - (rule threads_ok_shared [of s], auto simp: pool_frame dest: threads_ok_pusher)
next
  case (set_flag s i)
  then show ?case
    by - (rule threads_ok_shared [of s],
        auto simp: pool_frame set_update_True dest: threads_ok_pusher)
qed ((rule threads_ok_goto, assumption; auto simp: pool_frame dest: threads_ok_pusher; fail) |
     (rule threads_ok_shared, assumption; auto simp: pool_frame dest: threads_ok_pusher; fail))+

lemma pool_system_new_simps:
  "tp_queue (pool_system_new p n m) = threadsafe_queue_new p"
  "ps_workers (pool_system_new p n m) = replicate n Wk_try"
  "tp_flags (pool_system_new p n m) = replicate n False"
  "ps_accepted (pool_system_new p n m) = []" "ps_dequeued (pool_system_new p n m) = []"
  "ps_run (pool_system_new p n m) = []" "ps_taken (pool_system_new p n m) = []"
  "ps_pusher (pool_system_new p n m) = Pu_none" "ps_taker (pool_system_new p n m) = Tk_idle"
  "tp_count (pool_system_new p n m) = 0" "tp_max (pool_system_new p n m) = (if m = 0 then 1 else m)"
  "ps_mtx (pool_system_new p n m) = Free" "\<not> tp_stopped (pool_system_new p n m)" "\<not> tp_done (pool_system_new p n m)"
  by (simp_all add: pool_system_new_def thread_pool_new_def thread_pool.extend_def)

lemma pool_system_new_ok: "tasks_ok (pool_system_new p n m)" "threads_ok (pool_system_new p n m)"
proof -
  have "sum_list (map inflight (replicate n Wk_try)) = {#}" by (induction n) auto
  then show "tasks_ok (pool_system_new p n m)"
    using tq_repr_new by (auto simp: tasks_ok_def all_inflight_def pool_system_new_simps)
qed (simp add: threads_ok_def pool_system_new_simps)

lemma pool_reachable_ok:
  assumes "pool_step\<^sup>*\<^sup>* (pool_system_new p n m) s"
  shows "tasks_ok s \<and> threads_ok s"
  using assms
  by (induction rule: rtranclp_induct) (auto intro: pool_system_new_ok tasks_ok_step threads_ok_step)

section \<open>A pool that refuses everything\<close>

text \<open>
  With a counter that is too high and nobody about to decrement it, no task is accepted any more:
  the condition is kept by every step.
\<close>

definition starved :: "'t pool_system \<Rightarrow> bool" where
  "starved s \<longleftrightarrow> tq_repr (tp_queue s) [] \<and> tp_count s \<ge> tp_max s \<and> ps_taker s = Tk_idle \<and>
     (\<forall>w \<in> set (ps_workers s). inflight w = {#}) \<and> (ps_pusher s = Pu_none \<or> (\<exists>t. ps_pusher s = Pu_locked t))"

lemma at_set: "at s i w \<Longrightarrow> w \<in> set (ps_workers s)"
  by (auto simp: at_def)

lemma starved_goto:
  "starved s \<Longrightarrow> inflight w = {#} \<Longrightarrow> starved (goto i w s)"
  by (auto simp: starved_def dest!: set_update_subset_insert [THEN subsetD])

lemma starved_step:
  assumes "pool_step s s'" and "starved s"
  shows "starved s' \<and> ps_accepted s' = ps_accepted s"
  using assms
proof (induction rule: pool_step.induct)
  case (work_sub s i t)
  then show ?case using at_set [OF work_sub(1)] by (auto simp: starved_def)
next
  case (work_zero s i t)
  then show ?case using at_set [OF work_zero(1)] by (auto simp: starved_def)
next
  case (work_run s i t)
  then show ?case using at_set [OF work_run(1)] by (auto simp: starved_def)
next
  case (work_pop s i t q)
  then show ?case using try_pop_Some_nonempty [OF work_pop(2)] by (simp add: starved_def)
next
  case (work_pred_pop s i t q)
  then show ?case using try_pop_Some_nonempty [OF work_pred_pop(2)] by (simp add: starved_def)
next
  case (take_pop s t q)
  then show ?case using try_pop_Some_nonempty [OF take_pop(2)] by (simp add: starved_def)
next
  case (work_lock s i)
  then have "starved (s\<lparr>ps_mtx := By_worker i\<rparr>)" by (simp add: starved_def)
  then show ?case by (simp add: starved_goto)
next
  case (work_leave s i)
  then have "starved (s\<lparr>ps_mtx := Free\<rparr>)" by (simp add: starved_def)
  then show ?case by (simp add: starved_goto)
next
  case (work_block s i)
  then have "starved (s\<lparr>ps_mtx := Free\<rparr>)" by (simp add: starved_def)
  then show ?case by (simp add: starved_goto)
next
  case (work_wake s i)
  then have "starved (s\<lparr>ps_mtx := By_worker i\<rparr>)" by (simp add: starved_def)
  then show ?case by (simp add: starved_goto)
qed (simp_all add: starved_goto, auto simp: starved_def)

lemma starved_forever:
  "pool_step\<^sup>*\<^sup>* s s' \<Longrightarrow> starved s \<Longrightarrow> starved s' \<and> ps_accepted s' = ps_accepted s"
  by (induction rule: rtranclp_induct) (auto dest: starved_step)

text \<open>
  The schedule that leads there, with one worker and a limit of one: the worker takes the task between
  its insertion and the increment, finds a counter of zero and resets it, and the increment comes last.
\<close>

definition raced :: "nat threadsafe_queue \<Rightarrow> nat pool_system" where
  "raced q = (pool_system_new 0 1 1)\<lparr>tp_queue := q, tp_count := 1, ps_workers := [Wk_blocked],
     ps_accepted := [7], ps_dequeued := [7], ps_run := [7]\<rparr>"

lemma raced_reachable: "\<exists>q. pool_step\<^sup>*\<^sup>* (pool_system_new 0 1 1) (raced q)"
proof -
  define s0 :: "nat pool_system" where "s0 = pool_system_new 0 1 1"
  obtain q1 where q1: "tq_push 1 7 (threadsafe_queue_new 0) = Some q1" "tq_repr q1 [7::nat]"
    using tq.push_appends [OF tq_repr_new, of 0 1 7] by (auto simp: threadsafe_queue_new_def)
  obtain q2 where q2: "try_pop q1 = Some (Some 7, q2)" "tq_repr q2 []" using tq.pop_first [OF q1(2)] by auto
  note q3 = tq.pop_none [OF q2(2)]
  define a where "a = s0\<lparr>ps_mtx := By_pusher, ps_pusher := Pu_locked 7\<rparr>"
  define b where "b = a\<lparr>ps_pusher := Pu_pass 7\<rparr>"
  define c where "c = b\<lparr>tp_queue := q1, ps_accepted := [7], ps_pusher := Pu_queued\<rparr>"
  define d where "d = goto 0 (Wk_task 7) ((popped 7 q2 c)\<lparr>tp_count := 0\<rparr>)"
  define e where "e = d\<lparr>tp_count := 1, ps_pusher := Pu_none, ps_mtx := Free\<rparr>"
  note defs = a_def b_def c_def d_def e_def s0_def pool_system_new_simps at_def goto_def popped_def
  have "pool_step s0 a" unfolding a_def by (rule push_lock) (simp add: defs)
  moreover have "pool_step\<^sup>*\<^sup>* a b"
  proof -
    have 1: "pool_step a (a\<lparr>ps_pusher := Pu_room 7\<rparr>)" by (rule push_room) (simp_all add: defs)
    have 2: "pool_step (a\<lparr>ps_pusher := Pu_room 7\<rparr>) (a\<lparr>ps_pusher := Pu_live 7\<rparr>)"
      using push_not_stopped [of "a\<lparr>ps_pusher := Pu_room 7\<rparr>" 7] by (simp add: defs)
    have 3: "pool_step (a\<lparr>ps_pusher := Pu_live 7\<rparr>) b"
      using push_not_done [of "a\<lparr>ps_pusher := Pu_live 7\<rparr>" 7] by (simp add: defs)
    from 1 2 3 show ?thesis by (meson converse_rtranclp_into_rtranclp rtranclp.rtrancl_refl)
  qed
  moreover have "pool_step b c"
    using push_queue [of b 7 1 q1] q1(1) by (simp add: defs threadsafe_queue_new_def)
  moreover have "pool_step\<^sup>*\<^sup>* c d"
  proof -
    let ?p = "popped 7 q2 c"
    have 1: "pool_step c (goto 0 (Wk_got 7) ?p)" using q2(1) by (intro work_pop) (simp_all add: defs)
    have 2: "pool_step (goto 0 (Wk_got 7) ?p) (goto 0 (Wk_zero 7) (?p\<lparr>tp_count := -1\<rparr>))"
      using work_sub [of "goto 0 (Wk_got 7) ?p" 0 7] by (simp add: defs)
    have 3: "pool_step (goto 0 (Wk_zero 7) (?p\<lparr>tp_count := -1\<rparr>)) d"
      using work_zero [of "goto 0 (Wk_zero 7) (?p\<lparr>tp_count := -1\<rparr>)" 0 7] by (simp add: defs)
    from 1 2 3 show ?thesis by (meson converse_rtranclp_into_rtranclp rtranclp.rtrancl_refl)
  qed
  moreover have "pool_step d e" using push_count [of d] by (simp add: defs)
  moreover have "pool_step\<^sup>*\<^sup>* e (raced q2)"
  proof -
    let ?r = "e\<lparr>ps_run := [7]\<rparr>"
    have 1: "pool_step e (goto 0 Wk_flag ?r)" using work_run [of e 0 7] by (simp add: defs)
    have 2: "pool_step (goto 0 Wk_flag ?r) (goto 0 Wk_try ?r)"
      using work_flag_clear [of "goto 0 Wk_flag ?r" 0] by (simp add: defs)
    have 3: "pool_step (goto 0 Wk_try ?r) (goto 0 Wk_lock ?r)"
      using work_none [of "goto 0 Wk_try ?r" 0 q2] q3 by (simp add: defs)
    have 4: "pool_step (goto 0 Wk_lock ?r) (goto 0 Wk_pred (?r\<lparr>ps_mtx := By_worker 0\<rparr>))"
      using work_lock [of "goto 0 Wk_lock ?r" 0] by (simp add: defs)
    have 5: "pool_step (goto 0 Wk_pred (?r\<lparr>ps_mtx := By_worker 0\<rparr>)) (goto 0 Wk_pred2 (?r\<lparr>ps_mtx := By_worker 0\<rparr>))"
      using work_pred_none [of "goto 0 Wk_pred (?r\<lparr>ps_mtx := By_worker 0\<rparr>)" 0 q2] q3 by (simp add: defs)
    have 6: "pool_step (goto 0 Wk_pred2 (?r\<lparr>ps_mtx := By_worker 0\<rparr>)) (raced q2)"
      using work_block [of "goto 0 Wk_pred2 (?r\<lparr>ps_mtx := By_worker 0\<rparr>)" 0]
      by (simp add: defs raced_def) (simp add: pool_system_new_def thread_pool_new_def thread_pool.extend_def)
    from 1 2 3 4 5 6 show ?thesis by (meson converse_rtranclp_into_rtranclp rtranclp.rtrancl_refl)
  qed
  ultimately have "pool_step\<^sup>*\<^sup>* s0 (raced q2)"
    by (meson converse_rtranclp_into_rtranclp rtranclp_trans)
  then show ?thesis by (auto simp: s0_def)
qed

lemma pool_queue_empty: "tasks_ok s \<Longrightarrow> ps_accepted s = ps_dequeued s \<Longrightarrow> tq_repr (tp_queue s) []"
  by (auto simp: tasks_ok_def)

lemma sum_inflight_exited: "(\<forall>w \<in> set ws. w = Wk_exit) \<Longrightarrow> sum_list (map inflight ws) = {#}"
  by (induction ws) auto

section \<open>Properties\<close>

text \<open>Calls that do not overlap: \<open>try_push\<close> accepts a task exactly when the queue is below its
  limit and the pool is neither stopped nor done, and then appends it; \<open>push\<close> waits exactly when the
  queue is full and throws exactly when the pool is stopped or done; \<open>pop_task\<close> takes the oldest task;
  \<open>clear_queue\<close> returns, having discarded every task in order and with a counter of zero. The counter
  always equals the number of queued tasks, which never exceeds the limit.\<close>

theorem pool_operations_correct:
  assumes "pool_repr tp ts" and "tq_heap (tp_queue tp) p = None"
  shows "(if length ts < unat (tp_max tp) \<and> \<not> tp_stopped tp \<and> \<not> tp_done tp
          then \<exists>tp'. try_push p t tp = Some (True, tp') \<and> push_task p t tp = Some (Pushed tp') \<and>
                 pool_repr tp' (ts @ [t])
          else try_push p t tp = Some (False, tp) \<and>
               push_task p t tp = Some (if tp_stopped tp \<or> tp_done tp then Throws else Waits)) \<and>
    (case ts of [] \<Rightarrow> pop_task tp = Some (None, tp)
     | u # us \<Rightarrow> \<exists>tp'. pop_task tp = Some (Some u, tp') \<and> pool_repr tp' us) \<and>
    (\<exists>tp'. clear_queue tp = Some (ts, tp') \<and> tq_repr (tp_queue tp') [] \<and> tp_count tp' = 0)"
proof (intro conjI)
  have full: "tp_count tp \<ge> tp_max tp \<longleftrightarrow> \<not> length ts < unat (tp_max tp)"
    using pool_repr_full [OF assms(1)] assms(1) by (auto simp: pool_repr_def)
  then show "if length ts < unat (tp_max tp) \<and> \<not> tp_stopped tp \<and> \<not> tp_done tp
    then \<exists>tp'. try_push p t tp = Some (True, tp') \<and> push_task p t tp = Some (Pushed tp') \<and> pool_repr tp' (ts @ [t])
    else try_push p t tp = Some (False, tp) \<and>
      push_task p t tp = Some (if tp_stopped tp \<or> tp_done tp then Throws else Waits)"
    using enqueue_repr [OF assms(1) _ assms(2), of t]
    by (auto simp: try_push_def push_task_def not_less [symmetric])
  have q: "tq_repr (tp_queue tp) ts" using assms(1) by (simp add: pool_repr_def)
  then show "case ts of [] \<Rightarrow> pop_task tp = Some (None, tp)
     | u # us \<Rightarrow> \<exists>tp'. pop_task tp = Some (Some u, tp') \<and> pool_repr tp' us"
    using tq.pop_none [of "tp_queue tp"] tq.pop_first [of "tp_queue tp"] dequeue_repr [of tp] assms(1)
    by (fastforce simp: pop_task_def split: list.split)
  show "\<exists>tp'. clear_queue tp = Some (ts, tp') \<and> tq_repr (tp_queue tp') [] \<and> tp_count tp' = 0"
    using clear_queue_ok [OF q] assms(1) by blast
qed

theorem pool_operations_correct_witness:
  "pool_repr (thread_pool_new 0 4 2) ([] :: nat list) \<and>
   (\<exists>tp'. try_push 1 (9::nat) (thread_pool_new 0 4 2) = Some (True, tp') \<and> pool_repr tp' [9])"
  using pool_operations_correct [OF pool_repr_new, of 0 4 2 1 "9::nat"] pool_repr_new [of 0 4 2, where ?'a = nat]
  by (auto simp: thread_pool_new_def threadsafe_queue_new_def)

text \<open>C12. Under every interleaving of workers, pushers, takers and stoppers, every accepted task is at
  each moment in exactly one place (queued, in the hands of one worker, run, or taken out by
  \<open>clear_queue\<close> or \<open>pop_task\<close>), and tasks leave the queue in the order in which they were accepted.\<close>

theorem pool_runs_each_task_once:
  assumes "pool_step\<^sup>*\<^sup>* (pool_system_new p n m) s"
  shows "\<exists>ts. tq_repr (tp_queue s) ts \<and> ps_accepted s = ps_dequeued s @ ts \<and>
    mset (ps_accepted s) = mset ts + all_inflight s + mset (ps_run s) + mset (ps_taken s)"
  using pool_reachable_ok [OF assms] by (auto simp: tasks_ok_def ac_simps)

theorem pool_runs_each_task_once_witness:
  "\<exists>ts. tq_repr (tp_queue (pool_system_new 0 3 8)) (ts :: nat list) \<and>
     ps_accepted (pool_system_new 0 3 8) = ps_dequeued (pool_system_new 0 3 8) @ ts"
  using pool_runs_each_task_once [OF rtranclp.rtrancl_refl, of 0 3 8] by blast



text \<open>The counter is incremented after the insertion and decremented without the mutex, and a
  decrement that finds zero resets it to zero, so an increment can be left over: with one worker and a
  limit of one, a state is reachable in which the queue is empty, the worker is idle and the counter is
  one. From there no push is ever accepted again.\<close>

theorem pool_count_race_starves:
  "\<exists>s :: nat pool_system. pool_step\<^sup>*\<^sup>* (pool_system_new 0 1 1) s \<and> tq_repr (tp_queue s) [] \<and>
     ps_workers s = [Wk_blocked] \<and> ps_mtx s = Free \<and> tp_count s = 1 \<and> \<not> tp_stopped s \<and> \<not> tp_done s \<and>
     (\<forall>s'. pool_step\<^sup>*\<^sup>* s s' \<longrightarrow> ps_accepted s' = ps_accepted s)"
proof -
  obtain q where r: "pool_step\<^sup>*\<^sup>* (pool_system_new 0 1 1) (raced q)" using raced_reachable by blast
  have e: "tq_repr (tp_queue (raced q)) []"
    using pool_reachable_ok [OF r] by (intro pool_queue_empty) (simp_all add: raced_def)
  then have "starved (raced q)" by (simp add: starved_def raced_def pool_system_new_simps)
  with r e starved_forever [of "raced q"] show ?thesis
    by (intro exI [of _ "raced q"]) (simp add: raced_def pool_system_new_simps)
qed

theorem pool_count_race_starves_witness:
  "\<exists>s :: nat pool_system. pool_step\<^sup>*\<^sup>* (pool_system_new 0 1 1) s \<and> ps_workers s = [Wk_blocked] \<and> tp_count s = 1"
  using pool_count_race_starves by blast

end
