(* ===== verification/Server.thy ===== *)
theory Server
  imports Http_Conn Http_Cache Http_Proxy Connect_Tunnel Timer Ip_Filter Thread_Pool
begin

text \<open>
  \<^verbatim>\<open>src/hpserver.h\<close> and \<^verbatim>\<open>.cpp\<close>: the reactor that accepts clients, reads their requests, hands them to the proxy
  and tunnel pools and sends back what the workers report. A state is the connection timer together with the rest of
  the program, whose last field is the state of the kernel. The three vectors indexed by descriptor are resized
  together; they are functions with the common size \<open>sv_size\<close>. Logging is left out.
\<close>

section \<open>Configuration\<close>

definition MAX_FD :: int where "MAX_FD = 65536"
definition MAX_EVENTS :: int where "MAX_EVENTS = 1024"
definition DEFAULT_PORT :: int where "DEFAULT_PORT = 8080"

unbundle bit_operations_syntax

definition kClientEvents :: u32 where "kClientEvents = EPOLLIN OR EPOLLET OR EPOLLRDHUP"
definition kClientIdleTimeoutMs :: int where "kClientIdleTimeoutMs = 15000"
definition kFallbackProxyWorkers :: u32 where "kFallbackProxyWorkers = 8"
definition kFallbackTunnelWorkers :: u32 where "kFallbackTunnelWorkers = 64"
definition kTasksPerProxyWorker :: u64 where "kTasksPerProxyWorker = 512"
definition kTasksPerTunnelWorker :: u64 where "kTasksPerTunnelWorker = 128"
definition kCacheDbPath :: string where "kCacheDbPath = ''/tmp/testdb''"

text \<open>\<open>hw\<close> is what \<^verbatim>\<open>std::thread::hardware_concurrency\<close> returns.\<close>

definition default_proxy_worker_count :: "u32 \<Rightarrow> u32" where
  "default_proxy_worker_count hw = (if hw = 0 then kFallbackProxyWorkers else max 2 hw)"

definition default_tunnel_worker_count :: "u32 \<Rightarrow> u32" where
  "default_tunnel_worker_count hw = (if hw = 0 then kFallbackTunnelWorkers else max 32 (hw * 8))"

definition normalize_proxy_workers :: "u32 \<Rightarrow> u32 \<Rightarrow> u32" where
  "normalize_proxy_workers hw configured = (if configured = 0 then default_proxy_worker_count hw else configured)"

definition normalize_tunnel_workers :: "u32 \<Rightarrow> u32 \<Rightarrow> u32" where
  "normalize_tunnel_workers hw configured = (if configured = 0 then default_tunnel_worker_count hw else configured)"

definition normalize_proxy_queue_size :: "u64 \<Rightarrow> u32 \<Rightarrow> u64" where
  "normalize_proxy_queue_size configured proxy_workers =
     (if configured = 0 then ucast proxy_workers * kTasksPerProxyWorker else configured)"

definition normalize_tunnel_queue_size :: "u64 \<Rightarrow> u32 \<Rightarrow> u64" where
  "normalize_tunnel_queue_size configured tunnel_workers =
     (if configured = 0 then ucast tunnel_workers * kTasksPerTunnelWorker else configured)"

definition is_expected_connect_shutdown_errno :: "errno \<Rightarrow> bool" where
  "is_expected_connect_shutdown_errno err \<longleftrightarrow> err = ECONNRESET \<or> err = EPIPE \<or> err = ENOTCONN \<or> err = ECONNABORTED"

section \<open>State\<close>

record proxy_done_event =
  ev_client_fd :: fd
  ev_ok :: bool
  ev_response :: string
  ev_close_after_done :: bool
  ev_is_connect :: bool
  ev_err :: errno

type_synonym proxy_task = "fd \<times> request_info"

record ('d, 'k) world =
  sv_port :: int
  sv_server_socket :: socket_ops
  sv_poller :: poller
  sv_size :: int
  sv_connections :: "fd \<Rightarrow> http_conn option"
  sv_proxy_pool :: "proxy_task thread_pool"
  sv_tunnel_pool :: "proxy_task thread_pool"
  sv_done :: "proxy_done_event threadsafe_queue"
  sv_inflight :: "fd \<Rightarrow> bool"
  sv_close_after_flush :: "fd \<Rightarrow> bool"
  sv_event_fd :: fd
  sv_cache :: "'d http_cache"
  sv_ip_filter :: ip_filter
  sv_k :: 'k

text \<open>The callback of a client timer captures the descriptor, so a callback is a descriptor.\<close>

type_synonym ('d, 'k) server = "fd timer \<times> ('d, 'k) world"

text \<open>The system calls that only the server makes, beside those of the proxy: \<open>ss_accept\<close> gives the descriptor and the
  address of the peer, \<open>ss_read_event\<close> says whether a read of the event counter returned data, \<open>ss_malloc\<close> gives the
  address of a new queue node when the nodes at the given addresses are allocated.\<close>

record ('a, 'k) server_sys =
  ss_io :: "('a, 'k) sys"
  ss_accept :: "fd \<Rightarrow> 'k \<Rightarrow> (errno + fd \<times> u32) \<times> 'k"
  ss_get_flags :: "fd \<Rightarrow> 'k \<Rightarrow> (errno + u32) \<times> 'k"
  ss_set_flags :: "fd \<Rightarrow> u32 \<Rightarrow> 'k \<Rightarrow> (errno + unit) \<times> 'k"
  ss_socket :: "'k \<Rightarrow> (errno + int) \<times> 'k"
  ss_reuse_address :: "fd \<Rightarrow> 'k \<Rightarrow> 'k"
  ss_bind :: "fd \<Rightarrow> int \<Rightarrow> 'k \<Rightarrow> (errno + int) \<times> 'k"
  ss_listen :: "fd \<Rightarrow> 'k \<Rightarrow> (errno + int) \<times> 'k"
  ss_eventfd :: "'k \<Rightarrow> (errno + fd) \<times> 'k"
  ss_read_event :: "fd \<Rightarrow> 'k \<Rightarrow> bool \<times> 'k"
  ss_write_event :: "fd \<Rightarrow> 'k \<Rightarrow> 'k"
  ss_clock :: "'k \<Rightarrow> int \<times> 'k"
  ss_malloc :: "addr set \<Rightarrow> 'k \<Rightarrow> addr"

definition read_clock :: "('a, 'k) server_sys \<Rightarrow> ('d, 'k) world \<Rightarrow> int \<times> ('d, 'k) world" where
  "read_clock sys w = (case ss_clock sys (sv_k w) of (T, k) \<Rightarrow> (T, w\<lparr>sv_k := k\<rparr>))"

text \<open>The guard that most members start with.\<close>

definition client_conn :: "fd \<Rightarrow> ('d, 'k) world \<Rightarrow> http_conn option" where
  "client_conn f w = (if f < 0 \<or> f \<ge> MAX_FD \<or> f \<ge> sv_size w then None else sv_connections w f)"

definition set_conn :: "fd \<Rightarrow> http_conn option \<Rightarrow> ('d, 'k) world \<Rightarrow> ('d, 'k) world" where
  "set_conn f c w = w\<lparr>sv_connections := (sv_connections w)(f := c)\<rparr>"

section \<open>Members\<close>

definition hpserver_new ::
  "u32 \<Rightarrow> addr \<times> addr \<times> addr \<Rightarrow> int \<Rightarrow> u32 \<Rightarrow> u32 \<Rightarrow> u64 \<Rightarrow> u64 \<Rightarrow> poller \<Rightarrow> 'k \<Rightarrow> ('d, 'k) server" where
  "hpserver_new hw addrs port proxy_workers tunnel_workers proxy_queue_size tunnel_queue_size po k =
     (let pw = normalize_proxy_workers hw proxy_workers;
          tw = normalize_tunnel_workers hw tunnel_workers;
          pq = normalize_proxy_queue_size proxy_queue_size pw;
          tq = normalize_tunnel_queue_size tunnel_queue_size tw
      in case addrs of (a, b, c) \<Rightarrow>
         (timer_new,
          \<lparr>sv_port = port, sv_server_socket = socket_ops_new, sv_poller = po, sv_size = 0, sv_connections = (\<lambda>_. None),
           sv_proxy_pool = thread_pool_new a (unat pw) pq, sv_tunnel_pool = thread_pool_new b (unat tw) tq,
           sv_done = threadsafe_queue_new c, sv_inflight = (\<lambda>_. False), sv_close_after_flush = (\<lambda>_. False),
           sv_event_fd = -1, sv_cache = http_cache_new, sv_ip_filter = ip_filter_new 1024, sv_k = k\<rparr>))"

definition O_NONBLOCK :: u32 where "O_NONBLOCK = 0x800"

definition set_nonblocking :: "('a, 'k) server_sys \<Rightarrow> fd \<Rightarrow> 'k \<Rightarrow> bool \<times> 'k" where
  "set_nonblocking sys f k =
     (case ss_get_flags sys f k of
        (Inl e, k1) \<Rightarrow> (False, k1)
      | (Inr flags, k1) \<Rightarrow>
          (case ss_set_flags sys f (flags OR O_NONBLOCK) k1 of (Inl e, k2) \<Rightarrow> (False, k2) | (Inr _, k2) \<Rightarrow> (True, k2)))"

text \<open>\<^verbatim>\<open>reset\<close> of a connection closes the descriptor its socket owns.\<close>

definition destroy_conn :: "('a, 'k) server_sys \<Rightarrow> http_conn option \<Rightarrow> 'k \<Rightarrow> 'k" where
  "destroy_conn sys conn k =
     (case conn of None \<Rightarrow> k
      | Some c \<Rightarrow> fold (sys_close (ss_io sys)) (socket_destroy (ci_sock (hc_io c)) []) k)"

definition close_client :: "('a, 'k) server_sys \<Rightarrow> fd \<Rightarrow> ('d, 'k) server \<Rightarrow> ('d, 'k) server" where
  "close_client sys f s =
     (let t1 = Timer.remove f (fst s); w = snd s;
          w1 = (if f \<ge> 0 \<and> f < sv_size w then w\<lparr>sv_inflight := (sv_inflight w)(f := False)\<rparr> else w);
          w2 = (if f \<ge> 0 \<and> f < sv_size w1 then w1\<lparr>sv_close_after_flush := (sv_close_after_flush w1)(f := False)\<rparr> else w1);
          w3 = w2\<lparr>sv_k := snd (poller_remove (sys_epoll_ctl (ss_io sys)) f (sv_poller w2) (sv_k w2))\<rparr>
      in (t1, if f \<ge> 0 \<and> f < sv_size w3
              then (set_conn f None w3)\<lparr>sv_k := destroy_conn sys (sv_connections w3 f) (sv_k w3)\<rparr> else w3))"

text \<open>The lambda given to the timer.\<close>

definition on_client_timeout :: "('a, 'k) server_sys \<Rightarrow> fd \<Rightarrow> ('d, 'k) server \<Rightarrow> ('d, 'k) server" where
  "on_client_timeout sys f s = (if client_conn f (snd s) = None then s else close_client sys f s)"

definition refresh_client_timeout :: "('a, 'k) server_sys \<Rightarrow> fd \<Rightarrow> ('d, 'k) server \<Rightarrow> ('d, 'k) server" where
  "refresh_client_timeout sys f s =
     (if client_conn f (snd s) = None then s
      else case read_clock sys (snd s) of (T, w) \<Rightarrow>
        (if timer_contains f (fst s) then Timer.adjust T f kClientIdleTimeoutMs (fst s)
         else Timer.add T f kClientIdleTimeoutMs (Some f) (fst s), w))"

definition notify_reactor :: "('a, 'k) server_sys \<Rightarrow> ('d, 'k) world \<Rightarrow> ('d, 'k) world" where
  "notify_reactor sys w = (if sv_event_fd w \<noteq> -1 then w\<lparr>sv_k := ss_write_event sys (sv_event_fd w) (sv_k w)\<rparr> else w)"

definition live_nodes :: "('d, 'k) world \<Rightarrow> addr set" where
  "live_nodes w = dom (tq_heap (tp_queue (sv_proxy_pool w))) \<union> dom (tq_heap (tp_queue (sv_tunnel_pool w))) \<union> dom (tq_heap (sv_done w))"

definition fresh_node :: "('a, 'k) server_sys \<Rightarrow> ('d, 'k) world \<Rightarrow> addr" where
  "fresh_node sys w = ss_malloc sys (live_nodes w) (sv_k w)"

text \<open>Pushing an event and writing to the event descriptor.\<close>

definition push_done :: "('a, 'k) server_sys \<Rightarrow> proxy_done_event \<Rightarrow> ('d, 'k) world \<Rightarrow> ('d, 'k) world option" where
  "push_done sys ev w = do { q \<leftarrow> tq_push (fresh_node sys w) ev (sv_done w); Some (notify_reactor sys (w\<lparr>sv_done := q\<rparr>)) }"

text \<open>The pool for a request: tunnels have their own.\<close>

definition pool_of :: "bool \<Rightarrow> ('d, 'k) world \<Rightarrow> proxy_task thread_pool" where
  "pool_of connect w = (if connect then sv_tunnel_pool w else sv_proxy_pool w)"

definition set_pool :: "bool \<Rightarrow> proxy_task thread_pool \<Rightarrow> ('d, 'k) world \<Rightarrow> ('d, 'k) world" where
  "set_pool connect tp w = (if connect then w\<lparr>sv_tunnel_pool := tp\<rparr> else w\<lparr>sv_proxy_pool := tp\<rparr>)"

text \<open>The event of a request whose pool has no room.\<close>

definition refusal :: "fd \<Rightarrow> request_info \<Rightarrow> proxy_done_event" where
  "refusal f req = \<lparr>ev_client_fd = f, ev_ok = False, ev_response = [], ev_close_after_done = True,
     ev_is_connect = ri_is_connect req, ev_err = EAGAIN\<rparr>"

definition submit_proxy_job ::
  "('a, 'k) server_sys \<Rightarrow> fd \<Rightarrow> request_info \<Rightarrow> ('d, 'k) world \<Rightarrow> (bool \<times> ('d, 'k) world) option" where
  "submit_proxy_job sys f req w =
     do {
       (ok, pool) \<leftarrow> try_push (fresh_node sys w) (f, req) (pool_of (ri_is_connect req) w);
       let w1 = set_pool (ri_is_connect req) pool w;
       (if \<not> ok then map_option (Pair False) (push_done sys (refusal f req) w1) else Some (True, w1))
     }"

text \<open>The body of a job, up to the event it reports.\<close>

definition proxy_task_event ::
  "llhttp_execute \<Rightarrow> nat \<Rightarrow> ('a, 'k) sys \<Rightarrow> proxy_task \<Rightarrow> 'k ps \<Rightarrow> (proxy_done_event \<times> 'k ps) option" where
  "proxy_task_event execute start sys task s =
     (case task of (f, req) \<Rightarrow>
        do {
          (ok, resp, err, s1) \<leftarrow>
            (if ri_is_connect req
             then map_option (\<lambda>(ok, err, s1). (ok, [], err, s1)) (forward_connect_tunnel sys f req s)
             else forward_request execute start sys req s);
          Some (\<lparr>ev_client_fd = f, ev_ok = ok, ev_response = resp, ev_close_after_done = True,
                  ev_is_connect = ri_is_connect req, ev_err = (if \<not> ok \<and> err = 0 then EIO else err)\<rparr>, s1)
        })"

text \<open>A worker takes a task, if there is one; later it runs it and reports. \<open>e0\<close> is the error number its thread has.\<close>

definition take_task :: "bool \<Rightarrow> ('d, 'k) world \<Rightarrow> (proxy_task option \<times> ('d, 'k) world) option" where
  "take_task connect w = do { (task, pool) \<leftarrow> pop_task (pool_of connect w); Some (task, set_pool connect pool w) }"

definition finish_task ::
  "llhttp_execute \<Rightarrow> nat \<Rightarrow> ('a, 'k) server_sys \<Rightarrow> errno \<Rightarrow> proxy_task \<Rightarrow> ('d, 'k) world \<Rightarrow> ('d, 'k) world option" where
  "finish_task execute start sys e0 task w =
     do {
       (ev, s) \<leftarrow> proxy_task_event execute start (ss_io sys) task (Ps e0 (sv_k w));
       push_done sys ev (w\<lparr>sv_k := ps_k s\<rparr>)
     }"

definition modify_client :: "('a, 'k) server_sys \<Rightarrow> fd \<Rightarrow> u32 \<Rightarrow> ('d, 'k) world \<Rightarrow> bool \<times> ('d, 'k) world" where
  "modify_client sys f events w =
     (case poller_modify (sys_epoll_ctl (ss_io sys)) f events (sv_poller w) (sv_k w) of
        (Inl e, k) \<Rightarrow> (False, w\<lparr>sv_k := k\<rparr>) | (Inr _, k) \<Rightarrow> (True, w\<lparr>sv_k := k\<rparr>))"

text \<open>\<^verbatim>\<open>flush_client_output\<close>: true stands for the result 0, false for -1.\<close>

partial_function (option) flush_conn_loop ::
  "('a, 'k) server_sys \<Rightarrow> fd \<Rightarrow> http_conn \<Rightarrow> ('d, 'k) world \<Rightarrow> (bool \<times> ('d, 'k) world) option" where
  "flush_conn_loop sys f conn w =
     (if conn_has_pending_write conn then
        do {
          (r, conn', k) \<leftarrow> conn_flush_to_socket (sys_send (ss_io sys)) conn (sv_k w);
          let w' = (set_conn f (Some conn') w)\<lparr>sv_k := k\<rparr>;
          (case r of
             Inr n \<Rightarrow>
               if n > 0 then flush_conn_loop sys f conn' w'
               else if n = 0 \<and> conn_has_pending_write conn' then Some (modify_client sys f (kClientEvents OR EPOLLOUT) w')
               else Some (False, w')
           | Inl e \<Rightarrow>
               if e = EAGAIN \<or> e = EWOULDBLOCK then Some (modify_client sys f (kClientEvents OR EPOLLOUT) w')
               else Some (False, w'))
        }
      else Some (modify_client sys f kClientEvents w))"

definition flush_client_output :: "('a, 'k) server_sys \<Rightarrow> fd \<Rightarrow> ('d, 'k) world \<Rightarrow> (bool \<times> ('d, 'k) world) option" where
  "flush_client_output sys f w =
     (case client_conn f w of None \<Rightarrow> Some (False, w) | Some conn \<Rightarrow> flush_conn_loop sys f conn w)"

text \<open>\<^verbatim>\<open>handle_client\<close>: true stands for the result 0, false for -1.\<close>

definition handle_client ::
  "llhttp_execute \<Rightarrow> nat \<Rightarrow> ('a, 'k) server_sys \<Rightarrow> fd \<Rightarrow> ('d, 'k) world \<Rightarrow> (bool \<times> ('d, 'k) world) option" where
  "handle_client execute start sys f w =
     (case client_conn f w of
        None \<Rightarrow> Some (False, w)
      | Some conn \<Rightarrow>
          if f < sv_size w \<and> sv_inflight w f then Some (True, w)
          else do {
            (r, conn1, k) \<leftarrow> conn_read_from_socket (sys_recv (ss_io sys)) conn (sv_k w);
            let w1 = (set_conn f (Some conn1) w)\<lparr>sv_k := k\<rparr>;
            (case r of
               Inl e \<Rightarrow> Some (e = EAGAIN \<or> e = EWOULDBLOCK, w1)
             | Inr _ \<Rightarrow>
                 do {
                   (ok, conn2) \<leftarrow> parse_available_data execute conn1;
                   let w2 = set_conn f (Some conn2) w1;
                   (if \<not> ok then Some (False, w2)
                    else if \<not> is_message_complete (hc_parser conn2) then Some (True, w2)
                    else do {
                      let req = rp_request (hc_parser conn2);
                      let w3 = set_conn f (Some (conn_reset_for_next_message start conn2)) w2;
                      (_, w4) \<leftarrow> submit_proxy_job sys f req (w3\<lparr>sv_inflight := (sv_inflight w3)(f := True)\<rparr>);
                      Some (True, w4)
                    })
                 })
          })"

text \<open>The end of a delivery: close now, or when the rest has been written.\<close>

definition close_when_flushed :: "('a, 'k) server_sys \<Rightarrow> fd \<Rightarrow> ('d, 'k) server \<Rightarrow> ('d, 'k) server" where
  "close_when_flushed sys f s =
     (case client_conn f (snd s) of
        Some conn \<Rightarrow>
          if conn_has_pending_write conn
          then (fst s, (snd s)\<lparr>sv_close_after_flush := (sv_close_after_flush (snd s))(f := True)\<rparr>)
          else close_client sys f s
      | None \<Rightarrow> s)"

text \<open>The body of the loop over the finished jobs.\<close>

definition handle_done_event ::
  "(errno \<Rightarrow> string) \<Rightarrow> ('a, 'k) server_sys \<Rightarrow> proxy_done_event \<Rightarrow> ('d, 'k) server \<Rightarrow> ('d, 'k) server option" where
  "handle_done_event strerror sys ev s =
     (let f = ev_client_fd ev
      in case client_conn f (snd s) of
           None \<Rightarrow> Some s
         | Some conn \<Rightarrow>
             let w1 = (snd s)\<lparr>sv_inflight := (sv_inflight (snd s))(f := False)\<rparr>
             in if \<not> ev_ok ev \<and> ev_is_connect ev \<and> is_expected_connect_shutdown_errno (ev_err ev)
                then Some (close_client sys f (fst s, w1))
                else do {
                  let reply = (if ev_ok ev then ev_response ev else build_service_unavailable_response (strerror (ev_err ev)));
                  (ok, w2) \<leftarrow> flush_client_output sys f (set_conn f (Some (conn_queue_write reply conn)) w1);
                  Some (if \<not> ok then close_client sys f (fst s, w2)
                        else if \<not> ev_ok ev \<or> ev_close_after_done ev then close_when_flushed sys f (fst s, w2)
                        else refresh_client_timeout sys f (fst s, w2))
                })"

partial_function (option) read_event_loop :: "('a, 'k) server_sys \<Rightarrow> fd \<Rightarrow> 'k \<Rightarrow> 'k option" where
  "read_event_loop sys f k = (case ss_read_event sys f k of (again, k') \<Rightarrow> if again then read_event_loop sys f k' else Some k')"

partial_function (option) done_loop ::
  "(errno \<Rightarrow> string) \<Rightarrow> ('a, 'k) server_sys \<Rightarrow> ('d, 'k) server \<Rightarrow> ('d, 'k) server option" where
  "done_loop strerror sys s =
     do {
       (r, q) \<leftarrow> try_pop (sv_done (snd s));
       let s1 = (fst s, (snd s)\<lparr>sv_done := q\<rparr>);
       (case r of
          None \<Rightarrow> Some s1
        | Some ev \<Rightarrow> do { s2 \<leftarrow> handle_done_event strerror sys ev s1; done_loop strerror sys s2 })
     }"

definition drain_proxy_done_events ::
  "(errno \<Rightarrow> string) \<Rightarrow> ('a, 'k) server_sys \<Rightarrow> ('d, 'k) server \<Rightarrow> ('d, 'k) server option" where
  "drain_proxy_done_events strerror sys s =
     do {
       k \<leftarrow> (if sv_event_fd (snd s) \<noteq> -1 then read_event_loop sys (sv_event_fd (snd s)) (sv_k (snd s)) else Some (sv_k (snd s)));
       done_loop strerror sys (fst s, (snd s)\<lparr>sv_k := k\<rparr>)
     }"

section \<open>Accepting\<close>

partial_function (option) reject_loop :: "('a, 'k) server_sys \<Rightarrow> fd \<Rightarrow> string \<Rightarrow> 'k \<Rightarrow> 'k option" where
  "reject_loop sys f data k =
     (if data \<noteq> [] then
        (case sys_send (ss_io sys) f data k of
           (Sent n, k') \<Rightarrow> if n > 0 then reject_loop sys f (drop n data) k' else Some k'
         | (Send_failed e, k') \<Rightarrow> if e = EINTR then reject_loop sys f data k' else Some k')
      else Some k)"

definition reject_blacklisted_client :: "('a, 'k) server_sys \<Rightarrow> fd \<Rightarrow> 'k \<Rightarrow> 'k option" where
  "reject_blacklisted_client sys f k =
     map_option (sys_close (ss_io sys) f) (reject_loop sys f (build_forbidden_response ''client ip is blocked'') k)"

text \<open>A connection that is replaced is destroyed.\<close>

definition install_client :: "nat \<Rightarrow> ('a, 'k) server_sys \<Rightarrow> fd \<Rightarrow> ('d, 'k) server \<Rightarrow> ('d, 'k) server" where
  "install_client start sys f s =
     (let w = snd s; w1 = (set_conn f (Some (http_conn_new start f)) w)\<lparr>sv_k := destroy_conn sys (sv_connections w f) (sv_k w)\<rparr>
      in refresh_client_timeout sys f (fst s, w1))"

definition accept_client ::
  "nat \<Rightarrow> ('a, 'k) server_sys \<Rightarrow> fd \<Rightarrow> u32 \<Rightarrow> ('d, 'k) server \<Rightarrow> ('d, 'k) server option" where
  "accept_client start sys f client_ip s =
     (let t = fst s; w = snd s
      in if is_blocked client_ip (sv_ip_filter w)
         then map_option (\<lambda>k. (t, w\<lparr>sv_k := k\<rparr>)) (reject_blacklisted_client sys f (sv_k w))
         else case set_nonblocking sys f (sv_k w) of (nb, k1) \<Rightarrow>
           (case (if nb then poller_add (sys_epoll_ctl (ss_io sys)) f kClientEvents (sv_poller w) k1 else (Inl 0, k1)) of
              (Inl e, k2) \<Rightarrow> Some (t, w\<lparr>sv_k := sys_close (ss_io sys) f k2\<rparr>)
            | (Inr _, k2) \<Rightarrow>
                if f < 0 \<or> f \<ge> MAX_FD then Some (t, w\<lparr>sv_k := sys_close (ss_io sys) f k2\<rparr>)
                else Some (install_client start sys f (t, w\<lparr>sv_k := k2\<rparr>))))"

partial_function (option) accept_loop :: "nat \<Rightarrow> ('a, 'k) server_sys \<Rightarrow> ('d, 'k) server \<Rightarrow> ('d, 'k) server option" where
  "accept_loop start sys s =
     (case ss_accept sys (so_fd (sv_server_socket (snd s))) (sv_k (snd s)) of
        (Inl e, k) \<Rightarrow>
          if e = EINTR then accept_loop start sys (fst s, (snd s)\<lparr>sv_k := k\<rparr>) else Some (fst s, (snd s)\<lparr>sv_k := k\<rparr>)
      | (Inr peer, k) \<Rightarrow>
          do {
            s1 \<leftarrow> accept_client start sys (fst peer) (snd peer) (fst s, (snd s)\<lparr>sv_k := k\<rparr>);
            accept_loop start sys s1
          })"

section \<open>The event loop\<close>

text \<open>The two halves of a client event; the boolean is false when the event is finished with.\<close>

definition client_writable :: "('a, 'k) server_sys \<Rightarrow> fd \<Rightarrow> ('d, 'k) server \<Rightarrow> (bool \<times> ('d, 'k) server) option" where
  "client_writable sys f s =
     do {
       (ok, w) \<leftarrow> flush_client_output sys f (snd s);
       (if \<not> ok then Some (False, close_client sys f (fst s, w))
        else if f \<ge> 0 \<and> f < sv_size w \<and> sv_close_after_flush w f \<and>
                (case client_conn f w of None \<Rightarrow> True | Some c \<Rightarrow> \<not> conn_has_pending_write c)
        then Some (False, close_client sys f (fst s, w))
        else Some (True, fst s, w))
     }"

definition client_readable ::
  "llhttp_execute \<Rightarrow> nat \<Rightarrow> ('a, 'k) server_sys \<Rightarrow> fd \<Rightarrow> ('d, 'k) server \<Rightarrow> ('d, 'k) server option" where
  "client_readable execute start sys f s =
     do {
       (ok, w) \<leftarrow> handle_client execute start sys f (snd s);
       Some (if ok then (fst s, w) else close_client sys f (fst s, w))
     }"

definition handle_client_event ::
  "llhttp_execute \<Rightarrow> nat \<Rightarrow> ('a, 'k) server_sys \<Rightarrow> fd \<Rightarrow> u32 \<Rightarrow> ('d, 'k) server \<Rightarrow> ('d, 'k) server option" where
  "handle_client_event execute start sys f ev s =
     (if ev AND (EPOLLERR OR EPOLLHUP OR EPOLLRDHUP) \<noteq> 0 then Some (close_client sys f s)
      else do {
        let s1 = (if ev AND (EPOLLIN OR EPOLLOUT) \<noteq> 0 then refresh_client_timeout sys f s else s);
        (continues, s2) \<leftarrow> (if ev AND EPOLLOUT \<noteq> 0 then client_writable sys f s1 else Some (True, s1));
        (if continues \<and> ev AND EPOLLIN \<noteq> 0 then client_readable execute start sys f s2 else Some s2)
      })"

definition handle_event ::
  "llhttp_execute \<Rightarrow> nat \<Rightarrow> (errno \<Rightarrow> string) \<Rightarrow> ('a, 'k) server_sys \<Rightarrow> fd \<times> u32 \<Rightarrow> ('d, 'k) server \<Rightarrow> ('d, 'k) server option" where
  "handle_event execute start strerror sys e s =
     (if fst e = so_fd (sv_server_socket (snd s)) then accept_loop start sys s
      else if fst e = sv_event_fd (snd s) then drain_proxy_done_events strerror sys s
      else handle_client_event execute start sys (fst e) (snd e) s)"

fun handle_events ::
  "llhttp_execute \<Rightarrow> nat \<Rightarrow> (errno \<Rightarrow> string) \<Rightarrow> ('a, 'k) server_sys \<Rightarrow> (fd \<times> u32) list \<Rightarrow> ('d, 'k) server \<Rightarrow> ('d, 'k) server option" where
  "handle_events execute start strerror sys [] s = Some s"
| "handle_events execute start strerror sys (e # es) s =
     do { s1 \<leftarrow> handle_event execute start strerror sys e s; handle_events execute start strerror sys es s1 }"

text \<open>One iteration of the loop of \<^verbatim>\<open>listen\<close>.\<close>

definition server_iteration ::
  "llhttp_execute \<Rightarrow> nat \<Rightarrow> (errno \<Rightarrow> string) \<Rightarrow> ('a, 'k) server_sys \<Rightarrow> ('d, 'k) server \<Rightarrow> ('d, 'k) server option" where
  "server_iteration execute start strerror sys s =
     do {
       (timeout_ms, s1) \<leftarrow> get_next_timeout_ms (read_clock sys) (on_client_timeout sys) s;
       (case poller_wait (sys_epoll_wait (ss_io sys)) True MAX_EVENTS timeout_ms (sv_poller (snd s1)) (sv_k (snd s1)) of
          (Inl e, k) \<Rightarrow> Some (fst s1, (snd s1)\<lparr>sv_k := k\<rparr>)
        | (Inr evs, k) \<Rightarrow>
            do {
              s2 \<leftarrow> handle_events execute start strerror sys evs (fst s1, (snd s1)\<lparr>sv_k := k\<rparr>);
              tick (read_clock sys) (on_client_timeout sys) s2
            })
     }"

section \<open>Start-up\<close>

definition blacklist_path :: string where "blacklist_path = ''/config/blocked_ips.txt''"

text \<open>\<open>None\<close> is the uncaught exception of a malformed blacklist; \<open>read_file\<close> gives the contents of a file that can be opened.\<close>

definition server_init ::
  "('a, 'k) server_sys \<Rightarrow> (string \<Rightarrow> string option) \<Rightarrow> ('d, 'k) world \<Rightarrow> ('d, 'k) world option" where
  "server_init sys read_file w =
     do {
       flt \<leftarrow> (case ip_filter_init read_file blacklist_path (sv_ip_filter w) of Inl e \<Rightarrow> None | Inr flt \<Rightarrow> Some flt);
       let (r, k) = ss_socket sys (sv_k w);
       let sock = fst (socket_open r);
       Some (w\<lparr>sv_ip_filter := flt, sv_size := MAX_FD, sv_inflight := (\<lambda>_. False), sv_close_after_flush := (\<lambda>_. False),
               sv_server_socket := sock, sv_k := ss_reuse_address sys (so_fd sock) k\<rparr>)
     }"

definition init_cache_db :: "(string \<Rightarrow> 'd option) \<Rightarrow> ('d, 'k) world \<Rightarrow> bool \<times> ('d, 'k) world" where
  "init_cache_db open_db w = (case cache_open open_db kCacheDbPath (sv_cache w) of (ok, c) \<Rightarrow> (ok, w\<lparr>sv_cache := c\<rparr>))"

definition init_proxy_async :: "('a, 'k) server_sys \<Rightarrow> ('d, 'k) world \<Rightarrow> bool \<times> ('d, 'k) world" where
  "init_proxy_async sys w =
     (case ss_eventfd sys (sv_k w) of
        (Inl e, k) \<Rightarrow> (False, w\<lparr>sv_event_fd := -1, sv_k := k\<rparr>)
      | (Inr f, k) \<Rightarrow>
          (case poller_add (sys_epoll_ctl (ss_io sys)) f (EPOLLIN OR EPOLLET) (sv_poller w) k of
             (Inl e, k2) \<Rightarrow> (False, w\<lparr>sv_event_fd := -1, sv_k := sys_close (ss_io sys) f k2\<rparr>)
           | (Inr _, k2) \<Rightarrow> (True, w\<lparr>sv_event_fd := f, sv_k := k2\<rparr>)))"

text \<open>\<^verbatim>\<open>listen\<close> up to its loop: the boolean is false when it returns -1.\<close>

definition listen_setup ::
  "('a, 'k) server_sys \<Rightarrow> (string \<Rightarrow> string option) \<Rightarrow> (string \<Rightarrow> 'd option) \<Rightarrow> ('d, 'k) world \<Rightarrow> (bool \<times> ('d, 'k) world) option" where
  "listen_setup sys read_file open_db w =
     do {
       w1 \<leftarrow> server_init sys read_file w;
       let (ok, w2) = init_cache_db open_db w1;
       (if \<not> ok then Some (False, w2)
        else let f = so_fd (sv_server_socket w2); (nb, k) = set_nonblocking sys f (sv_k w2); w3 = w2\<lparr>sv_k := k\<rparr>
        in if \<not> nb then Some (False, w3)
        else let (b, k) = ss_bind sys f (sv_port w3) (sv_k w3); w4 = w3\<lparr>sv_k := k\<rparr>
        in if fst (socket_bind (\<lambda>_. b) (sv_server_socket w4)) \<noteq> 0 then Some (False, w4)
        else let (l, k) = ss_listen sys f (sv_k w4); w5 = w4\<lparr>sv_k := k\<rparr>
        in if fst (socket_listen (\<lambda>_. l) (sv_server_socket w5)) \<noteq> 0 then Some (False, w5)
        else case poller_add (sys_epoll_ctl (ss_io sys)) f (EPOLLIN OR EPOLLET) (sv_poller w5) (sv_k w5) of
               (Inl e, k) \<Rightarrow> Some (False, w5\<lparr>sv_k := k\<rparr>)
             | (Inr _, k) \<Rightarrow> Some (init_proxy_async sys (w5\<lparr>sv_k := k\<rparr>)))
     }"

text \<open>The destructor, followed by the members that close descriptors.\<close>

definition hpserver_destroy :: "('a, 'k) server_sys \<Rightarrow> ('d, 'k) world \<Rightarrow> ('d, 'k) world" where
  "hpserver_destroy sys w0 =
     (let w = (if sv_event_fd w0 \<noteq> -1
               then w0\<lparr>sv_k := sys_close (ss_io sys) (sv_event_fd w0) (sv_k w0), sv_event_fd := -1\<rparr> else w0);
          k = fold (\<lambda>f. destroy_conn sys (sv_connections w f)) [0..sv_size w - 1] (sv_k w)
      in w\<lparr>sv_k := fold (sys_close (ss_io sys)) (socket_destroy (sv_server_socket w) (poller_destroy (sv_poller w) [])) k\<rparr>)"

end
