(* ===== verification/Server_Invariant.thy ===== *)
theory Server_Invariant
  imports Server
begin

text \<open>
  The bookkeeping invariant of \<^verbatim>\<open>src/hpserver.cpp\<close>, which relates the connection table, its flags and the idle timers, and a
  lemma for every member that it keeps it. The callbacks of the connection timer are shown to meet the contract of a
  timer client.
\<close>

unbundle bit_operations_syntax

section \<open>The invariant\<close>

text \<open>The timer side: a callback belongs to the identifier it is registered for.\<close>

definition timer_ok :: "fd timer \<Rightarrow> bool" where
  "timer_ok t \<longleftrightarrow> timer_wf t \<and> (\<forall>(i, e) \<in> set (ti_entries t). te_callback e = Some i)"

text \<open>The table side: a connection owns the descriptor it is stored under, and only a connection has a request in
  flight or waits for its last bytes to be written.\<close>

definition world_ok :: "('d, 'k) world \<Rightarrow> bool" where
  "world_ok w \<longleftrightarrow> sv_size w = MAX_FD \<and>
     (\<forall>f. sv_inflight w f \<or> sv_close_after_flush w f \<longrightarrow> client_conn f w \<noteq> None) \<and>
     (\<forall>f c. client_conn f w = Some c \<longrightarrow> io_fd (hc_io c) = f)"

text \<open>Together: exactly the connected clients have an idle timer.\<close>

definition server_wf :: "('d, 'k) server \<Rightarrow> bool" where
  "server_wf s \<longleftrightarrow> timer_ok (fst s) \<and> world_ok (snd s) \<and> (\<forall>f. timer_contains f (fst s) \<longleftrightarrow> client_conn f (snd s) \<noteq> None)"

definition same_clients :: "('d, 'k) world \<Rightarrow> ('d, 'k) world \<Rightarrow> bool" where
  "same_clients w w' \<longleftrightarrow> (\<forall>f. client_conn f w = None \<longleftrightarrow> client_conn f w' = None)"

lemma same_clients_refl [simp]: "same_clients w w"
  by (simp add: same_clients_def)

lemma same_clients_trans: "same_clients w1 w2 \<Longrightarrow> same_clients w2 w3 \<Longrightarrow> same_clients w1 w3"
  by (simp add: same_clients_def)

lemma server_wf_world: "server_wf (t, w) \<Longrightarrow> world_ok w' \<Longrightarrow> same_clients w w' \<Longrightarrow> server_wf (t, w')"
  by (simp add: server_wf_def same_clients_def del: not_None_eq)

lemma client_conn_fields [simp]:
  "client_conn f (w\<lparr>sv_k := k\<rparr>) = client_conn f w" "client_conn f (w\<lparr>sv_inflight := i\<rparr>) = client_conn f w"
  "client_conn f (w\<lparr>sv_close_after_flush := b\<rparr>) = client_conn f w" "client_conn f (w\<lparr>sv_done := q\<rparr>) = client_conn f w"
  "client_conn f (w\<lparr>sv_proxy_pool := p\<rparr>) = client_conn f w" "client_conn f (w\<lparr>sv_tunnel_pool := p\<rparr>) = client_conn f w"
  by (simp_all add: client_conn_def)

lemma world_ok_fields [simp]:
  "world_ok (w\<lparr>sv_k := k\<rparr>) = world_ok w" "world_ok (w\<lparr>sv_done := q\<rparr>) = world_ok w"
  "world_ok (w\<lparr>sv_proxy_pool := p\<rparr>) = world_ok w" "world_ok (w\<lparr>sv_tunnel_pool := p\<rparr>) = world_ok w"
  by (simp_all add: world_ok_def)

lemma same_clients_fields [simp]:
  "same_clients w (w'\<lparr>sv_k := k\<rparr>) = same_clients w w'" "same_clients w (w'\<lparr>sv_done := q\<rparr>) = same_clients w w'"
  "same_clients w (w'\<lparr>sv_proxy_pool := p\<rparr>) = same_clients w w'" "same_clients w (w'\<lparr>sv_tunnel_pool := p\<rparr>) = same_clients w w'"
  "same_clients w (w'\<lparr>sv_inflight := i\<rparr>) = same_clients w w'" "same_clients w (w'\<lparr>sv_close_after_flush := b\<rparr>) = same_clients w w'"
  by (simp_all add: same_clients_def)

lemma client_conn_set [simp]:
  "client_conn g (set_conn f c w) = (if g = f then (if f < 0 \<or> f \<ge> MAX_FD \<or> f \<ge> sv_size w then None else c) else client_conn g w)"
  by (simp add: client_conn_def set_conn_def)

lemma set_conn_fields [simp]:
  "sv_size (set_conn f c w) = sv_size w" "sv_inflight (set_conn f c w) = sv_inflight w"
  "sv_close_after_flush (set_conn f c w) = sv_close_after_flush w" "sv_done (set_conn f c w) = sv_done w"
  "sv_proxy_pool (set_conn f c w) = sv_proxy_pool w" "sv_tunnel_pool (set_conn f c w) = sv_tunnel_pool w"
  "sv_k (set_conn f c w) = sv_k w" "sv_poller (set_conn f c w) = sv_poller w"
  "sv_connections (set_conn f c w) = (sv_connections w)(f := c)" "sv_event_fd (set_conn f c w) = sv_event_fd w"
  by (simp_all add: set_conn_def)

lemma set_conn_ok:
  assumes "world_ok w" and "client_conn f w \<noteq> None" and "io_fd (hc_io c) = f"
  shows "world_ok (set_conn f (Some c) w)" and "same_clients w (set_conn f (Some c) w)"
  using assms by (auto simp: world_ok_def same_clients_def client_conn_def split: if_splits)

lemma timer_contains_ops:
  "f \<ge> 0 \<Longrightarrow> timer_contains g (Timer.add T f ms cb t) \<longleftrightarrow> g = f \<or> timer_contains g t"
  "timer_contains g (Timer.adjust T f ms t) \<longleftrightarrow> timer_contains g t"
  "timer_contains g (Timer.remove f t) \<longleftrightarrow> g \<noteq> f \<and> timer_contains g t"
  by (auto simp: timer_contains_def Timer.add_def Timer.adjust_def Let_def update_map_of delete_conv' split: option.splits)

lemma update_set_subset: "set (AList.update i e es) \<subseteq> insert (i, e) (set es)"
  by (induction es) auto

definition callbacks_own :: "(int \<times> fd timer_entry) list \<Rightarrow> bool" where
  "callbacks_own es \<longleftrightarrow> (\<forall>(i, e) \<in> set es. te_callback e = Some i)"

lemma callbacks_own_update: "callbacks_own es \<Longrightarrow> te_callback e = Some i \<Longrightarrow> callbacks_own (AList.update i e es)"
  using update_set_subset [of i e es] by (fastforce simp: callbacks_own_def)

lemma timer_ok_own: "timer_ok t \<longleftrightarrow> timer_wf t \<and> callbacks_own (ti_entries t)"
  by (simp add: timer_ok_def callbacks_own_def)

lemma timer_ok_ops:
  assumes "timer_ok t"
  shows "timer_ok (Timer.add T f ms (Some f) t)" "timer_ok (Timer.adjust T f ms t)" "timer_ok (Timer.remove f t)"
proof -
  have own: "callbacks_own (ti_entries t)" and wf: "timer_wf t" using assms by (simp_all add: timer_ok_own)
  show "timer_ok (Timer.add T f ms (Some f) t)"
    using own add_wf [OF wf] by (simp add: timer_ok_own) (simp add: Timer.add_def Let_def callbacks_own_update)
  show "timer_ok (Timer.remove f t)"
    using own remove_wf [OF wf] by (auto simp: timer_ok_own callbacks_own_def AList.delete_eq)
  have "callbacks_own (ti_entries (Timer.adjust T f ms t))"
  proof (cases "map_of (ti_entries t) f")
    case (Some e)
    then have "te_callback e = Some f" using own by (auto simp: callbacks_own_def dest: map_of_SomeD)
    then show ?thesis using own Some by (simp add: Timer.adjust_def Let_def callbacks_own_update)
  qed (simp add: Timer.adjust_def own)
  then show "timer_ok (Timer.adjust T f ms t)" using adjust_wf [OF wf] by (simp add: timer_ok_own)
qed

section \<open>Every member keeps it\<close>

text \<open>Closing restores the invariant also when only the timer entry of the client is already gone, as in a timer callback.\<close>

definition wf_but :: "fd \<Rightarrow> ('d, 'k) server \<Rightarrow> bool" where
  "wf_but f s \<longleftrightarrow> timer_ok (fst s) \<and> world_ok (snd s) \<and>
     (\<forall>g. g \<noteq> f \<longrightarrow> (timer_contains g (fst s) \<longleftrightarrow> client_conn g (snd s) \<noteq> None))"

lemma server_wf_but: "server_wf s \<Longrightarrow> wf_but f s"
  by (simp add: server_wf_def wf_but_def)

lemma close_client_conn: "sv_size (snd s) = MAX_FD \<Longrightarrow>
  client_conn g (snd (close_client sys f s)) = (if g = f then None else client_conn g (snd s))"
  by (auto simp: close_client_def Let_def client_conn_def)

lemma close_client_timer [simp]: "fst (close_client sys f s) = Timer.remove f (fst s)"
  by (simp add: close_client_def Let_def)

lemma close_client_fields [simp]:
  "sv_proxy_pool (snd (close_client sys f s)) = sv_proxy_pool (snd s)"
  "sv_tunnel_pool (snd (close_client sys f s)) = sv_tunnel_pool (snd s)"
  "sv_done (snd (close_client sys f s)) = sv_done (snd s)" "sv_size (snd (close_client sys f s)) = sv_size (snd s)"
  by (simp_all add: close_client_def Let_def)

lemma close_client_flags:
  "sv_size (snd s) = MAX_FD \<Longrightarrow> sv_inflight (snd (close_client sys f s)) g \<longleftrightarrow> sv_inflight (snd s) g \<and> \<not> (g = f \<and> 0 \<le> f \<and> f < MAX_FD)"
  "sv_size (snd s) = MAX_FD \<Longrightarrow> sv_close_after_flush (snd (close_client sys f s)) g \<longleftrightarrow>
     sv_close_after_flush (snd s) g \<and> \<not> (g = f \<and> 0 \<le> f \<and> f < MAX_FD)"
  by (auto simp: close_client_def Let_def)

lemma client_conn_range: "client_conn f w \<noteq> None \<Longrightarrow> 0 \<le> f \<and> f < MAX_FD"
  by (simp add: client_conn_def split: if_splits)

lemma close_client_wf:
  assumes "wf_but f s"
  shows "server_wf (close_client sys f s)"
proof -
  have sz: "sv_size (snd s) = MAX_FD" using assms by (simp add: wf_but_def world_ok_def)
  have fl: "sv_inflight (snd s) g \<or> sv_close_after_flush (snd s) g \<Longrightarrow> client_conn g (snd s) \<noteq> None \<and> 0 \<le> g \<and> g < MAX_FD" for g
    using assms client_conn_range [of g "snd s"] by (auto simp: wf_but_def world_ok_def)
  have "world_ok (snd (close_client sys f s))"
    using assms sz fl by (auto simp: world_ok_def wf_but_def close_client_conn [OF sz] close_client_flags [OF sz])
  then show ?thesis
    using assms timer_ok_ops(3) [of "fst s" f]
    by (auto simp: server_wf_def wf_but_def timer_contains_ops close_client_conn [OF sz])
qed

lemma refresh_wf:
  assumes "wf_but f s" and "client_conn f (snd s) = None \<longrightarrow> \<not> timer_contains f (fst s)"
  shows "server_wf (refresh_client_timeout sys f s)"
proof -
  have iff: "timer_contains g (fst s) \<longleftrightarrow> client_conn g (snd s) \<noteq> None" if "g \<noteq> f" for g
    using assms(1) that by (simp add: wf_but_def del: not_None_eq)
  show ?thesis
  proof (cases "client_conn f (snd s) = None")
    case True
    then have "timer_contains g (fst s) \<longleftrightarrow> client_conn g (snd s) \<noteq> None" for g
      using iff [of g] assms(2) by (cases "g = f") simp_all
    then show ?thesis using True assms(1) by (simp add: refresh_client_timeout_def server_wf_def wf_but_def)
  next
    case False
    obtain T k where k: "ss_clock sys (sv_k (snd s)) = (T, k)" by (rule prod.exhaust)
    define t' where "t' = (if timer_contains f (fst s) then Timer.adjust T f kClientIdleTimeoutMs (fst s)
      else Timer.add T f kClientIdleTimeoutMs (Some f) (fst s))"
    have "timer_contains g t' \<longleftrightarrow> client_conn g (snd s) \<noteq> None" for g
      using iff [of g] False client_conn_range [OF False] by (cases "g = f") (auto simp: t'_def timer_contains_ops)
    moreover have "timer_ok t'" using assms(1) by (simp add: t'_def timer_ok_ops wf_but_def)
    moreover have "refresh_client_timeout sys f s = (t', (snd s)\<lparr>sv_k := k\<rparr>)"
      using False by (auto simp: refresh_client_timeout_def read_clock_def k t'_def)
    ultimately show ?thesis using assms(1) by (simp add: server_wf_def wf_but_def)
  qed
qed

lemma server_wf_refresh: "server_wf s \<Longrightarrow> server_wf (refresh_client_timeout sys f s)"
  by (rule refresh_wf) (auto simp: server_wf_def wf_but_def)

lemma server_wf_close: "server_wf s \<Longrightarrow> server_wf (close_client sys f s)"
  by (rule close_client_wf) (rule server_wf_but)

text \<open>Reading, flushing and parsing keep the descriptor of a connection.\<close>

lemma flush_loop_fd: "flush_loop send m io k = Some x \<Longrightarrow> ci_sock (fst (snd x)) = ci_sock io"
proof (induction send m io k x rule: flush_loop.raw_induct [rotated 1, consumes 1, case_names step])
  case (step fl send m io k x)
  obtain r k1 where r: "send (io_fd io) (drop (ci_offset io) (ci_write io)) k = (r, k1)" by (rule prod.exhaust)
  have "ci_sock (flush_done io) = ci_sock io" by (simp add: flush_done_def)
  then show ?case
    using step.hyps step.IH [of send "m + int n" "io\<lparr>ci_offset := ci_offset io + n\<rparr>" k1 x for n]
    by (cases r) (auto simp: r split: if_splits)
qed

lemma read_loop_fd: "read_loop recv m io k = Some x \<Longrightarrow> ci_sock (fst (snd x)) = ci_sock io"
proof (induction recv m io k x rule: read_loop.raw_induct [rotated 1, consumes 1, case_names step])
  case (step rd recv m io k x)
  obtain r k1 where r: "recv (io_fd io) kReadChunkSize k = (r, k1)" by (rule prod.exhaust)
  show ?case
    using step.hyps step.IH [of recv "m + int (length d)" "io\<lparr>ci_read := ci_read io @ d\<rparr>" k1 x for d]
    by (cases r) (auto simp: r split: if_splits)
qed

lemma conn_flush_fd:
  "conn_flush_to_socket send c k = Some (r, c', k') \<Longrightarrow> io_fd (hc_io c') = io_fd (hc_io c)"
  using flush_loop_fd [of send 0 "hc_io c" k]
  by (fastforce simp: conn_flush_to_socket_def flush_to_socket_def split: if_splits)

lemma conn_read_fd:
  "conn_read_from_socket recv c k = Some (r, c', k') \<Longrightarrow> io_fd (hc_io c') = io_fd (hc_io c)"
  using read_loop_fd [of recv 0 "hc_io c" k]
  by (fastforce simp: conn_read_from_socket_def read_from_socket_def split: if_splits)

lemma parse_available_fd: "parse_available_data execute c = Some (ok, c') \<Longrightarrow> hc_io c' = hc_io c"
  by (auto simp: parse_available_data_def split: if_splits Option.bind_splits)

lemma reset_fd: "io_fd (hc_io (conn_reset_for_next_message start c)) = io_fd (hc_io c)"
  by (simp add: conn_reset_for_next_message_def consume_read_bytes_def Let_def)

lemma queue_write_fd: "io_fd (hc_io (conn_queue_write d c)) = io_fd (hc_io c)"
  by (simp add: conn_queue_write_def queue_write_def)

text \<open>A world after another with the same clients, still in order, and with the same flags.\<close>

definition keeps_clients :: "('d, 'k) world \<Rightarrow> ('d, 'k) world \<Rightarrow> bool" where
  "keeps_clients w w' \<longleftrightarrow> (world_ok w \<longrightarrow> world_ok w' \<and> same_clients w w')"

lemma keeps_clients_refl [simp]: "keeps_clients w w"
  by (simp add: keeps_clients_def)

lemma keeps_clients_trans: "keeps_clients w1 w2 \<Longrightarrow> keeps_clients w2 w3 \<Longrightarrow> keeps_clients w1 w3"
  by (auto simp: keeps_clients_def intro: same_clients_trans)

lemma keeps_clients_fields [simp]:
  "keeps_clients w (w'\<lparr>sv_k := k\<rparr>) = keeps_clients w w'" "keeps_clients w (w'\<lparr>sv_done := q\<rparr>) = keeps_clients w w'"
  "keeps_clients w (w'\<lparr>sv_proxy_pool := p\<rparr>) = keeps_clients w w'" "keeps_clients w (w'\<lparr>sv_tunnel_pool := p\<rparr>) = keeps_clients w w'"
  by (simp_all add: keeps_clients_def)

lemma keeps_clients_wf: "server_wf (t, w) \<Longrightarrow> keeps_clients w w' \<Longrightarrow> server_wf (t, w')"
  using server_wf_world [of t w w'] by (auto simp: keeps_clients_def server_wf_def)

lemma keeps_clients_set:
  assumes "client_conn f w = Some c" and "io_fd (hc_io c') = io_fd (hc_io c)"
  shows "keeps_clients w (set_conn f (Some c') w)"
proof -
  have "io_fd (hc_io c) = f" if "world_ok w" using that assms(1) unfolding world_ok_def by blast
  then show ?thesis using set_conn_ok [of w f c'] assms by (simp add: keeps_clients_def)
qed

lemma modify_client_keeps: "modify_client sys f ev w = (b, w') \<Longrightarrow> keeps_clients w w'"
  by (auto simp: modify_client_def split: prod.splits sum.splits)

lemma flush_conn_loop_keeps:
  "flush_conn_loop sys f conn w = Some x \<Longrightarrow> client_conn f w = Some conn \<Longrightarrow> keeps_clients w (snd x)"
proof (induction sys f conn w x rule: flush_conn_loop.raw_induct [rotated 1, consumes 1, case_names step])
  case (step fl sys f conn w x)
  show ?case
  proof (cases "conn_has_pending_write conn")
    case False
    then show ?thesis using step.hyps by (cases x) (auto intro: modify_client_keeps)
  next
    case True
    with step.hyps obtain r conn' k where c: "conn_flush_to_socket (sys_send (ss_io sys)) conn (sv_k w) = Some (r, conn', k)"
      by (auto split: Option.bind_splits)
    let ?w = "(set_conn f (Some conn') w)\<lparr>sv_k := k\<rparr>"
    have k: "keeps_clients w ?w" using keeps_clients_set [OF step.prems conn_flush_fd [OF c]] by simp
    have cc: "client_conn f ?w = Some conn'" using client_conn_range [of f w] step.prems by (auto simp: client_conn_def split: if_splits)
    have "x = modify_client sys f (kClientEvents OR EPOLLOUT) ?w \<or> x = (False, ?w) \<or> fl sys f conn' ?w = Some x"
      using step.hyps True c by (auto simp: Let_def split: sum.splits if_splits)
    then have "keeps_clients ?w (snd x)"
      using step.IH [of sys f conn' ?w x, OF _ cc] modify_client_keeps [of sys f "kClientEvents OR EPOLLOUT" ?w "fst x" "snd x"] by auto
    with k show ?thesis by (rule keeps_clients_trans)
  qed
qed

lemma flush_client_keeps: "flush_client_output sys f w = Some (ok, w') \<Longrightarrow> keeps_clients w w'"
  using flush_conn_loop_keeps [of sys f _ w "(ok, w')"] by (auto simp: flush_client_output_def split: option.splits)

lemma notify_keeps [simp]: "keeps_clients w (notify_reactor sys w') = keeps_clients w w'"
  by (simp add: notify_reactor_def)

lemma push_done_keeps: "push_done sys ev w = Some w' \<Longrightarrow> keeps_clients w w'"
  by (auto simp: push_done_def split: Option.bind_splits)

lemma set_pool_keeps [simp]: "keeps_clients w (set_pool c tp w') = keeps_clients w w'"
  by (simp add: set_pool_def)

lemma submit_keeps: "submit_proxy_job sys f req w = Some (ok, w') \<Longrightarrow> keeps_clients w w'"
  by (auto simp: submit_proxy_job_def Let_def split: prod.splits Option.bind_splits if_splits
      dest!: push_done_keeps elim: keeps_clients_trans [rotated])

lemma take_task_keeps: "take_task c w = Some (r, w') \<Longrightarrow> keeps_clients w w'"
  by (auto simp: take_task_def split: Option.bind_splits)

lemma finish_task_keeps: "finish_task execute start sys e0 task w = Some w' \<Longrightarrow> keeps_clients w w'"
  by (auto simp: finish_task_def split: prod.splits Option.bind_splits dest!: push_done_keeps elim: keeps_clients_trans [rotated])

lemma inflight_keeps: "client_conn f w \<noteq> None \<Longrightarrow> keeps_clients w (w\<lparr>sv_inflight := (sv_inflight w)(f := b)\<rparr>)"
  "client_conn f w \<noteq> None \<Longrightarrow> keeps_clients w (w\<lparr>sv_close_after_flush := (sv_close_after_flush w)(f := b)\<rparr>)"
  by (auto simp: keeps_clients_def world_ok_def)

lemma handle_client_keeps:
  assumes "handle_client execute start sys f w = Some (ok, w')"
  shows "keeps_clients w w'"
proof (cases "client_conn f w")
  case None
  then show ?thesis using assms by (simp add: handle_client_def)
next
  case (Some conn)
  show ?thesis
  proof (cases "f < sv_size w \<and> sv_inflight w f")
    case True
    then show ?thesis using assms Some by (simp add: handle_client_def)
  next
    case False
    with assms Some obtain r c1 k where rd: "conn_read_from_socket (sys_recv (ss_io sys)) conn (sv_k w) = Some (r, c1, k)"
      by (auto simp: handle_client_def split: Option.bind_splits)
    let ?w1 = "(set_conn f (Some c1) w)\<lparr>sv_k := k\<rparr>"
    have rng: "0 \<le> f \<and> f < MAX_FD \<and> f < sv_size w" using Some by (auto simp: client_conn_def split: if_splits)
    have k1: "keeps_clients w ?w1" using keeps_clients_set [OF Some conn_read_fd [OF rd]] by simp
    show ?thesis
    proof (cases r)
      case (Inl e)
      then show ?thesis using assms Some False rd k1 by (auto simp: handle_client_def)
    next
      case (Inr n)
      with assms Some False rd obtain ok2 c2 where ps: "parse_available_data execute c1 = Some (ok2, c2)"
        by (auto simp: handle_client_def split: Option.bind_splits)
      let ?w2 = "set_conn f (Some c2) ?w1"
      have k2: "keeps_clients ?w1 ?w2"
        using rng parse_available_fd [OF ps] by (intro keeps_clients_set [of f ?w1 c1]) auto
      let ?c3 = "conn_reset_for_next_message start c2"
      let ?w3 = "set_conn f (Some ?c3) ?w2"
      have k3: "keeps_clients ?w2 ?w3" using rng by (intro keeps_clients_set [of f ?w2 c2]) (auto simp: reset_fd)
      have k4: "keeps_clients ?w3 (?w3\<lparr>sv_inflight := (sv_inflight ?w3)(f := True)\<rparr>)"
        using rng by (intro inflight_keeps) auto
      show ?thesis
        using assms Some False rd Inr ps keeps_clients_trans [OF k1 k2]
          keeps_clients_trans [OF keeps_clients_trans [OF keeps_clients_trans [OF k1 k2] k3] k4]
        by (auto simp: handle_client_def Let_def split: if_splits Option.bind_splits dest!: submit_keeps intro: keeps_clients_trans)
    qed
  qed
qed

lemma close_when_flushed_wf: "server_wf s \<Longrightarrow> server_wf (close_when_flushed sys f s)"
  using keeps_clients_wf [of "fst s" "snd s"] inflight_keeps(2) [of f "snd s" True] server_wf_close [of s sys f]
  by (auto simp: close_when_flushed_def split: option.splits)

lemma handle_done_event_wf:
  assumes "server_wf s" and "handle_done_event strerror sys ev s = Some s'"
  shows "server_wf s'"
proof (cases "client_conn (ev_client_fd ev) (snd s)")
  case None
  then show ?thesis using assms by (simp add: handle_done_event_def)
next
  case (Some conn)
  define f where "f = ev_client_fd ev"
  define w1 where "w1 = (snd s)\<lparr>sv_inflight := (sv_inflight (snd s))(f := False)\<rparr>"
  have k1: "keeps_clients (snd s) w1" using Some by (auto simp: w1_def f_def intro: inflight_keeps)
  then have wf1: "server_wf (fst s, w1)" using assms(1) keeps_clients_wf [of "fst s" "snd s" w1] by simp
  show ?thesis
  proof (cases "\<not> ev_ok ev \<and> ev_is_connect ev \<and> is_expected_connect_shutdown_errno (ev_err ev)")
    case True
    then have "s' = close_client sys f (fst s, w1)" using assms(2) Some by (simp add: handle_done_event_def f_def w1_def Let_def)
    then show ?thesis using server_wf_close [OF wf1] by simp
  next
    case False
    define reply where "reply = (if ev_ok ev then ev_response ev else build_service_unavailable_response (strerror (ev_err ev)))"
    from assms(2) Some False obtain ok w2 where
      fl: "flush_client_output sys f (set_conn f (Some (conn_queue_write reply conn)) w1) = Some (ok, w2)"
      and s': "s' = (if \<not> ok then close_client sys f (fst s, w2)
        else if \<not> ev_ok ev \<or> ev_close_after_done ev then close_when_flushed sys f (fst s, w2)
        else refresh_client_timeout sys f (fst s, w2))"
      by (auto simp: handle_done_event_def f_def w1_def reply_def Let_def split: Option.bind_splits)
    have "keeps_clients w1 (set_conn f (Some (conn_queue_write reply conn)) w1)"
      using Some by (intro keeps_clients_set [of f w1 conn]) (auto simp: f_def w1_def queue_write_fd)
    then have "server_wf (fst s, w2)"
      using keeps_clients_wf [OF wf1] flush_client_keeps [OF fl] keeps_clients_trans by blast
    then show ?thesis
      by (simp add: s' server_wf_close close_when_flushed_wf server_wf_refresh)
  qed
qed

lemma server_wf_fields [simp]:
  "server_wf (t, w\<lparr>sv_k := k\<rparr>) = server_wf (t, w)" "server_wf (t, w\<lparr>sv_done := q\<rparr>) = server_wf (t, w)"
  by (simp_all add: server_wf_def)

lemma done_loop_wf: "done_loop strerror sys s = Some s' \<Longrightarrow> server_wf s \<Longrightarrow> server_wf s'"
proof (induction strerror sys s s' rule: done_loop.raw_induct [rotated 1, consumes 1, case_names step])
  case (step loop strerror sys s s')
  from step.hyps obtain r q where p: "try_pop (sv_done (snd s)) = Some (r, q)" by (auto split: Option.bind_splits)
  let ?s1 = "(fst s, (snd s)\<lparr>sv_done := q\<rparr>)"
  have wf: "server_wf ?s1" using step.prems by simp
  show ?case
  proof (cases r)
    case None
    then show ?thesis using step.hyps p wf by simp
  next
    case (Some ev)
    with step.hyps p obtain s2 where h: "handle_done_event strerror sys ev ?s1 = Some s2" "loop strerror sys s2 = Some s'"
      by (auto split: Option.bind_splits)
    then show ?thesis using step.IH [OF h(2)] handle_done_event_wf [OF wf h(1)] by simp
  qed
qed

lemma drain_wf: "server_wf s \<Longrightarrow> drain_proxy_done_events strerror sys s = Some s' \<Longrightarrow> server_wf s'"
  using done_loop_wf [of strerror sys _ s'] by (auto simp: drain_proxy_done_events_def split: Option.bind_splits if_splits)

lemma install_client_wf:
  assumes "server_wf s" and "0 \<le> f" and "f < MAX_FD"
  shows "server_wf (install_client start sys f s)"
proof -
  let ?w = "(set_conn f (Some (http_conn_new start f)) (snd s))\<lparr>sv_k := destroy_conn sys (sv_connections (snd s) f) (sv_k (snd s))\<rparr>"
  have sz: "sv_size (snd s) = MAX_FD" using assms(1) by (simp add: server_wf_def world_ok_def)
  have "io_fd (hc_io (http_conn_new start f)) = f" by (simp add: http_conn_new_def http_connection_io_new_def socket_ops_of_def)
  then have "world_ok ?w" using assms sz by (auto simp: server_wf_def world_ok_def)
  moreover have "timer_contains g (fst s) \<longleftrightarrow> client_conn g ?w \<noteq> None" if "g \<noteq> f" for g
    using assms(1) that by (simp add: server_wf_def)
  ultimately have "wf_but f (fst s, ?w)" using assms(1) by (simp add: wf_but_def server_wf_def)
  moreover have "client_conn f ?w \<noteq> None" using assms(2,3) sz by simp
  ultimately show ?thesis by (auto simp: install_client_def Let_def intro: refresh_wf)
qed

lemma accept_client_wf:
  assumes "server_wf s" and "accept_client start sys f ip s = Some s'"
  shows "server_wf s'"
proof -
  have "server_wf (fst s, (snd s)\<lparr>sv_k := k\<rparr>)" for k using assms(1) by simp
  then show ?thesis
    using assms(2) install_client_wf [of "(fst s, (snd s)\<lparr>sv_k := k\<rparr>)" f start sys for k]
    by (auto simp: accept_client_def Let_def split: if_splits prod.splits sum.splits)
qed

lemma accept_loop_wf: "accept_loop start sys s = Some s' \<Longrightarrow> server_wf s \<Longrightarrow> server_wf s'"
proof (induction start sys s s' rule: accept_loop.raw_induct [rotated 1, consumes 1, case_names step])
  case (step loop start sys s s')
  obtain r k where a: "ss_accept sys (so_fd (sv_server_socket (snd s))) (sv_k (snd s)) = (r, k)" by (rule prod.exhaust)
  let ?s1 = "(fst s, (snd s)\<lparr>sv_k := k\<rparr>)"
  have wf: "server_wf ?s1" using step.prems by simp
  show ?case
  proof (cases r)
    case (Inl e)
    then show ?thesis using step.hyps a wf step.IH [of start sys ?s1 s'] by (auto split: if_splits)
  next
    case (Inr peer)
    with step.hyps a obtain s2 where h: "accept_client start sys (fst peer) (snd peer) ?s1 = Some s2" "loop start sys s2 = Some s'"
      by (auto split: Option.bind_splits)
    then show ?thesis using step.IH [OF h(2)] accept_client_wf [OF wf h(1)] by simp
  qed
qed

lemma client_writable_wf:
  assumes "server_wf s" and "client_writable sys f s = Some (b, s')"
  shows "server_wf s'"
proof -
  from assms(2) obtain ok w where fl: "flush_client_output sys f (snd s) = Some (ok, w)"
    by (auto simp: client_writable_def split: Option.bind_splits)
  have "server_wf (fst s, w)" using keeps_clients_wf [of "fst s" "snd s" w] assms(1) flush_client_keeps [OF fl] by simp
  then have "server_wf (fst s, w)" "server_wf (close_client sys f (fst s, w))" by (simp_all add: server_wf_close)
  moreover have "s' = (fst s, w) \<or> s' = close_client sys f (fst s, w)"
    using assms(2) by (simp add: client_writable_def fl split: if_splits)
  ultimately show ?thesis by auto
qed

lemma client_readable_wf:
  assumes "server_wf s" and "client_readable execute start sys f s = Some s'"
  shows "server_wf s'"
proof -
  from assms(2) obtain ok w where h: "handle_client execute start sys f (snd s) = Some (ok, w)"
    and s': "s' = (if ok then (fst s, w) else close_client sys f (fst s, w))"
    by (auto simp: client_readable_def split: Option.bind_splits)
  have "server_wf (fst s, w)" using keeps_clients_wf [of "fst s" "snd s" w] assms(1) handle_client_keeps [OF h] by simp
  then show ?thesis by (simp add: s' server_wf_close)
qed

lemma handle_client_event_wf:
  assumes "server_wf s" and "handle_client_event execute start sys f ev s = Some s'"
  shows "server_wf s'"
proof (cases "ev AND (EPOLLERR OR EPOLLHUP OR EPOLLRDHUP) = 0")
  case False
  then have "s' = close_client sys f s" using assms(2) by (simp add: handle_client_event_def)
  then show ?thesis using assms(1) by (simp add: server_wf_close)
next
  case True
  define s1 where "s1 = (if ev AND (EPOLLIN OR EPOLLOUT) \<noteq> 0 then refresh_client_timeout sys f s else s)"
  have wf1: "server_wf s1" using assms(1) by (simp add: s1_def server_wf_refresh)
  define out where "out = (if ev AND EPOLLOUT \<noteq> 0 then client_writable sys f s1 else Some (True, s1))"
  have "handle_client_event execute start sys f ev s = do {
       (continues, s2) \<leftarrow> out;
       (if continues \<and> ev AND EPOLLIN \<noteq> 0 then client_readable execute start sys f s2 else Some s2) }"
    using True by (simp add: handle_client_event_def s1_def out_def)
  then obtain b s2 where o: "out = Some (b, s2)" and s': "(if b \<and> ev AND EPOLLIN \<noteq> 0 then client_readable execute start sys f s2 else Some s2) = Some s'"
    using assms(2) by (auto split: Option.bind_splits)
  have "server_wf s2" using o wf1 client_writable_wf [OF wf1] by (simp add: out_def split: if_splits)
  then show ?thesis using s' client_readable_wf by (simp split: if_splits)
qed

lemma handle_event_wf:
  assumes "server_wf s" and "handle_event execute start strerror sys e s = Some s'"
  shows "server_wf s'"
  using assms accept_loop_wf [of start sys s s'] drain_wf [of s strerror sys s'] handle_client_event_wf [of s execute start sys "fst e" "snd e" s']
  by (simp add: handle_event_def split: if_splits)

lemma handle_events_wf: "server_wf s \<Longrightarrow> handle_events execute start strerror sys es s = Some s' \<Longrightarrow> server_wf s'"
proof (induction es arbitrary: s)
  case (Cons e es)
  from Cons.prems(2) obtain s1 where "handle_event execute start strerror sys e s = Some s1" "handle_events execute start strerror sys es s1 = Some s'"
    by (auto split: Option.bind_splits)
  with Cons.IH [of s1] handle_event_wf [OF Cons.prems(1)] show ?case by blast
qed simp

section \<open>The timer of the server\<close>

text \<open>The callbacks of the connection timer meet the contract of a timer client.\<close>

lemma delete_absent: "map_of es f = None \<Longrightarrow> AList.delete f es = es"
  by (induction es) (auto split: if_splits)

interpretation tc: timer_client "read_clock sys" "on_client_timeout sys" "\<lambda>f. f" for sys
  by unfold_locales (auto simp: on_client_timeout_def delete_absent remove_wf remove_heap_length)

lemma timer_ok_owned: "timer_ok t \<Longrightarrow> timer_wf t \<and> tc.owned t"
  by (auto simp: timer_ok_def tc.owned_def)

lemma on_client_timeout_wf:
  assumes "wf_but f s" and "\<not> timer_contains f (fst s)"
  shows "server_wf (on_client_timeout sys f s)"
proof (cases "client_conn f (snd s) = None")
  case True
  have "timer_contains g (fst s) \<longleftrightarrow> client_conn g (snd s) \<noteq> None" for g
    using assms True by (cases "g = f") (simp_all add: wf_but_def del: not_None_eq)
  then show ?thesis using assms(1) True by (simp add: on_client_timeout_def server_wf_def wf_but_def)
next
  case False
  then show ?thesis using close_client_wf [OF assms(1), of sys] by (auto simp: on_client_timeout_def)
qed

lemma timer_ok_discard: "timer_ok t \<Longrightarrow> timer_ok (discard_stale_top t)"
  by (simp add: timer_ok_def discard_wf)

lemma timer_contains_discard [simp]: "timer_contains f (discard_stale_top t) = timer_contains f t"
  by (simp add: timer_contains_def)

lemma server_wf_discard: "server_wf (t, w) \<Longrightarrow> server_wf (discard_stale_top t, w)"
  by (simp add: server_wf_def timer_ok_discard)

lemma server_wf_clock: "server_wf (t, w) \<Longrightarrow> server_wf (t, snd (read_clock sys w))"
  by (simp add: read_clock_def split: prod.split)

text \<open>A timer that fires: its entry goes first, then the callback closes the connection.\<close>

lemma fired_server_wf:
  assumes "server_wf (t, w)" and "ti_heap t = n # h" and "(tn_id n, e) \<in> set (ti_entries t)"
  shows "server_wf (timer_client.fired (on_client_timeout sys) n h e (t, w))"
proof -
  let ?t = "t\<lparr>ti_entries := AList.delete (tn_id n) (ti_entries t), ti_heap := h\<rparr>"
  have own: "te_callback e = Some (tn_id n)" "timer_wf t" using assms(1,3) by (auto simp: server_wf_def timer_ok_def)
  have "timer_contains g ?t \<longleftrightarrow> g \<noteq> tn_id n \<and> timer_contains g t" for g
    by (simp add: timer_contains_def delete_conv')
  moreover have "timer_ok ?t"
    using assms(1) pop_entry_wf [OF own(2) assms(2)] by (auto simp: server_wf_def timer_ok_def AList.delete_eq)
  ultimately have "wf_but (tn_id n) (?t, w)" "\<not> timer_contains (tn_id n) ?t"
    using assms(1) by (simp_all add: wf_but_def server_wf_def)
  then show ?thesis using on_client_timeout_wf [of "tn_id n" "(?t, w)"] own(1) by (simp add: tc.fired_def)
qed

lemma tick_server_wf:
  assumes "server_wf (t, w)"
  shows "\<exists>s'. tick (read_clock sys) (on_client_timeout sys) (t, w) = Some s' \<and> server_wf s'"
proof -
  have "timer_wf t" "tc.owned t" using assms timer_ok_owned by (auto simp: server_wf_def)
  then show ?thesis using assms
  proof (induction t w rule: tc.tick_induct [where sys = sys])
    case (Done t w)
    then show ?case by (auto intro: server_wf_discard)
  next
    case (Later t w n h)
    then show ?case by (auto intro: server_wf_discard server_wf_clock)
  next
    case (Fire t w n h e t' w')
    have "server_wf (discard_stale_top t, snd (read_clock sys w))"
      using Fire.prems by (intro server_wf_clock server_wf_discard)
    from fired_server_wf [OF this Fire.hyps(3), of e sys] Fire.hyps have "server_wf (t', w')" by simp
    then show ?case by (rule Fire.IH)
  qed
qed

text \<open>The parts of an iteration: the timers that are due, the wait, the events it reports, the timers again.\<close>

lemma server_iteration_parts:
  assumes "server_wf s" and "server_iteration execute start strerror sys s = Some s'"
  shows "\<exists>s1 s2 k. tick (read_clock sys) (on_client_timeout sys) s = Some s1 \<and> server_wf s1 \<and>
    fst s2 = discard_stale_top (fst s1) \<and> (snd s2 = snd s1 \<or> snd s2 = snd (read_clock sys (snd s1))) \<and>
    (s' = (fst s2, (snd s2)\<lparr>sv_k := k\<rparr>) \<or>
     (\<exists>evs s4. handle_events execute start strerror sys evs (fst s2, (snd s2)\<lparr>sv_k := k\<rparr>) = Some s4 \<and>
        tick (read_clock sys) (on_client_timeout sys) s4 = Some s'))"
proof -
  obtain t w where s: "s = (t, w)" by (cases s)
  obtain s1 where tk: "tick (read_clock sys) (on_client_timeout sys) (t, w) = Some s1" "server_wf s1"
    using tick_server_wf [of t w sys] assms(1) s by blast
  from assms(2) obtain ms s2 where nt: "get_next_timeout_ms (read_clock sys) (on_client_timeout sys) s = Some (ms, s2)"
    by (auto simp: server_iteration_def split: Option.bind_splits)
  have s2: "s2 = (discard_stale_top (fst s1), snd s1) \<or> s2 = (discard_stale_top (fst s1), snd (read_clock sys (snd s1)))"
    using nt tk(1) s by (cases s1) (auto simp: get_next_timeout_ms_def Let_def split: list.splits prod.splits)
  obtain r k where w: "poller_wait (sys_epoll_wait (ss_io sys)) True MAX_EVENTS ms (sv_poller (snd s2)) (sv_k (snd s2)) = (r, k)"
    by (rule prod.exhaust)
  have "s' = (fst s2, (snd s2)\<lparr>sv_k := k\<rparr>) \<or>
     (\<exists>evs s4. handle_events execute start strerror sys evs (fst s2, (snd s2)\<lparr>sv_k := k\<rparr>) = Some s4 \<and>
        tick (read_clock sys) (on_client_timeout sys) s4 = Some s')"
    using assms(2) nt w by (cases r) (auto simp: server_iteration_def split: Option.bind_splits)
  then show ?thesis using s2 tk s by (intro exI [of _ s1] exI [of _ s2] exI [of _ k]) auto
qed

lemma server_iteration_wf:
  assumes "server_wf s" and "server_iteration execute start strerror sys s = Some s'"
  shows "server_wf s'"
proof -
  obtain s1 s2 k where p: "server_wf s1" "fst s2 = discard_stale_top (fst s1)" "snd s2 = snd s1 \<or> snd s2 = snd (read_clock sys (snd s1))"
    and s': "s' = (fst s2, (snd s2)\<lparr>sv_k := k\<rparr>) \<or> (\<exists>evs s4. handle_events execute start strerror sys evs (fst s2, (snd s2)\<lparr>sv_k := k\<rparr>) = Some s4 \<and>
        tick (read_clock sys) (on_client_timeout sys) s4 = Some s')"
    using server_iteration_parts [OF assms] by blast
  have "server_wf (fst s2, snd s2)"
    using p server_wf_discard [of "fst s1" "snd s1"] server_wf_clock [of "discard_stale_top (fst s1)" "snd s1" sys] by auto
  then have wf: "server_wf (fst s2, (snd s2)\<lparr>sv_k := k\<rparr>)" by simp
  show ?thesis using s'
  proof
    assume "\<exists>evs s4. handle_events execute start strerror sys evs (fst s2, (snd s2)\<lparr>sv_k := k\<rparr>) = Some s4 \<and>
        tick (read_clock sys) (on_client_timeout sys) s4 = Some s'"
    then obtain evs s4 where h: "handle_events execute start strerror sys evs (fst s2, (snd s2)\<lparr>sv_k := k\<rparr>) = Some s4"
      "tick (read_clock sys) (on_client_timeout sys) s4 = Some s'" by blast
    then show ?thesis using tick_server_wf [of "fst s4" "snd s4" sys] handle_events_wf [OF wf h(1)] by auto
  qed (use wf in simp)
qed

text \<open>After a successful start-up no client is connected.\<close>

lemma listen_setup_wf:
  assumes "listen_setup sys read_file open_db w = Some (ok, w')" and "sv_connections w = (\<lambda>_. None)"
  shows "server_wf (timer_new, w')"
proof -
  have "sv_connections w' = (\<lambda>_. None) \<and> sv_size w' = MAX_FD \<and> sv_inflight w' = (\<lambda>_. False) \<and> sv_close_after_flush w' = (\<lambda>_. False)"
    using assms
    by (auto simp: listen_setup_def server_init_def init_cache_db_def init_proxy_async_def Let_def
        split: Option.bind_splits prod.splits sum.splits if_splits)
  then show ?thesis
    by (simp add: server_wf_def world_ok_def client_conn_def timer_ok_def timer_wf_new timer_contains_def)
      (simp add: timer_new_def)
qed

end
