(* ===== verification/Server_Runs.thy ===== *)
theory Server_Runs
  imports Server_Invariant
begin

text \<open>
  Runs of the server: the reactor and the workers interleaved, where a worker takes a task in one step and reports it in
  a later one. Every reachable state keeps the bookkeeping invariant, and with an allocator that does not hand out nodes
  in use, no request that is in flight is lost between the queues.
\<close>

section \<open>The queues\<close>

text \<open>\<^verbatim>\<open>new\<close> does not return the address of an object that still exists.\<close>

definition alloc_law :: "('a, 'k) server_sys \<Rightarrow> bool" where
  "alloc_law sys \<longleftrightarrow> (\<forall>S k. finite S \<longrightarrow> ss_malloc sys S k \<notin> S)"

definition queued :: "('d, 'k) world \<Rightarrow> proxy_task list \<Rightarrow> proxy_task list \<Rightarrow> proxy_done_event list \<Rightarrow> bool" where
  "queued w ts us evs \<longleftrightarrow> pool_repr (sv_proxy_pool w) ts \<and> pool_repr (sv_tunnel_pool w) us \<and> tq_repr (sv_done w) evs"

lemma queued_fields [simp]:
  "queued (w\<lparr>sv_k := k\<rparr>) = queued w" "queued (w\<lparr>sv_inflight := i\<rparr>) = queued w" "queued (w\<lparr>sv_close_after_flush := i\<rparr>) = queued w"
  "queued (set_conn f c w) = queued w"
  by (simp_all add: queued_def fun_eq_iff)

lemma tq_repr_finite: "tq_repr q xs \<Longrightarrow> finite (dom (tq_heap q))"
  unfolding tq_repr_def by (metis List.finite_set)

lemma fresh_node_new:
  assumes "alloc_law sys" and "queued w ts us evs"
  shows "tq_heap (tp_queue (pool_of c w)) (fresh_node sys w) = None" "tq_heap (sv_done w) (fresh_node sys w) = None"
proof -
  have "finite (live_nodes w)"
    using assms(2) by (auto simp: live_nodes_def queued_def pool_repr_def intro: tq_repr_finite)
  then have "fresh_node sys w \<notin> live_nodes w" using assms(1) by (simp add: alloc_law_def fresh_node_def)
  then show "tq_heap (tp_queue (pool_of c w)) (fresh_node sys w) = None" "tq_heap (sv_done w) (fresh_node sys w) = None"
    by (auto simp: live_nodes_def pool_of_def)
qed

lemma notify_fields [simp]:
  "sv_proxy_pool (notify_reactor sys w) = sv_proxy_pool w" "sv_tunnel_pool (notify_reactor sys w) = sv_tunnel_pool w"
  "sv_done (notify_reactor sys w) = sv_done w" "sv_inflight (notify_reactor sys w) = sv_inflight w"
  "client_conn f (notify_reactor sys w) = client_conn f w" "sv_size (notify_reactor sys w) = sv_size w"
  by (simp_all add: notify_reactor_def)

lemma push_done_appends:
  assumes "alloc_law sys" and "queued w ts us evs"
  shows "\<exists>q. push_done sys ev w = Some (notify_reactor sys (w\<lparr>sv_done := q\<rparr>)) \<and> tq_repr q (evs @ [ev])"
  using tq.push_appends [of "sv_done w" evs "fresh_node sys w" ev] fresh_node_new(2) [OF assms] assms(2)
  by (auto simp: push_done_def queued_def)

lemma pop_task_first:
  assumes "pool_repr tp (t # ts)"
  shows "\<exists>tp'. pop_task tp = Some (Some t, tp') \<and> pool_repr tp' ts"
  using tq.pop_first [of "tp_queue tp" t ts] dequeue_repr [OF assms] assms by (auto simp: pop_task_def pool_repr_def)

lemma pop_task_none: "pool_repr tp [] \<Longrightarrow> pop_task tp = Some (None, tp)"
  using tq.pop_none [of "tp_queue tp"] by (simp add: pop_task_def pool_repr_def)

lemma try_push_repr:
  assumes "pool_repr tp ts" and "tq_heap (tp_queue tp) p = None"
  shows "if length ts < unat (tp_max tp) \<and> \<not> tp_stopped tp \<and> \<not> tp_done tp
    then \<exists>tp'. try_push p t tp = Some (True, tp') \<and> pool_repr tp' (ts @ [t]) else try_push p t tp = Some (False, tp)"
proof -
  have full: "tp_count tp \<ge> tp_max tp \<longleftrightarrow> \<not> length ts < unat (tp_max tp)"
    using pool_repr_full [OF assms(1)] assms(1) by (auto simp: pool_repr_def)
  then show ?thesis using enqueue_repr [OF assms(1) _ assms(2), of t] by (auto simp: try_push_def not_less [symmetric])
qed

lemma set_pool_fields [simp]:
  "sv_done (set_pool c tp w) = sv_done w" "sv_k (set_pool c tp w) = sv_k w" "sv_inflight (set_pool c tp w) = sv_inflight w"
  "client_conn f (set_pool c tp w) = client_conn f w" "pool_of c (set_pool c tp w) = tp" "world_ok (set_pool c tp w) = world_ok w"
  "sv_size (set_pool c tp w) = sv_size w" "sv_connections (set_pool c tp w) = sv_connections w" "set_pool c (pool_of c w) w = w"
  by (simp_all add: set_pool_def pool_of_def client_conn_def world_ok_def)

lemma pool_of_fields [simp]:
  "pool_of c (w\<lparr>sv_k := k\<rparr>) = pool_of c w" "pool_of c (w\<lparr>sv_done := q\<rparr>) = pool_of c w" "pool_of c (w\<lparr>sv_inflight := i\<rparr>) = pool_of c w"
  "pool_of c (set_conn f x w) = pool_of c w" "pool_of c (notify_reactor sys w) = pool_of c w"
  by (simp_all add: pool_of_def)

text \<open>The jobs of one pool.\<close>

definition jobs_of :: "bool \<Rightarrow> proxy_task list \<Rightarrow> proxy_task list \<Rightarrow> proxy_task list" where
  "jobs_of c ts us = (if c then us else ts)"

lemma queued_pool: "queued w ts us evs \<Longrightarrow> pool_repr (pool_of c w) (jobs_of c ts us)"
  by (simp add: queued_def pool_of_def jobs_of_def)

definition has_room :: "'t thread_pool \<Rightarrow> 't list \<Rightarrow> bool" where
  "has_room tp ts \<longleftrightarrow> length ts < unat (tp_max tp) \<and> \<not> tp_stopped tp \<and> \<not> tp_done tp"

text \<open>A submitted request goes to its pool, or its refusal to the finished jobs.\<close>

lemma submit_effect:
  assumes "alloc_law sys" and "queued w ts us evs" and "c = ri_is_connect req"
  shows "if has_room (pool_of c w) (jobs_of c ts us)
    then \<exists>tp. submit_proxy_job sys f req w = Some (True, set_pool c tp w) \<and> pool_repr tp (jobs_of c ts us @ [(f, req)])
    else \<exists>q. submit_proxy_job sys f req w = Some (False, notify_reactor sys (w\<lparr>sv_done := q\<rparr>)) \<and> tq_repr q (evs @ [refusal f req])"
  using try_push_repr [OF queued_pool [OF assms(2)] fresh_node_new(1) [OF assms(1,2)], of c "(f, req)"]
    push_done_appends [OF assms(1,2), of "refusal f req"]
  by (auto simp: submit_proxy_job_def has_room_def assms(3) Let_def) blast+

section \<open>Requests in flight\<close>

text \<open>\<open>run\<close> are the tasks that workers have taken and not yet reported.\<close>

definition outstanding :: "proxy_task list \<Rightarrow> proxy_task list \<Rightarrow> proxy_task list \<Rightarrow> proxy_done_event list \<Rightarrow> fd set" where
  "outstanding run ts us evs = fst ` set run \<union> fst ` set ts \<union> fst ` set us \<union> ev_client_fd ` set evs"

definition jobs_are :: "proxy_task list \<Rightarrow> ('d, 'k) world \<Rightarrow> proxy_task list \<Rightarrow> proxy_task list \<Rightarrow> proxy_done_event list \<Rightarrow> bool" where
  "jobs_are run w ts us evs \<longleftrightarrow> queued w ts us evs \<and> {f. sv_inflight w f} \<subseteq> outstanding run ts us evs \<and>
     (\<forall>t \<in> set ts. \<not> ri_is_connect (snd t)) \<and> (\<forall>t \<in> set us. ri_is_connect (snd t)) \<and> (\<forall>ev \<in> set evs. ev_close_after_done ev)"

definition jobs_ok :: "proxy_task list \<Rightarrow> ('d, 'k) world \<Rightarrow> bool" where
  "jobs_ok run w \<longleftrightarrow> (\<exists>ts us evs. jobs_are run w ts us evs)"

definition keeps_jobs :: "('d, 'k) world \<Rightarrow> ('d, 'k) world \<Rightarrow> bool" where
  "keeps_jobs w w' \<longleftrightarrow> sv_proxy_pool w' = sv_proxy_pool w \<and> sv_tunnel_pool w' = sv_tunnel_pool w \<and> sv_done w' = sv_done w \<and>
     (\<forall>f. sv_inflight w' f \<longrightarrow> sv_inflight w f)"

lemma keeps_jobs_refl [simp]: "keeps_jobs w w"
  by (simp add: keeps_jobs_def)

lemma keeps_jobs_trans: "keeps_jobs w1 w2 \<Longrightarrow> keeps_jobs w2 w3 \<Longrightarrow> keeps_jobs w1 w3"
  by (auto simp: keeps_jobs_def)

lemma keeps_jobs_are: "jobs_are run w ts us evs \<Longrightarrow> keeps_jobs w w' \<Longrightarrow> jobs_are run w' ts us evs"
  by (auto simp: jobs_are_def keeps_jobs_def queued_def)

lemma keeps_jobs_ok: "jobs_ok run w \<Longrightarrow> keeps_jobs w w' \<Longrightarrow> jobs_ok run w'"
  unfolding jobs_ok_def using keeps_jobs_are by blast

lemma keeps_jobs_fields [simp]:
  "keeps_jobs w (w'\<lparr>sv_k := k\<rparr>) = keeps_jobs w w'" "keeps_jobs w (set_conn f c w') = keeps_jobs w w'"
  "keeps_jobs w (w'\<lparr>sv_close_after_flush := i\<rparr>) = keeps_jobs w w'"
  by (simp_all add: keeps_jobs_def)

lemma close_client_jobs [simp]: "keeps_jobs (snd s) (snd (close_client sys f s))"
  by (simp add: close_client_def Let_def keeps_jobs_def)

lemma on_client_timeout_jobs [simp]: "keeps_jobs (snd s) (snd (on_client_timeout sys f s))"
  by (simp add: on_client_timeout_def)

lemma read_clock_jobs [simp]: "keeps_jobs w (snd (read_clock sys w))"
  by (simp add: read_clock_def split: prod.split)

lemma refresh_jobs [simp]: "keeps_jobs (snd s) (snd (refresh_client_timeout sys f s))"
  using read_clock_jobs [of "snd s" sys] by (cases "read_clock sys (snd s)") (simp add: refresh_client_timeout_def)

lemma modify_client_jobs: "modify_client sys f ev w = (b, w') \<Longrightarrow> keeps_jobs w w'"
  by (auto simp: modify_client_def split: prod.splits sum.splits)

lemma flush_conn_loop_jobs: "flush_conn_loop sys f conn w = Some x \<Longrightarrow> keeps_jobs w (snd x)"
proof (induction sys f conn w x rule: flush_conn_loop.raw_induct [rotated 1, consumes 1, case_names step])
  case (step fl sys f conn w x)
  show ?case
  proof (cases "conn_has_pending_write conn")
    case False
    then show ?thesis using step.hyps by (cases x) (auto intro: modify_client_jobs)
  next
    case True
    with step.hyps obtain r conn' k where c: "conn_flush_to_socket (sys_send (ss_io sys)) conn (sv_k w) = Some (r, conn', k)"
      by (auto split: Option.bind_splits)
    let ?w = "(set_conn f (Some conn') w)\<lparr>sv_k := k\<rparr>"
    have "x = modify_client sys f (kClientEvents OR EPOLLOUT) ?w \<or> x = (False, ?w) \<or> fl sys f conn' ?w = Some x"
      using step.hyps True c by (auto simp: Let_def split: sum.splits if_splits)
    then have "keeps_jobs ?w (snd x)"
      using step.IH [of sys f conn' ?w x] modify_client_jobs [of sys f "kClientEvents OR EPOLLOUT" ?w "fst x" "snd x"] by auto
    then show ?thesis using keeps_jobs_trans [of w ?w "snd x"] by simp
  qed
qed

lemma flush_client_jobs: "flush_client_output sys f w = Some (ok, w') \<Longrightarrow> keeps_jobs w w'"
  using flush_conn_loop_jobs [of sys f _ w "(ok, w')"] by (auto simp: flush_client_output_def split: option.splits)

lemma close_when_flushed_jobs: "keeps_jobs (snd s) (snd (close_when_flushed sys f s))"
  by (simp add: close_when_flushed_def split: option.split)

lemma handle_done_event_jobs:
  assumes "world_ok (snd s)" and "handle_done_event strerror sys ev s = Some s'"
  shows "keeps_jobs (snd s) (snd s') \<and> \<not> sv_inflight (snd s') (ev_client_fd ev)"
proof (cases "client_conn (ev_client_fd ev) (snd s)")
  case None
  then have "s' = s" "\<not> sv_inflight (snd s) (ev_client_fd ev)" using assms by (auto simp: handle_done_event_def world_ok_def)
  then show ?thesis by simp
next
  case (Some conn)
  define f where "f = ev_client_fd ev"
  define w1 where "w1 = (snd s)\<lparr>sv_inflight := (sv_inflight (snd s))(f := False)\<rparr>"
  have k1: "keeps_jobs (snd s) w1" "\<not> sv_inflight w1 f" by (simp_all add: w1_def keeps_jobs_def)
  have "keeps_jobs w1 (snd s')"
  proof (cases "\<not> ev_ok ev \<and> ev_is_connect ev \<and> is_expected_connect_shutdown_errno (ev_err ev)")
    case True
    then have "s' = close_client sys f (fst s, w1)" using assms(2) Some by (simp add: handle_done_event_def f_def w1_def Let_def)
    then show ?thesis using close_client_jobs [of "(fst s, w1)" sys f] by simp
  next
    case False
    define reply where "reply = (if ev_ok ev then ev_response ev else build_service_unavailable_response (strerror (ev_err ev)))"
    from assms(2) Some False obtain ok w2 where
      fl: "flush_client_output sys f (set_conn f (Some (conn_queue_write reply conn)) w1) = Some (ok, w2)"
      and s': "s' = (if \<not> ok then close_client sys f (fst s, w2)
        else if \<not> ev_ok ev \<or> ev_close_after_done ev then close_when_flushed sys f (fst s, w2)
        else refresh_client_timeout sys f (fst s, w2))"
      by (auto simp: handle_done_event_def f_def w1_def reply_def Let_def split: Option.bind_splits)
    have "keeps_jobs w1 w2" using flush_client_jobs [OF fl] by (simp add: keeps_jobs_def)
    moreover have "keeps_jobs w2 (snd s')"
      using close_client_jobs [of "(fst s, w2)" sys f] close_when_flushed_jobs [of "(fst s, w2)" sys f] refresh_jobs [of "(fst s, w2)" sys f]
      by (simp add: s')
    ultimately show ?thesis by (rule keeps_jobs_trans)
  qed
  then show ?thesis using keeps_jobs_trans [OF k1(1)] k1(2) by (auto simp: keeps_jobs_def f_def)
qed

text \<open>The loop over the finished jobs leaves no finished job behind.\<close>

lemma done_loop_jobs:
  "done_loop strerror sys s = Some s' \<Longrightarrow> server_wf s \<Longrightarrow> jobs_are run (snd s) ts us evs \<Longrightarrow> jobs_are run (snd s') ts us []"
proof (induction evs arbitrary: s)
  case Nil
  then have "try_pop (sv_done (snd s)) = Some (None, sv_done (snd s))" by (intro tq.pop_none) (simp add: jobs_are_def queued_def)
  then have "s' = s" using Nil.prems(1) by (subst (asm) done_loop.simps) (cases s, auto)
  then show ?case using Nil.prems(3) by simp
next
  case (Cons ev evs)
  have repr: "tq_repr (sv_done (snd s)) (ev # evs)" using Cons.prems(3) by (simp add: jobs_are_def queued_def)
  obtain q where q: "try_pop (sv_done (snd s)) = Some (Some ev, q)" "tq_repr q evs" using tq.pop_first [OF repr] by blast
  let ?s1 = "(fst s, (snd s)\<lparr>sv_done := q\<rparr>)"
  have wf: "server_wf ?s1" using Cons.prems(2) by simp
  obtain s2 where h: "handle_done_event strerror sys ev ?s1 = Some s2" "done_loop strerror sys s2 = Some s'"
    using Cons.prems(1) q(1) by (subst (asm) done_loop.simps) (auto split: Option.bind_splits)
  have wf2: "server_wf s2" by (rule handle_done_event_wf [OF wf h(1)])
  have "keeps_jobs (snd ?s1) (snd s2) \<and> \<not> sv_inflight (snd s2) (ev_client_fd ev)"
    using wf h(1) by (intro handle_done_event_jobs) (simp_all add: server_wf_def)
  then have "jobs_are run (snd s2) ts us evs"
    using Cons.prems(3) q(2) by (auto simp: jobs_are_def keeps_jobs_def queued_def outstanding_def)
  from Cons.IH [OF h(2) wf2 this] show ?case .
qed

lemma submit_jobs:
  assumes "alloc_law sys" and "jobs_are run w ts us evs" and "submit_proxy_job sys f req (w\<lparr>sv_inflight := (sv_inflight w)(f := True)\<rparr>) = Some (ok, w')"
  shows "jobs_ok run w'"
proof -
  let ?w = "w\<lparr>sv_inflight := (sv_inflight w)(f := True)\<rparr>" and ?c = "ri_is_connect req"
  have q: "queued ?w ts us evs" using assms(2) by (simp add: jobs_are_def)
  note eff = submit_effect [OF assms(1) q refl, of req f]
  show ?thesis
  proof (cases "has_room (pool_of ?c ?w) (jobs_of ?c ts us)")
    case True
    then obtain tp where "w' = set_pool ?c tp ?w" "pool_repr tp (jobs_of ?c ts us @ [(f, req)])" using eff assms(3) by auto
    then have "jobs_are run w' (if ?c then ts else ts @ [(f, req)]) (if ?c then us @ [(f, req)] else us) evs"
      using assms(2) by (auto simp: jobs_are_def queued_def outstanding_def set_pool_def jobs_of_def split: if_splits)
    then show ?thesis unfolding jobs_ok_def by blast
  next
    case False
    then obtain qd where "w' = notify_reactor sys (?w\<lparr>sv_done := qd\<rparr>)" "tq_repr qd (evs @ [refusal f req])" using eff assms(3) by auto
    then have "jobs_are run w' ts us (evs @ [refusal f req])"
      using assms(2) by (auto simp: jobs_are_def queued_def outstanding_def refusal_def)
    then show ?thesis unfolding jobs_ok_def by blast
  qed
qed

lemma handle_client_jobs:
  assumes "alloc_law sys" and "jobs_ok run w" and "handle_client execute start sys f w = Some (ok, w')"
  shows "jobs_ok run w'"
proof -
  have "keeps_jobs w w' \<or> (\<exists>w3 req b. keeps_jobs w w3 \<and>
      submit_proxy_job sys f req (w3\<lparr>sv_inflight := (sv_inflight w3)(f := True)\<rparr>) = Some (b, w'))"
  proof (cases "client_conn f w")
    case (Some conn)
    show ?thesis
    proof (cases "f < sv_size w \<and> sv_inflight w f")
      case False
      with assms(3) Some obtain r c1 k where rd: "conn_read_from_socket (sys_recv (ss_io sys)) conn (sv_k w) = Some (r, c1, k)"
        by (auto simp: handle_client_def split: Option.bind_splits)
      define w1 where "w1 = (set_conn f (Some c1) w)\<lparr>sv_k := k\<rparr>"
      have k1: "keeps_jobs w w1" by (simp add: w1_def)
      show ?thesis
      proof (cases r)
        case (Inl e)
        then show ?thesis using assms(3) Some False rd k1 by (auto simp: handle_client_def w1_def)
      next
        case (Inr n)
        with assms(3) Some False rd obtain ok2 c2 where ps: "parse_available_data execute c1 = Some (ok2, c2)"
          by (auto simp: handle_client_def split: Option.bind_splits)
        define w3 where "w3 = set_conn f (Some (conn_reset_for_next_message start c2)) (set_conn f (Some c2) w1)"
        have "keeps_jobs w w3" using k1 by (simp add: w3_def)
        then show ?thesis
          using assms(3) Some False rd Inr ps k1
          by (auto simp: handle_client_def Let_def w1_def [symmetric] w3_def [symmetric] split: if_splits Option.bind_splits)
      qed
    qed (use assms(3) Some in \<open>simp add: handle_client_def\<close>)
  qed (use assms(3) in \<open>simp add: handle_client_def\<close>)
  then show ?thesis
  proof
    assume "keeps_jobs w w'"
    then show ?thesis using assms(2) keeps_jobs_ok by blast
  next
    assume "\<exists>w3 req b. keeps_jobs w w3 \<and> submit_proxy_job sys f req (w3\<lparr>sv_inflight := (sv_inflight w3)(f := True)\<rparr>) = Some (b, w')"
    then obtain w3 req b where w3: "keeps_jobs w w3" "submit_proxy_job sys f req (w3\<lparr>sv_inflight := (sv_inflight w3)(f := True)\<rparr>) = Some (b, w')"
      by blast
    obtain ts us evs where "jobs_are run w ts us evs" using assms(2) by (auto simp: jobs_ok_def)
    then show ?thesis using submit_jobs [OF assms(1) keeps_jobs_are [OF _ w3(1)] w3(2)] by blast
  qed
qed

lemma accept_client_jobs:
  assumes "accept_client start sys f ip s = Some s'"
  shows "keeps_jobs (snd s) (snd s')"
proof -
  have "keeps_jobs (snd v) (snd (install_client start sys f v))" for v
    using refresh_jobs [of "(fst v, (set_conn f (Some (http_conn_new start f)) (snd v))\<lparr>sv_k := destroy_conn sys (sv_connections (snd v) f) (sv_k (snd v))\<rparr>)" sys f]
    by (simp add: install_client_def Let_def keeps_jobs_def)
  from this [of "(fst s, (snd s)\<lparr>sv_k := k\<rparr>)" for k] show ?thesis
    using assms by (auto simp: accept_client_def Let_def keeps_jobs_def split: if_splits prod.splits sum.splits)
qed

lemma accept_loop_jobs: "accept_loop start sys s = Some s' \<Longrightarrow> keeps_jobs (snd s) (snd s')"
proof (induction start sys s s' rule: accept_loop.raw_induct [rotated 1, consumes 1, case_names step])
  case (step loop start sys s s')
  obtain r k where a: "ss_accept sys (so_fd (sv_server_socket (snd s))) (sv_k (snd s)) = (r, k)" by (rule prod.exhaust)
  let ?s1 = "(fst s, (snd s)\<lparr>sv_k := k\<rparr>)"
  have k1: "keeps_jobs (snd s) (snd ?s1)" by simp
  have "keeps_jobs (snd ?s1) (snd s')"
  proof (cases r)
    case (Inl e)
    then show ?thesis using step.hyps a step.IH [of start sys ?s1 s'] by (auto split: if_splits)
  next
    case (Inr peer)
    with step.hyps a obtain s2 where h: "accept_client start sys (fst peer) (snd peer) ?s1 = Some s2" "loop start sys s2 = Some s'"
      by (auto split: Option.bind_splits)
    then show ?thesis using keeps_jobs_trans [OF accept_client_jobs [OF h(1)] step.IH [OF h(2)]] by simp
  qed
  then show ?case using keeps_jobs_trans [OF k1] by simp
qed

lemma client_writable_jobs:
  assumes "client_writable sys f s = Some (b, s')"
  shows "keeps_jobs (snd s) (snd s')"
proof -
  from assms obtain ok w where fl: "flush_client_output sys f (snd s) = Some (ok, w)"
    by (auto simp: client_writable_def split: Option.bind_splits)
  have "s' = (fst s, w) \<or> s' = close_client sys f (fst s, w)"
    using assms by (simp add: client_writable_def fl split: if_splits)
  then show ?thesis
    using keeps_jobs_trans [OF flush_client_jobs [OF fl] close_client_jobs [of "(fst s, w)" sys f, simplified]] flush_client_jobs [OF fl] by auto
qed

lemma client_readable_jobs:
  assumes "alloc_law sys" and "jobs_ok run (snd s)" and "client_readable execute start sys f s = Some s'"
  shows "jobs_ok run (snd s')"
proof -
  from assms(3) obtain ok w where h: "handle_client execute start sys f (snd s) = Some (ok, w)"
    and s': "s' = (if ok then (fst s, w) else close_client sys f (fst s, w))"
    by (auto simp: client_readable_def split: Option.bind_splits)
  have "jobs_ok run w" by (rule handle_client_jobs [OF assms(1,2) h])
  then show ?thesis using keeps_jobs_ok [OF _ close_client_jobs [of "(fst s, w)" sys f]] by (simp add: s')
qed

lemma handle_client_event_jobs:
  assumes "alloc_law sys" and "jobs_ok run (snd s)" and "handle_client_event execute start sys f ev s = Some s'"
  shows "jobs_ok run (snd s')"
proof (cases "ev AND (EPOLLERR OR EPOLLHUP OR EPOLLRDHUP) = 0")
  case False
  then have "s' = close_client sys f s" using assms(3) by (simp add: handle_client_event_def)
  then show ?thesis using keeps_jobs_ok [OF assms(2)] by simp
next
  case True
  define s1 where "s1 = (if ev AND (EPOLLIN OR EPOLLOUT) \<noteq> 0 then refresh_client_timeout sys f s else s)"
  have j1: "jobs_ok run (snd s1)" using keeps_jobs_ok [OF assms(2) refresh_jobs [of s sys f]] assms(2) by (simp add: s1_def)
  define out where "out = (if ev AND EPOLLOUT \<noteq> 0 then client_writable sys f s1 else Some (True, s1))"
  have "handle_client_event execute start sys f ev s = do {
       (continues, s2) \<leftarrow> out;
       (if continues \<and> ev AND EPOLLIN \<noteq> 0 then client_readable execute start sys f s2 else Some s2) }"
    using True by (simp add: handle_client_event_def s1_def out_def)
  then obtain b s2 where o: "out = Some (b, s2)" and s': "(if b \<and> ev AND EPOLLIN \<noteq> 0 then client_readable execute start sys f s2 else Some s2) = Some s'"
    using assms(3) by (auto split: Option.bind_splits)
  have "jobs_ok run (snd s2)" using o j1 keeps_jobs_ok [OF j1 client_writable_jobs [of sys f s1 b s2]] by (auto simp: out_def split: if_splits)
  then show ?thesis using s' client_readable_jobs [OF assms(1), of run s2 execute start f s'] by (auto split: if_splits)
qed

lemma handle_event_jobs:
  assumes "alloc_law sys" and "server_wf s" and "jobs_ok run (snd s)" and "handle_event execute start strerror sys e s = Some s'"
  shows "jobs_ok run (snd s')"
proof -
  consider "accept_loop start sys s = Some s'" | "drain_proxy_done_events strerror sys s = Some s'"
    | "handle_client_event execute start sys (fst e) (snd e) s = Some s'"
    using assms(4) by (auto simp: handle_event_def split: if_splits)
  then show ?thesis
  proof cases
    case 1
    then show ?thesis using keeps_jobs_ok [OF assms(3) accept_loop_jobs] by blast
  next
    case 2
    then obtain k where k: "done_loop strerror sys (fst s, (snd s)\<lparr>sv_k := k\<rparr>) = Some s'"
      by (auto simp: drain_proxy_done_events_def split: Option.bind_splits if_splits)
    obtain ts us evs where "jobs_are run (snd s) ts us evs" using assms(3) by (auto simp: jobs_ok_def)
    then have "jobs_are run (snd s') ts us []"
      using done_loop_jobs [OF k, of run ts us evs] assms(2) keeps_jobs_are [of run "snd s" ts us evs "(snd s)\<lparr>sv_k := k\<rparr>"] by simp
    then show ?thesis by (auto simp: jobs_ok_def)
  next
    case 3
    then show ?thesis by (rule handle_client_event_jobs [OF assms(1,3)])
  qed
qed

lemma handle_events_jobs:
  "alloc_law sys \<Longrightarrow> server_wf s \<Longrightarrow> jobs_ok run (snd s) \<Longrightarrow> handle_events execute start strerror sys es s = Some s' \<Longrightarrow> jobs_ok run (snd s')"
proof (induction es arbitrary: s)
  case (Cons e es)
  from Cons.prems(4) obtain s1 where h: "handle_event execute start strerror sys e s = Some s1" "handle_events execute start strerror sys es s1 = Some s'"
    by (auto split: Option.bind_splits)
  show ?case by (rule Cons.IH [OF Cons.prems(1) handle_event_wf [OF Cons.prems(2) h(1)] handle_event_jobs [OF Cons.prems(1-3) h(1)] h(2)])
qed simp

lemma tick_jobs:
  assumes "server_wf (t, w)" and "keeps_jobs v w"
  shows "\<exists>s'. tick (read_clock sys) (on_client_timeout sys) (t, w) = Some s' \<and> keeps_jobs v (snd s')"
proof -
  have "timer_wf t" "tc.owned t" using assms timer_ok_owned by (auto simp: server_wf_def)
  then show ?thesis using assms(2)
  proof (induction t w rule: tc.tick_induct [where sys = sys])
    case (Done t w)
    then show ?case by auto
  next
    case (Later t w n h)
    then show ?case using keeps_jobs_trans [OF _ read_clock_jobs] by auto
  next
    case (Fire t w n h e t' w')
    have "keeps_jobs (snd (read_clock sys w)) w'"
      using Fire.hyps(8) on_client_timeout_jobs
        [of "((discard_stale_top t)\<lparr>ti_entries := AList.delete (tn_id n) (ti_entries (discard_stale_top t)), ti_heap := h\<rparr>, snd (read_clock sys w))" sys]
      by (cases "te_callback e") (auto simp: tc.fired_def dest!: arg_cong [where f = snd])
    then have "keeps_jobs v w'" using keeps_jobs_trans [OF keeps_jobs_trans [OF Fire.prems read_clock_jobs]] by blast
    then show ?case by (rule Fire.IH)
  qed
qed

lemma server_iteration_jobs:
  assumes "alloc_law sys" and "server_wf s" and "jobs_ok run (snd s)" and "server_iteration execute start strerror sys s = Some s'"
  shows "jobs_ok run (snd s')"
proof -
  obtain s1 s2 k where p: "tick (read_clock sys) (on_client_timeout sys) s = Some s1" "server_wf s1"
      "fst s2 = discard_stale_top (fst s1)" "snd s2 = snd s1 \<or> snd s2 = snd (read_clock sys (snd s1))"
    and s': "s' = (fst s2, (snd s2)\<lparr>sv_k := k\<rparr>) \<or> (\<exists>evs s4. handle_events execute start strerror sys evs (fst s2, (snd s2)\<lparr>sv_k := k\<rparr>) = Some s4 \<and>
        tick (read_clock sys) (on_client_timeout sys) s4 = Some s')"
    using server_iteration_parts [OF assms(2,4)] by blast
  have j1: "jobs_ok run (snd s1)"
    using tick_jobs [of "fst s" "snd s" "snd s" sys] assms(2) p(1) keeps_jobs_ok [OF assms(3), of "snd s1"] by auto
  have "keeps_jobs (snd s1) (snd s2)" using p(4) by auto
  then have j: "jobs_ok run ((snd s2)\<lparr>sv_k := k\<rparr>)" by (intro keeps_jobs_ok [OF j1]) simp
  have wf: "server_wf (fst s2, (snd s2)\<lparr>sv_k := k\<rparr>)"
    using p server_wf_discard [of "fst s1" "snd s1"] server_wf_clock [of "discard_stale_top (fst s1)" "snd s1" sys] by auto
  show ?thesis using s'
  proof
    assume "\<exists>evs s4. handle_events execute start strerror sys evs (fst s2, (snd s2)\<lparr>sv_k := k\<rparr>) = Some s4 \<and>
        tick (read_clock sys) (on_client_timeout sys) s4 = Some s'"
    then obtain evs s4 where h: "handle_events execute start strerror sys evs (fst s2, (snd s2)\<lparr>sv_k := k\<rparr>) = Some s4"
      "tick (read_clock sys) (on_client_timeout sys) s4 = Some s'" by blast
    have "jobs_ok run (snd s4)" using handle_events_jobs [OF assms(1) wf _ h(1)] j by simp
    then show ?thesis
      using tick_jobs [of "fst s4" "snd s4" "snd s4" sys] handle_events_wf [OF wf h(1)] h(2) keeps_jobs_ok [of run "snd s4" "snd s'"] by auto
  qed (use j in simp)
qed

text \<open>A task on its way through a worker stays outstanding.\<close>

lemma take_task_jobs:
  assumes "jobs_ok run w" and "take_task c w = Some (Some task, w')"
  shows "jobs_ok (task # run) w'"
proof -
  obtain ts us evs where j: "jobs_are run w ts us evs" using assms(1) by (auto simp: jobs_ok_def)
  have r: "pool_repr (pool_of c w) (jobs_of c ts us)" using j by (intro queued_pool) (auto simp: jobs_are_def)
  show ?thesis
  proof (cases "jobs_of c ts us")
    case Nil
    then show ?thesis using assms(2) r by (auto simp: take_task_def dest: pop_task_none)
  next
    case (Cons u vs)
    then obtain tp where "pop_task (pool_of c w) = Some (Some u, tp)" "pool_repr tp vs" using pop_task_first r by metis
    then have "jobs_are (task # run) w' (if c then ts else vs) (if c then vs else us) evs"
      using assms(2) j Cons by (auto simp: take_task_def jobs_are_def queued_def outstanding_def set_pool_def jobs_of_def split: if_splits)
    then show ?thesis unfolding jobs_ok_def by blast
  qed
qed

lemma finish_task_jobs:
  assumes "alloc_law sys" and "jobs_ok (as @ task # bs) w" and "finish_task execute start sys e0 task w = Some w'"
  shows "jobs_ok (as @ bs) w'"
proof -
  obtain ts us evs where j: "jobs_are (as @ task # bs) w ts us evs" using assms(2) by (auto simp: jobs_ok_def)
  from assms(3) obtain ev s where e: "proxy_task_event execute start (ss_io sys) task (Ps e0 (sv_k w)) = Some (ev, s)"
    "push_done sys ev (w\<lparr>sv_k := ps_k s\<rparr>) = Some w'"
    by (auto simp: finish_task_def split: Option.bind_splits)
  have ev: "ev_client_fd ev = fst task" "ev_close_after_done ev"
    using e(1) by (auto simp: proxy_task_event_def split: prod.splits Option.bind_splits)
  have "queued (w\<lparr>sv_k := ps_k s\<rparr>) ts us evs" using j by (simp add: jobs_are_def)
  then obtain q where "w' = notify_reactor sys (w\<lparr>sv_k := ps_k s, sv_done := q\<rparr>)" "tq_repr q (evs @ [ev])"
    using push_done_appends [OF assms(1), of "w\<lparr>sv_k := ps_k s\<rparr>" ts us evs ev] e(2) by auto
  then have "jobs_are (as @ bs) w' ts us (evs @ [ev])" using j ev by (auto simp: jobs_are_def queued_def outstanding_def)
  then show ?thesis unfolding jobs_ok_def by blast
qed

section \<open>Reachable states\<close>

text \<open>The states after a successful start-up, iterations of the reactor, and workers that take and finish tasks. The last
  argument is the list of the tasks that have been taken and not finished.\<close>

inductive reachable ::
  "llhttp_execute \<Rightarrow> nat \<Rightarrow> (errno \<Rightarrow> string) \<Rightarrow> ('a, 'k) server_sys \<Rightarrow> ('d, 'k) server \<Rightarrow> ('d, 'k) server \<Rightarrow> proxy_task list \<Rightarrow> bool"
  for execute start strerror sys s0 where
  started: "listen_setup sys read_file open_db (snd s0) = Some (True, w) \<Longrightarrow> reachable execute start strerror sys s0 (fst s0, w) []"
| reactor: "reachable execute start strerror sys s0 s run \<Longrightarrow> server_iteration execute start strerror sys s = Some s' \<Longrightarrow>
    reachable execute start strerror sys s0 s' run"
| takes: "reachable execute start strerror sys s0 (t, w) run \<Longrightarrow> take_task c w = Some (Some task, w') \<Longrightarrow>
    reachable execute start strerror sys s0 (t, w') (task # run)"
| finishes: "reachable execute start strerror sys s0 (t, w) (as @ task # bs) \<Longrightarrow> finish_task execute start sys e0 task w = Some w' \<Longrightarrow>
    reachable execute start strerror sys s0 (t, w') (as @ bs)"

lemma reachable_wf:
  assumes "reachable execute start strerror sys (hpserver_new hw addrs port pw tw pq tq po k) s run"
  shows "server_wf s"
  using assms
proof (induction rule: reachable.induct)
  case (started read_file open_db w)
  then show ?case
    using listen_setup_wf [OF started] by (auto simp: hpserver_new_def Let_def split: prod.splits)
next
  case (reactor s run s')
  then show ?case by (blast intro: server_iteration_wf)
next
  case (takes t w run c task w')
  then show ?case by (blast intro: keeps_clients_wf take_task_keeps)
next
  case (finishes t w as task bs e0 w')
  then show ?case by (blast intro: keeps_clients_wf finish_task_keeps)
qed

lemma listen_setup_queues:
  assumes "listen_setup sys read_file open_db w = Some (ok, w')"
  shows "sv_proxy_pool w' = sv_proxy_pool w \<and> sv_tunnel_pool w' = sv_tunnel_pool w \<and> sv_done w' = sv_done w \<and> sv_inflight w' = (\<lambda>_. False)"
  using assms
  by (auto simp: listen_setup_def server_init_def init_cache_db_def init_proxy_async_def Let_def
      split: Option.bind_splits prod.splits sum.splits if_splits)

lemma started_jobs:
  assumes "listen_setup sys read_file open_db (snd (hpserver_new hw addrs port pw tw pq tq po k)) = Some (True, w)"
  shows "jobs_are [] w [] [] []"
  using listen_setup_queues [OF assms]
  by (simp add: jobs_are_def queued_def hpserver_new_def Let_def pool_repr_new tq_repr_new split: prod.splits)

lemma reachable_jobs:
  assumes "reachable execute start strerror sys (hpserver_new hw addrs port pw tw pq tq po k) s run" and "alloc_law sys"
  shows "jobs_ok run (snd s)"
  using assms(1)
proof (induction rule: reachable.induct)
  case (started read_file open_db w)
  then show ?case using started_jobs [OF started] by (auto simp: jobs_ok_def)
next
  case (reactor s run s')
  then show ?case using server_iteration_jobs [OF assms(2) reachable_wf] by blast
next
  case (takes t w run c task w')
  then show ?case using take_task_jobs [of run w c task w'] by simp
next
  case (finishes t w as task bs e0 w')
  then show ?case using finish_task_jobs [OF assms(2), of as task bs w] by simp
qed

definition demo_server_sys :: "(unit, demo_kernel) server_sys" where
  "demo_server_sys =
     \<lparr>ss_io = demo_sys, ss_accept = (\<lambda>f k. (Inl EAGAIN, k)), ss_get_flags = (\<lambda>f k. (Inr 0, k)), ss_set_flags = (\<lambda>f fl k. (Inr (), k)),
      ss_socket = (\<lambda>k. (Inr 7, k)), ss_reuse_address = (\<lambda>f k. k), ss_bind = (\<lambda>f p k. (Inr 0, k)), ss_listen = (\<lambda>f k. (Inr 0, k)),
      ss_eventfd = (\<lambda>k. (Inr 8, k)), ss_read_event = (\<lambda>f k. (False, k)), ss_write_event = (\<lambda>f k. k), ss_clock = (\<lambda>k. (0, k)),
      ss_malloc = (\<lambda>S k. Suc (Max (insert 0 S)))\<rparr>"

lemma demo_alloc: "alloc_law demo_server_sys"
proof -
  have "Suc (Max (insert 0 S)) \<notin> S" if "finite S" for S
  proof
    assume "Suc (Max (insert 0 S)) \<in> S"
    then have "Suc (Max (insert 0 S)) \<le> Max (insert 0 S)" using that by (intro Max_ge) auto
    then show False by linarith
  qed
  then show ?thesis by (simp add: alloc_law_def demo_server_sys_def)
qed

definition demo_server :: "(unit, demo_kernel) server" where
  "demo_server = hpserver_new 4 (0, 0, 0) 8080 0 0 0 0 \<lparr>po_epoll_fd = 3\<rparr> (ps_k (demo_boot [] []))"

lemma demo_reachable: "\<exists>w. reachable echo_execute 0 (\<lambda>e. []) demo_server_sys demo_server (timer_new, w) [] \<and> sv_size w = MAX_FD"
proof -
  have "\<exists>w. listen_setup demo_server_sys (\<lambda>_. None) (\<lambda>_. Some ()) (snd demo_server) = Some (True, w) \<and> sv_size w = MAX_FD"
    by (simp add: listen_setup_def server_init_def init_cache_db_def init_proxy_async_def demo_server_def hpserver_new_def
        demo_server_sys_def demo_sys_def Let_def ip_filter_init_def blacklist_path_def cache_open_def l2_open_def http_cache_new_def
        set_nonblocking_def socket_bind_def socket_listen_def reported_def socket_open_def poller_add_def poller_control_def)
  then obtain w where "listen_setup demo_server_sys (\<lambda>_. None) (\<lambda>_. Some ()) (snd demo_server) = Some (True, w)" "sv_size w = MAX_FD" by blast
  moreover have "fst demo_server = timer_new" by (simp add: demo_server_def hpserver_new_def Let_def)
  ultimately show ?thesis using started [of demo_server_sys "\<lambda>_. None" "\<lambda>_. Some ()" demo_server w] by auto
qed

section \<open>Properties of every run\<close>

text \<open>C1. The bookkeeping of the reactor is consistent in every reachable state, whatever clients, upstreams and system calls do: exactly
  the connected clients have an idle timer, so none is forgotten; a connection owns the descriptor it is stored under;
  only a connection is marked as having a request in flight or as waiting to be closed; and every timer entry has its
  node in the heap.\<close>

theorem server_bookkeeping:
  assumes "reachable execute start strerror sys (hpserver_new hw addrs port pw tw pq tq po k) s run"
  shows "(\<forall>f. timer_contains f (fst s) \<longleftrightarrow> client_conn f (snd s) \<noteq> None) \<and>
    (\<forall>f c. client_conn f (snd s) = Some c \<longrightarrow> io_fd (hc_io c) = f) \<and>
    (\<forall>f. sv_inflight (snd s) f \<or> sv_close_after_flush (snd s) f \<longrightarrow> client_conn f (snd s) \<noteq> None) \<and> timer_wf (fst s)"
  using reachable_wf [OF assms] by (auto simp: server_wf_def world_ok_def timer_ok_def)

theorem server_bookkeeping_witness:
  "\<exists>w. reachable echo_execute 0 (\<lambda>e. []) demo_server_sys demo_server (timer_new, w) [] \<and> timer_wf (timer_new :: fd timer) \<and>
     (\<forall>f. timer_contains f (timer_new :: fd timer) \<longleftrightarrow> client_conn f w \<noteq> None)"
proof -
  obtain w where w: "reachable echo_execute 0 (\<lambda>e. []) demo_server_sys demo_server (timer_new, w) []" using demo_reachable by blast
  from server_bookkeeping [OF w [unfolded demo_server_def]] w show ?thesis by auto
qed




end
