(* ===== verification/Server_Requests.thy ===== *)
theory Server_Requests
  imports Server_Runs
begin

text \<open>
  The way of one request through \<^verbatim>\<open>src/hpserver.cpp\<close>: from the bytes a client sent to a job, from the job to a finished one,
  from there to the bytes the client is sent; the refusal of blocked clients; and what happens to a response whose client
  has gone.
\<close>

lemma close_client_out:
  assumes "kernel_law (ss_io sys) ob"
  shows "ob_out ob (sv_k (snd (close_client sys f s))) = ob_out ob (sv_k (snd s))"
proof -
  have q: "quiet_law (ss_io sys) ob" and o: "open_law (ss_io sys) ob" using assms by (simp_all add: kernel_law_def)
  have cl: "ob_out ob (fold (sys_close (ss_io sys)) fs k) = ob_out ob k" for fs k
    using o by (induction fs arbitrary: k) (simp_all add: open_law_def)
  have rm: "ob_out ob (snd (poller_remove (sys_epoll_ctl (ss_io sys)) f p k)) = ob_out ob k" for p k
    using poller_same(3) [OF q, of k f p] by (simp add: same_obs_def)
  have ds: "ob_out ob (destroy_conn sys c k) = ob_out ob k" for c k by (simp add: destroy_conn_def cl split: option.split)
  show ?thesis by (simp add: close_client_def Let_def rm ds)
qed

lemma queued_fd: "io_fd (hc_io (conn_queue_write d c)) = io_fd (hc_io c)"
  and queued_write: "ci_write (hc_io (conn_queue_write d c)) = ci_write (hc_io c) @ d"
  and queued_offset: "ci_offset (hc_io (conn_queue_write d c)) = ci_offset (hc_io c)"
  by (simp_all add: conn_queue_write_def queue_write_def)

text \<open>A connection with only \<open>d\<close> to be written, on a socket that accepts everything, gets \<open>d\<close>.\<close>

lemma modify_client_obs:
  assumes "kernel_law (ss_io sys) ob"
  shows "\<exists>ok k. modify_client sys f ev v = (ok, v\<lparr>sv_k := k\<rparr>) \<and> ob_out ob k = ob_out ob (sv_k v)"
proof -
  have q: "quiet_law (ss_io sys) ob" using assms by (simp add: kernel_law_def)
  obtain r k where k: "poller_modify (sys_epoll_ctl (ss_io sys)) f ev (sv_poller v) (sv_k v) = (r, k)" by (rule prod.exhaust)
  have "same_obs ob (sv_k v) (snd (poller_modify (sys_epoll_ctl (ss_io sys)) f ev (sv_poller v) (sv_k v)))"
    using quiet_lawD [OF q] by (simp add: poller_modify_def poller_control_def)
  then have "ob_out ob k = ob_out ob (sv_k v)" using k by (simp add: same_obs_def)
  then show ?thesis using k by - (rule exI [of _ "\<not> isl r"], rule exI [of _ k], cases r, simp_all add: modify_client_def)
qed

lemma accepted_flush:
  assumes law: "kernel_law (ss_io sys) ob" and acc: "\<forall>d k. fst (sys_send (ss_io sys) f d k) = Sent (length d)"
    and conn: "client_conn f w = Some conn" "io_fd (hc_io conn) = f" "ci_write (hc_io conn) = d" "ci_offset (hc_io conn) = 0"
  shows "\<exists>ok k c. flush_client_output sys f w = Some (ok, (set_conn f (Some c) w)\<lparr>sv_k := k\<rparr>) \<and> \<not> conn_has_pending_write c \<and>
    ob_out ob k = (ob_out ob (sv_k w))(f := ob_out ob (sv_k w) f @ d)"
proof (cases "d = []")
  case True
  then have np: "\<not> conn_has_pending_write conn" using conn by (simp add: conn_has_pending_write_def has_pending_write_def)
  then have "flush_client_output sys f w = Some (modify_client sys f kClientEvents w)"
    using conn by (simp add: flush_client_output_def flush_conn_loop.simps)
  moreover have "set_conn f (Some conn) w = w"
    using conn(1) by (simp add: set_conn_def client_conn_def fun_upd_idem split: if_splits)
  ultimately show ?thesis using modify_client_obs [OF law, of f kClientEvents w] True np
    by (auto) (metis (no_types, lifting))
next
  case False
  obtain k where k: "sys_send (ss_io sys) f d (sv_k w) = (Sent (length d), k)" using acc by (metis prod.collapse)
  have out: "ob_out ob k = (ob_out ob (sv_k w))(f := ob_out ob (sv_k w) f @ d)"
    using law k unfolding kernel_law_def send_law_def by fastforce
  define c where "c = conn\<lparr>hc_io := (hc_io conn)\<lparr>ci_write := [], ci_offset := 0\<rparr>\<rparr>"
  have np: "\<not> conn_has_pending_write c" by (simp add: conn_has_pending_write_def has_pending_write_def c_def)
  have "0 \<le> f" using client_conn_range [of f w] conn(1) by simp
  then have fl: "conn_flush_to_socket (sys_send (ss_io sys)) conn (sv_k w) = Some (Inr (int (length d)), c, k)"
    using False conn k
    by (simp add: conn_flush_to_socket_def flush_to_socket_def io_valid_def c_def flush_loop.simps flush_done_def)
  define w1 where "w1 = (set_conn f (Some c) w)\<lparr>sv_k := k\<rparr>"
  have "flush_conn_loop sys f conn w = flush_conn_loop sys f c w1"
    using False conn by (subst flush_conn_loop.simps) (simp add: conn_has_pending_write_def has_pending_write_def fl w1_def)
  also have "\<dots> = Some (modify_client sys f kClientEvents w1)" using np by (subst flush_conn_loop.simps) simp
  finally show ?thesis
    using modify_client_obs [OF law, of f kClientEvents w1] out conn(1) np
    by (auto simp: flush_client_output_def w1_def)
qed

definition done_reply :: "(errno \<Rightarrow> string) \<Rightarrow> proxy_done_event \<Rightarrow> string" where
  "done_reply strerror ev = (if ev_ok ev then ev_response ev else build_service_unavailable_response (strerror (ev_err ev)))"

text \<open>What handling a finished job comes to for a client that has nothing else to be written.\<close>

lemma event_delivered:
  assumes law: "kernel_law (ss_io sys) ob" and acc: "\<forall>d k. fst (sys_send (ss_io sys) f d k) = Sent (length d)"
    and wf: "world_ok (snd s)" and conn: "client_conn f (snd s) = Some conn" "ci_write (hc_io conn) = []" "ci_offset (hc_io conn) = 0"
    and ev: "ev_client_fd ev = f" "ev_close_after_done ev" "ev_ok ev \<or> \<not> ev_is_connect ev"
  shows "\<exists>s'. handle_done_event strerror sys ev s = Some s' \<and> fst s' = Timer.remove f (fst s) \<and> client_conn f (snd s') = None \<and>
    \<not> sv_inflight (snd s') f \<and> sv_done (snd s') = sv_done (snd s) \<and>
    ob_out ob (sv_k (snd s')) = (ob_out ob (sv_k (snd s)))(f := ob_out ob (sv_k (snd s)) f @ done_reply strerror ev)"
proof -
  have sz: "sv_size (snd s) = MAX_FD" and fd: "io_fd (hc_io conn) = f" using wf conn(1) by (simp_all add: world_ok_def)
  have f: "0 \<le> f" "f < MAX_FD" using client_conn_range [of f "snd s"] conn(1) by simp_all
  define w where "w = set_conn f (Some (conn_queue_write (done_reply strerror ev) conn))
    ((snd s)\<lparr>sv_inflight := (sv_inflight (snd s))(f := False)\<rparr>)"
  have cw: "client_conn f w = Some (conn_queue_write (done_reply strerror ev) conn)" using f sz by (simp add: w_def)
  obtain ok k c where fl: "flush_client_output sys f w = Some (ok, (set_conn f (Some c) w)\<lparr>sv_k := k\<rparr>)" "\<not> conn_has_pending_write c"
    "ob_out ob k = (ob_out ob (sv_k w))(f := ob_out ob (sv_k w) f @ done_reply strerror ev)"
    using accepted_flush [OF law acc cw, of "done_reply strerror ev"] fd conn(2,3) by (auto simp: queued_fd queued_write queued_offset)
  let ?s = "(fst s, (set_conn f (Some c) w)\<lparr>sv_k := k\<rparr>)"
  have sz': "sv_size (snd ?s) = MAX_FD" using sz by (simp add: w_def)
  have cc: "client_conn f (snd ?s) = Some c" using f sz by (simp add: w_def)
  have "handle_done_event strerror sys ev s =
      (case flush_client_output sys f w of None \<Rightarrow> None
       | Some (ok, w2) \<Rightarrow> Some (if ok then close_when_flushed sys f (fst s, w2) else close_client sys f (fst s, w2)))"
    using ev conn(1) by (auto simp: handle_done_event_def Let_def w_def done_reply_def split: option.split)
  then have "handle_done_event strerror sys ev s = Some (close_client sys f ?s)"
    using fl(1,2) cc by (auto simp: close_when_flushed_def)
  moreover have "sv_k w = sv_k (snd s)" "sv_done (snd ?s) = sv_done (snd s)" by (simp_all add: w_def)
  ultimately show ?thesis
    using fl(3) f by (simp add: close_client_conn [OF sz'] close_client_flags [OF sz'] close_client_out [OF law])
qed


lemma demo_wf: "\<exists>s. server_wf (s :: (unit, demo_kernel) server)"
proof -
  obtain w where "reachable echo_execute 0 (\<lambda>e. []) demo_server_sys demo_server (timer_new, w) []" using demo_reachable by blast
  from reachable_wf [OF this [unfolded demo_server_def]] show ?thesis by blast
qed

lemma demo_io [simp]: "ss_io demo_server_sys = demo_sys"
  by (simp add: demo_server_sys_def)

lemma demo_accepts: "\<forall>d k. fst (sys_send (ss_io demo_server_sys) f d k) = Sent (length d)"
  by (simp add: demo_sys_def)


lemma reject_loop_sends:
  assumes law: "kernel_law (ss_io sys) ob" and fin: "finite_law (ss_io sys) m"
  shows "\<exists>k' n. reject_loop sys f d k = Some k' \<and> adds_out ob f (take n d) k k'"
proof (induction "(m k, length d)" arbitrary: k d rule: wf_induct_rule [OF wf_lex_prod [OF wf_less_than wf_less_than]])
  case 1
  show ?case
  proof (cases "d = []")
    case True
    then show ?thesis by (subst reject_loop.simps) simp
  next
    case False
    obtain r k1 where r: "sys_send (ss_io sys) f d k = (r, k1)" by (rule prod.exhaust)
    have sl: "case r of Sent n \<Rightarrow> n \<le> length d \<and> adds_out ob f (take n d) k k1 | Send_failed e \<Rightarrow> same_obs ob k k1"
      using law r unfolding kernel_law_def send_law_def by (fastforce simp: adds_out_def same_obs_def split: send_result.splits)
    have m: "m k1 \<le> m k" "r = Send_failed EINTR \<longrightarrow> m k1 < m k" using fin r by (auto simp: finite_law_def)
    show ?thesis
    proof (cases r)
      case (Sent n)
      show ?thesis
      proof (cases "n = 0")
        case True
        then show ?thesis using Sent sl r False by (subst reject_loop.simps) (auto intro!: exI [of _ 0])
      next
        case n: False
        then obtain k' j where k': "reject_loop sys f (drop n d) k1 = Some k'" "adds_out ob f (take j (drop n d)) k1 k'"
          using 1 [of k1 "drop n d"] m(1) False by (auto simp: le_less)
        then have "adds_out ob f (take (n + j) d) k k'" using sl Sent by (auto simp: adds_out_def take_add)
        then show ?thesis using k'(1) Sent r False n by (subst reject_loop.simps) auto
      qed
    next
      case (Send_failed e)
      show ?thesis
      proof (cases "e = EINTR")
        case True
        then obtain k' n where k': "reject_loop sys f d k1 = Some k'" "adds_out ob f (take n d) k1 k'"
          using 1 [of k1 d] m(2) Send_failed by auto
        then have "adds_out ob f (take n d) k k'" using sl Send_failed by (auto simp: adds_out_def same_obs_def)
        then show ?thesis using k'(1) Send_failed r False True by (subst reject_loop.simps) auto
      next
        case e: False
        then show ?thesis using Send_failed sl r False by (subst reject_loop.simps) (auto intro!: exI [of _ 0])
      qed
    qed
  qed
qed

text \<open>C29. A blocked peer never becomes a client: accepting it returns, changes nothing but the kernel, sends it at most the refusal
  and closes its descriptor.\<close>

theorem blocked_client_refused:
  assumes "kernel_law (ss_io sys) ob" and "finite_law (ss_io sys) m" and "is_blocked client_ip (sv_ip_filter (snd s))"
  shows "\<exists>k n. accept_client start sys f client_ip s = Some (fst s, (snd s)\<lparr>sv_k := k\<rparr>) \<and> f \<notin> ob_open ob k \<and>
    ob_out ob k = (ob_out ob (sv_k (snd s)))(f := ob_out ob (sv_k (snd s)) f @ take n (build_forbidden_response ''client ip is blocked''))"
proof -
  obtain k n where k: "reject_loop sys f (build_forbidden_response ''client ip is blocked'') (sv_k (snd s)) = Some k"
    "adds_out ob f (take n (build_forbidden_response ''client ip is blocked'')) (sv_k (snd s)) k"
    using reject_loop_sends [OF assms(1,2)] by blast
  have "ob_open ob (sys_close (ss_io sys) f k) = ob_open ob k - {f} \<and> ob_out ob (sys_close (ss_io sys) f k) = ob_out ob k"
    using assms(1) by (simp add: kernel_law_def open_law_def)
  then show ?thesis
    using k assms(3) by - (rule exI [of _ "sys_close (ss_io sys) f k"], rule exI [of _ n],
      simp add: accept_client_def reject_blacklisted_client_def adds_out_def)
qed

theorem blocked_client_refused_witness:
  "\<exists>k n. accept_client 0 demo_server_sys 5 77 (timer_new, (snd demo_server)\<lparr>sv_ip_filter := add_ip 77 (ip_filter_new 8)\<rparr>) =
       Some (timer_new, (snd demo_server)\<lparr>sv_ip_filter := add_ip 77 (ip_filter_new 8), sv_k := k\<rparr>) \<and> 5 \<notin> set (dk_open k) \<and>
     dk_out k 5 = dk_out (sv_k (snd demo_server)) 5 @ take n (build_forbidden_response ''client ip is blocked'')"
proof -
  have law: "kernel_law (ss_io demo_server_sys) demo_obs" "finite_law (ss_io demo_server_sys) demo_events"
    by (simp_all add: demo_kernel_law demo_finite_law)
  have "is_blocked 77 (add_ip 77 (ip_filter_new 8))" by (simp add: is_blocked_add_ip [OF ip_filter_wf_new])
  with blocked_client_refused [OF law, of 77 "(timer_new, (snd demo_server)\<lparr>sv_ip_filter := add_ip 77 (ip_filter_new 8)\<rparr>)" 0 5]
  obtain k n where "accept_client 0 demo_server_sys 5 77 (timer_new, (snd demo_server)\<lparr>sv_ip_filter := add_ip 77 (ip_filter_new 8)\<rparr>) =
      Some (timer_new, (snd demo_server)\<lparr>sv_ip_filter := add_ip 77 (ip_filter_new 8), sv_k := k\<rparr>)" "5 \<notin> set (dk_open k)"
    "dk_out k 5 = dk_out (sv_k (snd demo_server)) 5 @ take n (build_forbidden_response ''client ip is blocked'')"
    by (auto simp: demo_obs_def)
  then show ?thesis by blast
qed

text \<open>Waking the reactor does not touch sockets.\<close>

definition handover_law :: "('a, 'k) server_sys \<Rightarrow> 'k obs \<Rightarrow> bool" where
  "handover_law sys ob \<longleftrightarrow> (\<forall>f k. same_obs ob k (ss_write_event sys f k))"

lemma notify_obs: "handover_law sys ob \<Longrightarrow> same_obs ob (sv_k w) (sv_k (notify_reactor sys w))"
  by (simp add: handover_law_def notify_reactor_def)

text \<open>C4. A complete request becomes exactly one job. When the bytes read complete a request, \<open>handle_client\<close> returns with the client
  marked as having a request in flight and its parser ready for the next message; the parsed request has been appended to
  the pool for its kind, or, when that pool has no room, an \<open>EAGAIN\<close> failure to the finished jobs. Until the job is
  reported, further input of the client is neither read nor parsed.\<close>

theorem request_becomes_one_job:
  assumes "world_ok w" and "alloc_law sys" and "client_conn f w = Some conn" and "\<not> sv_inflight w f"
    and "conn_read_from_socket (sys_recv (ss_io sys)) conn (sv_k w) = Some (Inr n, conn1, k)"
    and "parse_available_data execute conn1 = Some (True, conn2)" and "is_message_complete (hc_parser conn2)"
    and "req = rp_request (hc_parser conn2)" and "c = ri_is_connect req" and "queued w ts us evs"
  shows "\<exists>w'. handle_client execute start sys f w = Some (True, w') \<and> sv_inflight w' f \<and>
    client_conn f w' = Some (conn_reset_for_next_message start conn2) \<and>
    (if has_room (pool_of c w) (jobs_of c ts us)
     then pool_repr (pool_of c w') (jobs_of c ts us @ [(f, req)]) \<and> sv_done w' = sv_done w
     else pool_of c w' = pool_of c w \<and> tq_repr (sv_done w') (evs @ [refusal f req])) \<and>
    handle_client execute start sys f w' = Some (True, w')"
proof -
  have sz: "sv_size w = MAX_FD" using assms(1) by (simp add: world_ok_def)
  have f: "0 \<le> f" "f < MAX_FD" using client_conn_range [of f w] assms(3) by simp_all
  define w3 where "w3 = (let v = set_conn f (Some (conn_reset_for_next_message start conn2))
    (set_conn f (Some conn2) ((set_conn f (Some conn1) w)\<lparr>sv_k := k\<rparr>)) in v\<lparr>sv_inflight := (sv_inflight v)(f := True)\<rparr>)"
  have w3: "pool_of c w3 = pool_of c w" "sv_done w3 = sv_done w" "sv_inflight w3 f" "queued w3 ts us evs"
    "client_conn f w3 = Some (conn_reset_for_next_message start conn2)"
    using sz f assms(10) by (simp_all add: w3_def Let_def)
  have hc: "handle_client execute start sys f w = map_option (\<lambda>(_, w4). (True, w4)) (submit_proxy_job sys f req w3)"
    using assms(3-8) by (simp add: handle_client_def w3_def Let_def map_option_case case_prod_beta split: option.split)
  have again: "handle_client execute start sys f w' = Some (True, w')"
    if "sv_inflight w' f" "client_conn f w' = Some (conn_reset_for_next_message start conn2)" for w'
    using that by (auto simp: handle_client_def client_conn_def split: if_splits)
  note eff = submit_effect [OF assms(2) w3(4) assms(9), of f]
  show ?thesis
  proof (cases "has_room (pool_of c w) (jobs_of c ts us)")
    case True
    then obtain tp where "submit_proxy_job sys f req w3 = Some (True, set_pool c tp w3)" "pool_repr tp (jobs_of c ts us @ [(f, req)])"
      using eff w3(1) by auto
    then show ?thesis using hc w3 True again [of "set_pool c tp w3"] by simp
  next
    case False
    then obtain q where "submit_proxy_job sys f req w3 = Some (False, notify_reactor sys (w3\<lparr>sv_done := q\<rparr>))" "tq_repr q (evs @ [refusal f req])"
      using eff w3(1) by auto
    then show ?thesis using hc w3 False again [of "notify_reactor sys (w3\<lparr>sv_done := q\<rparr>)"] by simp
  qed
qed

lemma forward_request_no_trace:
  assumes "kernel_law sys ob" and "forward_request execute start sys req s = Some (ok, resp, e, s')"
  shows "no_trace ob (ps_k s) (ps_k s')"
  using assms(2) forward_loop_obs [OF assms(1)]
  by (fastforce simp: forward_request_def Let_def no_trace_def keeps_open_def split: if_splits)

lemma no_trace_out: "no_trace ob k k' \<Longrightarrow> g \<in> ob_open ob k \<Longrightarrow> ob_out ob k' g = ob_out ob k g"
  by (simp add: no_trace_def keeps_open_def)


definition demo_world :: "fd \<Rightarrow> recv_result list \<Rightarrow> (unit, demo_kernel) world" where
  "demo_world f rs = (snd demo_server)\<lparr>sv_size := MAX_FD, sv_connections := [f \<mapsto> http_conn_new 0 f], sv_k := ps_k (demo_boot rs [])\<rparr>"

lemma demo_world_ok: "world_ok (demo_world f rs)"
  by (auto simp: world_ok_def demo_world_def client_conn_def demo_server_def hpserver_new_def Let_def http_conn_new_def
      http_connection_io_new_def socket_ops_of_def split: if_splits)

lemma demo_world_queued: "queued (demo_world f rs) [] [] []" "has_room (pool_of False (demo_world f rs)) []"
  by (simp_all add: demo_world_def queued_def pool_of_def demo_server_def hpserver_new_def Let_def has_room_def pool_repr_new tq_repr_new)
    (simp add: normalize_proxy_workers_def normalize_proxy_queue_size_def default_proxy_worker_count_def kTasksPerProxyWorker_def
      thread_pool_new_def max_def)

lemma demo_read: "conn_read_from_socket (sys_recv demo_sys) (http_conn_new 0 5) (sv_k (demo_world 5 [Received ''x'', Recv_failed EAGAIN])) =
  Some (Inr 1, (http_conn_new 0 5)\<lparr>hc_io := (hc_io (http_conn_new 0 5))\<lparr>ci_read := ''x''\<rparr>\<rparr>,
    (sv_k (demo_world 5 []))\<lparr>dk_in := (\<lambda>_. [])(5 := ''x'')\<rparr>)"
  by (simp add: conn_read_from_socket_def read_from_socket_def read_loop.simps demo_sys_def demo_world_def demo_boot_def io_valid_def
      http_conn_new_def http_connection_io_new_def socket_ops_of_def)

lemma demo_request_parse:
  "\<exists>conn2. parse_available_data echo_execute ((http_conn_new 0 5)\<lparr>hc_io := (hc_io (http_conn_new 0 5))\<lparr>ci_read := ''x''\<rparr>\<rparr>) = Some (True, conn2) \<and>
     is_message_complete (hc_parser conn2) \<and> \<not> ri_is_connect (rp_request (hc_parser conn2))"
  by (simp add: parse_available_data_def parse_def echo_execute_def http_conn_new_def http_request_parser_new_def has_parse_error_def
      on_message_complete_cb_def is_message_complete_def on_message_begin_cb_def clear_request_runtime_def on_body_cb_def
      request_info_empty_def http_connection_io_new_def Let_def)

lemma demo_client: "client_conn 5 (demo_world 5 rs) = Some (http_conn_new 0 5)" "client_conn 0 (demo_world 0 rs) = Some (http_conn_new 0 0)"
    "\<not> sv_inflight (demo_world f rs) g" "sv_k (demo_world f rs) = ps_k (demo_boot rs [])"
  by (simp_all add: demo_world_def client_conn_def MAX_FD_def demo_server_def hpserver_new_def Let_def)

theorem request_becomes_one_job_witness:
  "\<exists>w' req. handle_client echo_execute 0 demo_server_sys 5 (demo_world 5 [Received ''x'', Recv_failed EAGAIN]) = Some (True, w') \<and>
     sv_inflight w' 5 \<and> pool_repr (sv_proxy_pool w') [(5, req)]"
proof -
  let ?w = "demo_world 5 [Received ''x'', Recv_failed EAGAIN]"
  obtain conn2 where c2: "parse_available_data echo_execute ((http_conn_new 0 5)\<lparr>hc_io := (hc_io (http_conn_new 0 5))\<lparr>ci_read := ''x''\<rparr>\<rparr>) =
      Some (True, conn2)" "is_message_complete (hc_parser conn2)" "\<not> ri_is_connect (rp_request (hc_parser conn2))" using demo_request_parse by blast
  have c: "False = ri_is_connect (rp_request (hc_parser conn2))" using c2(3) by simp
  obtain w' where "handle_client echo_execute 0 demo_server_sys 5 ?w = Some (True, w')" "sv_inflight w' 5"
    "pool_repr (pool_of False w') [(5, rp_request (hc_parser conn2))]"
    using request_becomes_one_job [OF demo_world_ok demo_alloc demo_client(1,3) demo_read [folded demo_io] c2(1,2) refl c demo_world_queued(1), of 0]
      demo_world_queued(2) by (auto simp: jobs_of_def)
  then show ?thesis by (auto simp: pool_of_def)
qed

lemma demo_handover: "handover_law demo_server_sys demo_obs"
  by (simp add: handover_law_def demo_server_sys_def)


end
