(* ===== verification/Server_Progress.thy ===== *)
theory Server_Progress
  imports Server_Runs
begin

text \<open>
  The server never gets stuck: when the environment produces finitely many events, every loop of the reactor and of the
  workers ends, and no step of a run fails.
\<close>

section \<open>What the environment must do\<close>

text \<open>Beside the laws for the calls of the proxy: a connection that is accepted, an interruption and a read of the event
  counter each use up an event, and the other calls do not add any.\<close>

definition server_finite_law :: "('a, 'k) server_sys \<Rightarrow> ('k \<Rightarrow> nat) \<Rightarrow> bool" where
  "server_finite_law sys m \<longleftrightarrow> finite_law (ss_io sys) m \<and>
     (\<forall>f k r k'. ss_accept sys f k = (r, k') \<longrightarrow> m k' \<le> m k \<and> (r = Inl EINTR \<or> \<not> isl r \<longrightarrow> m k' < m k)) \<and>
     (\<forall>f k again k'. ss_read_event sys f k = (again, k') \<longrightarrow> m k' \<le> m k \<and> (again \<longrightarrow> m k' < m k)) \<and>
     (\<forall>f k. m (snd (ss_get_flags sys f k)) \<le> m k) \<and> (\<forall>f fl k. m (snd (ss_set_flags sys f fl k)) \<le> m k) \<and>
     (\<forall>k. m (snd (ss_clock sys k)) \<le> m k)"

text \<open>The automaton reports an error that has a name and requests with a method that has a name.\<close>

definition names_known :: "llhttp_execute \<Rightarrow> bool" where
  "names_known execute \<longleftrightarrow> (\<forall>p d evs err ll. execute p d = (evs, err, ll) \<longrightarrow> llhttp_errno_name err \<noteq> None \<and>
     (\<forall>l. Headers_complete l \<in> set evs \<longrightarrow> llhttp_method_name (unat (ll_method l)) \<noteq> None))"

section \<open>Reading, parsing and flushing\<close>

lemma on_events_returns:
  "\<forall>l. Headers_complete l \<in> set evs \<longrightarrow> llhttp_method_name (unat (ll_method l)) \<noteq> None \<Longrightarrow> \<exists>q. on_events evs p = Some q"
proof (induction evs arbitrary: p)
  case (Cons e evs)
  have "\<exists>q. on_event e p = Some q" using Cons.prems by (cases e) (auto simp: on_headers_complete_cb_def Let_def)
  then show ?case using Cons by auto
qed simp

lemma parse_returns:
  assumes "names_known execute"
  shows "\<exists>ok q. parse execute d p = Some (ok, q)"
proof -
  obtain evs err ll where e: "execute (rp_parser p) d = (evs, err, ll)" by (metis prod_cases3)
  then obtain n where n: "llhttp_errno_name err = Some n" using assms unfolding names_known_def by blast
  obtain q where "on_events evs p = Some q" using on_events_returns [of evs p] assms e unfolding names_known_def by blast
  then show ?thesis using e n by (auto simp: parse_def Let_def)
qed

lemma parse_available_returns:
  assumes "names_known execute"
  shows "\<exists>ok c'. parse_available_data execute c = Some (ok, c')"
  using parse_returns [OF assms, of "drop (hc_offset c) (ci_read (hc_io c))" "hc_parser c"] by (auto simp: parse_available_data_def)

lemma read_loop_returns:
  assumes "finite_law sys m"
  shows "\<exists>x. read_loop (sys_recv sys) t io k = Some x"
proof (induction "m k" arbitrary: t io k rule: less_induct)
  case less
  obtain r k1 where r: "sys_recv sys (io_fd io) kReadChunkSize k = (r, k1)" by (rule prod.exhaust)
  have "recv_event r \<longrightarrow> m k1 < m k" using assms r by (auto simp: finite_law_def)
  then show ?case using less [of k1] r by (subst read_loop.simps) (auto simp: recv_event_def split: recv_result.splits)
qed

lemma conn_read_returns:
  assumes "finite_law sys m"
  shows "\<exists>r c' k'. conn_read_from_socket (sys_recv sys) c k = Some (r, c', k')"
proof -
  obtain r io k' where "read_loop (sys_recv sys) 0 (hc_io c) k = Some (r, io, k')"
    using read_loop_returns [OF assms] by (metis prod_cases3)
  then show ?thesis by (simp add: conn_read_from_socket_def read_from_socket_def)
qed

text \<open>Every call that reports progress leaves less to be written.\<close>

definition unsent :: "http_connection_io \<Rightarrow> nat" where
  "unsent io = length (ci_write io) - ci_offset io"

lemma flush_loop_returns:
  "\<exists>r io' k'. flush_loop send t io k = Some (r, io', k') \<and> unsent io' \<le> unsent io \<and> (\<forall>n. r = Inr n \<longrightarrow> n \<noteq> t \<longrightarrow> unsent io' < unsent io)"
proof (induction "unsent io" arbitrary: t io k rule: less_induct)
  case less
  have fd: "unsent (flush_done io) \<le> unsent io" for io by (simp add: flush_done_def unsent_def)
  show ?case
  proof (cases "ci_offset io < length (ci_write io)")
    case False
    then show ?thesis using fd [of io] by (subst flush_loop.simps) auto
  next
    case True
    obtain r k1 where r: "send (io_fd io) (drop (ci_offset io) (ci_write io)) k = (r, k1)" by (rule prod.exhaust)
    show ?thesis
    proof (cases r)
      case (Send_failed e)
      then show ?thesis using r True fd [of io] by (subst flush_loop.simps) auto
    next
      case (Sent n)
      let ?io = "io\<lparr>ci_offset := ci_offset io + n\<rparr>"
      show ?thesis
      proof (cases "n > 0")
        case n: True
        then have "unsent ?io < unsent io" using True by (simp add: unsent_def)
        with less [of ?io "t + int n" k1] obtain r' io' k' where "flush_loop send (t + int n) ?io k1 = Some (r', io', k')" "unsent io' < unsent io"
          by (auto dest: le_less_trans)
        then show ?thesis using r True Sent n by (subst flush_loop.simps) auto
      qed (use r True Sent in \<open>subst flush_loop.simps, auto\<close>)
    qed
  qed
qed

lemma conn_flush_returns:
  "\<exists>r c' k'. conn_flush_to_socket send c k = Some (r, c', k') \<and> (\<forall>n. r = Inr n \<longrightarrow> n > 0 \<longrightarrow> unsent (hc_io c') < unsent (hc_io c))"
proof -
  obtain r io k' where "flush_loop send 0 (hc_io c) k = Some (r, io, k')" "\<forall>n. r = Inr n \<longrightarrow> n \<noteq> 0 \<longrightarrow> unsent io < unsent (hc_io c)"
    using flush_loop_returns [of send 0 "hc_io c" k] by blast
  then show ?thesis by (auto simp: conn_flush_to_socket_def flush_to_socket_def)
qed

lemma flush_conn_loop_returns: "\<exists>ok w'. flush_conn_loop sys f conn w = Some (ok, w')"
proof (induction "unsent (hc_io conn)" arbitrary: conn w rule: less_induct)
  case less
  obtain r c k where c: "conn_flush_to_socket (sys_send (ss_io sys)) conn (sv_k w) = Some (r, c, k)"
    "\<forall>n. r = Inr n \<longrightarrow> n > 0 \<longrightarrow> unsent (hc_io c) < unsent (hc_io conn)"
    using conn_flush_returns [of "sys_send (ss_io sys)" conn "sv_k w"] by blast
  have md: "\<exists>ok w'. Some (modify_client sys f ev v) = Some (ok, w')" for ev and v :: "('c, 'b) world" by (metis prod.exhaust)
  show ?case
    using c md less [of c "(set_conn f (Some c) w)\<lparr>sv_k := k\<rparr>"]
    by (subst flush_conn_loop.simps) (auto simp: Let_def split: sum.split)
qed

lemma flush_client_returns: "\<exists>ok w'. flush_client_output sys f w = Some (ok, w')"
  using flush_conn_loop_returns by (auto simp: flush_client_output_def split: option.split)

section \<open>The handlers\<close>

lemma reject_loop_returns:
  assumes "finite_law (ss_io sys) m"
  shows "\<exists>k'. reject_loop sys f d k = Some k' \<and> m k' \<le> m k"
proof (induction "(m k, length d)" arbitrary: k d rule: wf_induct_rule [OF wf_lex_prod [OF wf_less_than wf_less_than]])
  case 1
  obtain r k1 where r: "sys_send (ss_io sys) f d k = (r, k1)" by (rule prod.exhaust)
  have m: "m k1 \<le> m k" "r = Send_failed EINTR \<longrightarrow> m k1 < m k" using assms r by (auto simp: finite_law_def)
  show ?case
  proof (cases "d = []")
    case True
    then show ?thesis by (subst reject_loop.simps) simp
  next
    case d: False
    show ?thesis
    proof (cases r)
      case (Sent n)
      show ?thesis
      proof (cases "n > 0")
        case True
        then obtain k' where "reject_loop sys f (drop n d) k1 = Some k'" "m k' \<le> m k1"
          using 1 [of k1 "drop n d"] m(1) d by (auto simp: le_less)
        then show ?thesis using Sent r d True m(1) by (subst reject_loop.simps) auto
      qed (use Sent r d m(1) in \<open>subst reject_loop.simps, auto\<close>)
    next
      case (Send_failed e)
      show ?thesis
      proof (cases "e = EINTR")
        case True
        then obtain k' where "reject_loop sys f d k1 = Some k'" "m k' \<le> m k1" using 1 [of k1 d] m(2) Send_failed by auto
        then show ?thesis using Send_failed r d True m(1) by (subst reject_loop.simps) auto
      qed (use Send_failed r d m(1) in \<open>subst reject_loop.simps, auto\<close>)
    qed
  qed
qed

lemma destroy_conn_le:
  assumes "finite_law (ss_io sys) m"
  shows "m (destroy_conn sys c k) \<le> m k"
proof -
  have "m (fold (sys_close (ss_io sys)) fs k) \<le> m k" for fs k
    using finite_le(8) [OF assms] by (induction fs arbitrary: k) (auto intro: order_trans)
  then show ?thesis by (simp add: destroy_conn_def split: option.split)
qed

lemma refresh_le:
  assumes "server_finite_law sys m"
  shows "m (sv_k (snd (refresh_client_timeout sys f s))) \<le> m (sv_k (snd s))"
proof -
  obtain T k where k: "ss_clock sys (sv_k (snd s)) = (T, k)" by (rule prod.exhaust)
  have "m (snd (ss_clock sys (sv_k (snd s)))) \<le> m (sv_k (snd s))" using assms by (simp add: server_finite_law_def)
  then show ?thesis by (simp add: refresh_client_timeout_def read_clock_def k)
qed

lemma accept_client_returns:
  assumes "server_finite_law sys m"
  shows "\<exists>s'. accept_client start sys f ip s = Some s' \<and> m (sv_k (snd s')) \<le> m (sv_k (snd s))"
proof -
  have fin: "finite_law (ss_io sys) m" using assms by (simp add: server_finite_law_def)
  note close = finite_le(8) [OF fin]
  show ?thesis
  proof (cases "is_blocked ip (sv_ip_filter (snd s))")
    case True
    obtain k where k: "reject_loop sys f (build_forbidden_response ''client ip is blocked'') (sv_k (snd s)) = Some k" "m k \<le> m (sv_k (snd s))"
      using reject_loop_returns [OF fin] by blast
    then have "m (sys_close (ss_io sys) f k) \<le> m (sv_k (snd s))" using close [of f k] by linarith
    then show ?thesis using k(1) True by (simp add: accept_client_def reject_blacklisted_client_def)
  next
    case False
    obtain nb k1 where k1: "set_nonblocking sys f (sv_k (snd s)) = (nb, k1)" by (rule prod.exhaust)
    have m1: "m k1 \<le> m (sv_k (snd s))"
      using assms k1 unfolding server_finite_law_def set_nonblocking_def
      by (auto split: prod.splits sum.splits) (metis order_trans snd_conv)+
    define added where "added = (if nb then poller_add (sys_epoll_ctl (ss_io sys)) f kClientEvents (sv_poller (snd s)) k1 else (Inl 0, k1))"
    obtain r k2 where k2: "added = (r, k2)" by (rule prod.exhaust)
    have "m (snd added) \<le> m k1" using finite_le(3) [OF fin] by (simp add: added_def poller_add_def poller_control_def)
    then have m2: "m k2 \<le> m (sv_k (snd s))" using k2 m1 by simp
    have cl: "m (sys_close (ss_io sys) f k2) \<le> m (sv_k (snd s))" using close [of f k2] m2 by linarith
    have ins: "m (sv_k (snd (install_client start sys f (fst s, (snd s)\<lparr>sv_k := k2\<rparr>)))) \<le> m (sv_k (snd s))"
    proof -
      let ?w = "(set_conn f (Some (http_conn_new start f)) (snd s))\<lparr>sv_k := destroy_conn sys (sv_connections (snd s) f) k2\<rparr>"
      have "m (sv_k (snd (refresh_client_timeout sys f (fst s, ?w)))) \<le> m (sv_k ?w)" using refresh_le [OF assms, of f "(fst s, ?w)"] by simp
      also have "\<dots> \<le> m k2" using destroy_conn_le [OF fin] by simp
      finally show ?thesis using m2 by (simp add: install_client_def Let_def set_conn_def)
    qed
    show ?thesis using False k1 k2 cl ins
      by (cases r; cases "install_client start sys f (fst s, (snd s)\<lparr>sv_k := k2\<rparr>)") (auto simp: accept_client_def Let_def added_def [symmetric])
  qed
qed

lemma accept_loop_returns:
  assumes "server_finite_law sys m"
  shows "\<exists>s'. accept_loop start sys s = Some s'"
proof (induction "m (sv_k (snd s))" arbitrary: s rule: less_induct)
  case less
  obtain r k where a: "ss_accept sys (so_fd (sv_server_socket (snd s))) (sv_k (snd s)) = (r, k)" by (rule prod.exhaust)
  let ?s1 = "(fst s, (snd s)\<lparr>sv_k := k\<rparr>)"
  have m: "r = Inl EINTR \<or> \<not> isl r \<longrightarrow> m k < m (sv_k (snd s))" using assms a by (auto simp: server_finite_law_def)
  show ?case
  proof (cases r)
    case (Inl e)
    then show ?thesis using less [of ?s1] m a by (subst accept_loop.simps) auto
  next
    case (Inr peer)
    obtain s2 where s2: "accept_client start sys (fst peer) (snd peer) ?s1 = Some s2" "m (sv_k (snd s2)) \<le> m k"
      using accept_client_returns [OF assms, of start "fst peer" "snd peer" ?s1] by auto
    then show ?thesis using less [of s2] m a Inr by (subst accept_loop.simps) auto
  qed
qed

lemma read_event_loop_returns:
  assumes "server_finite_law sys m"
  shows "\<exists>k'. read_event_loop sys f k = Some k'"
proof (induction "m k" arbitrary: k rule: less_induct)
  case less
  obtain again k1 where r: "ss_read_event sys f k = (again, k1)" by (rule prod.exhaust)
  then have "again \<longrightarrow> m k1 < m k" using assms by (auto simp: server_finite_law_def)
  then show ?case using less [of k1] r by (subst read_event_loop.simps) auto
qed

lemma handle_done_event_returns: "\<exists>s'. handle_done_event strerror sys ev s = Some s'"
proof (cases "client_conn (ev_client_fd ev) (snd s)")
  case (Some conn)
  let ?reply = "if ev_ok ev then ev_response ev else build_service_unavailable_response (strerror (ev_err ev))"
  obtain ok w' where "flush_client_output sys (ev_client_fd ev) (set_conn (ev_client_fd ev) (Some (conn_queue_write ?reply conn))
      ((snd s)\<lparr>sv_inflight := (sv_inflight (snd s))(ev_client_fd ev := False)\<rparr>)) = Some (ok, w')"
    using flush_client_returns by blast
  then show ?thesis using Some by (simp only: handle_done_event_def Let_def option.case) (simp del: split_paired_Ex)
qed (simp add: handle_done_event_def)

lemma done_loop_returns: "tq_repr (sv_done (snd s)) evs \<Longrightarrow> server_wf s \<Longrightarrow> \<exists>s'. done_loop strerror sys s = Some s'"
proof (induction evs arbitrary: s)
  case Nil
  then show ?case using tq.pop_none [of "sv_done (snd s)"] by (subst done_loop.simps) simp
next
  case (Cons ev evs)
  obtain q where q: "try_pop (sv_done (snd s)) = Some (Some ev, q)" "tq_repr q evs" using tq.pop_first [OF Cons.prems(1)] by blast
  let ?s1 = "(fst s, (snd s)\<lparr>sv_done := q\<rparr>)"
  have wf: "server_wf ?s1" using Cons.prems(2) by simp
  obtain s2 where h: "handle_done_event strerror sys ev ?s1 = Some s2" using handle_done_event_returns by blast
  have "keeps_jobs (snd ?s1) (snd s2)" using handle_done_event_jobs [OF _ h] wf by (simp add: server_wf_def)
  then have "tq_repr (sv_done (snd s2)) evs" using q(2) by (simp add: keeps_jobs_def)
  from Cons.IH [OF this handle_done_event_wf [OF wf h]] show ?case using q(1) h by (subst done_loop.simps) simp
qed

lemma drain_returns:
  assumes "server_finite_law sys m" and "jobs_ok run (snd s)" and "server_wf s"
  shows "\<exists>s'. drain_proxy_done_events strerror sys s = Some s'"
proof -
  obtain evs where e: "tq_repr (sv_done (snd s)) evs" using assms(2) by (auto simp: jobs_ok_def jobs_are_def queued_def)
  have "\<exists>s'. done_loop strerror sys (fst s, (snd s)\<lparr>sv_k := k\<rparr>) = Some s'" for k
    using e assms(3) by (intro done_loop_returns [of _ evs]) simp_all
  moreover obtain k where "read_event_loop sys (sv_event_fd (snd s)) (sv_k (snd s)) = Some k" using read_event_loop_returns [OF assms(1)] by blast
  moreover have "\<exists>s'. done_loop strerror sys s = Some s'" using done_loop_returns [OF e assms(3)] .
  ultimately show ?thesis by (simp add: drain_proxy_done_events_def)
qed

lemma submit_returns:
  assumes "alloc_law sys" and "queued w ts us evs"
  shows "\<exists>ok w'. submit_proxy_job sys f req w = Some (ok, w')"
  using submit_effect [OF assms refl, of req f] by (auto split: if_splits)

lemma handle_client_returns:
  assumes "server_finite_law sys m" and "alloc_law sys" and "names_known execute" and "jobs_ok run w"
  shows "\<exists>ok w'. handle_client execute start sys f w = Some (ok, w')"
proof (cases "client_conn f w")
  case (Some conn)
  have fin: "finite_law (ss_io sys) m" using assms(1) by (simp add: server_finite_law_def)
  obtain r c1 k where rd: "conn_read_from_socket (sys_recv (ss_io sys)) conn (sv_k w) = Some (r, c1, k)"
    using conn_read_returns [OF fin] by blast
  obtain ok c2 where ps: "parse_available_data execute c1 = Some (ok, c2)" using parse_available_returns [OF assms(3)] by blast
  obtain ts us evs where q: "queued w ts us evs" using assms(4) by (auto simp: jobs_ok_def jobs_are_def)
  let ?w3 = "set_conn f (Some (conn_reset_for_next_message start c2)) (set_conn f (Some c2) ((set_conn f (Some c1) w)\<lparr>sv_k := k\<rparr>))"
  obtain b w4 where "submit_proxy_job sys f (rp_request (hc_parser c2)) (?w3\<lparr>sv_inflight := (sv_inflight ?w3)(f := True)\<rparr>) = Some (b, w4)"
    using submit_returns [OF assms(2), of "?w3\<lparr>sv_inflight := (sv_inflight ?w3)(f := True)\<rparr>" ts us evs f "rp_request (hc_parser c2)"] q by auto
  then show ?thesis using Some rd ps by (cases r) (auto simp: handle_client_def Let_def)
qed (auto simp: handle_client_def)

lemma client_writable_returns: "\<exists>b s'. client_writable sys f s = Some (b, s')"
proof -
  obtain ok w where "flush_client_output sys f (snd s) = Some (ok, w)" using flush_client_returns by blast
  then show ?thesis unfolding client_writable_def by (simp del: split_paired_Ex)  (metis)
qed

lemma handle_client_event_returns:
  assumes "server_finite_law sys m" and "alloc_law sys" and "names_known execute" and "jobs_ok run (snd s)"
  shows "\<exists>s'. handle_client_event execute start sys f ev s = Some s'"
proof -
  define s1 where "s1 = (if ev AND (EPOLLIN OR EPOLLOUT) \<noteq> 0 then refresh_client_timeout sys f s else s)"
  have j1: "jobs_ok run (snd s1)" using keeps_jobs_ok [OF assms(4) refresh_jobs [of s sys f]] assms(4) by (simp add: s1_def)
  obtain b s2 where b: "(if ev AND EPOLLOUT \<noteq> 0 then client_writable sys f s1 else Some (True, s1)) = Some (b, s2)"
    using client_writable_returns [of sys f s1] by (cases "ev AND EPOLLOUT = 0") auto
  then have "jobs_ok run (snd s2)" using j1 keeps_jobs_ok [OF j1 client_writable_jobs [of sys f s1 b s2]] by (auto split: if_splits)
  then obtain ok w where "handle_client execute start sys f (snd s2) = Some (ok, w)" using handle_client_returns [OF assms(1-3)] by blast
  then have "\<exists>s'. client_readable execute start sys f s2 = Some s'" by (simp add: client_readable_def del: split_paired_Ex)
  then show ?thesis
    unfolding handle_client_event_def Let_def s1_def [symmetric] using b by (simp del: split_paired_Ex)
qed

lemma handle_event_returns:
  assumes "server_finite_law sys m" and "alloc_law sys" and "names_known execute" and "server_wf s" and "jobs_ok run (snd s)"
  shows "\<exists>s'. handle_event execute start strerror sys e s = Some s'"
  using accept_loop_returns [OF assms(1), of start s] drain_returns [OF assms(1,5,4)] handle_client_event_returns [OF assms(1-3,5)]
  by (simp add: handle_event_def del: split_paired_Ex)

lemma handle_events_returns:
  assumes "server_finite_law sys m" and "alloc_law sys" and "names_known execute"
  shows "server_wf s \<Longrightarrow> jobs_ok run (snd s) \<Longrightarrow> \<exists>s'. handle_events execute start strerror sys es s = Some s'"
proof (induction es arbitrary: s)
  case (Cons e es)
  obtain s1 where h: "handle_event execute start strerror sys e s = Some s1" using handle_event_returns [OF assms Cons.prems] by blast
  from Cons.IH [OF handle_event_wf [OF Cons.prems(1) h] handle_event_jobs [OF assms(2) Cons.prems h]] h show ?case by simp
qed simp

lemma server_iteration_returns:
  assumes "server_finite_law sys m" and "alloc_law sys" and "names_known execute" and "server_wf s" and "jobs_ok run (snd s)"
  shows "\<exists>s'. server_iteration execute start strerror sys s = Some s'"
proof -
  obtain s1 where tk: "tick (read_clock sys) (on_client_timeout sys) s = Some s1" "server_wf s1"
    using tick_server_wf [of "fst s" "snd s" sys] assms(4) by auto
  have j1: "jobs_ok run (snd s1)"
    using tick_jobs [of "fst s" "snd s" "snd s" sys] assms(4) tk(1) keeps_jobs_ok [OF assms(5), of "snd s1"] by auto
  obtain ms s2 where nt: "get_next_timeout_ms (read_clock sys) (on_client_timeout sys) s = Some (ms, s2)"
    "s2 = (discard_stale_top (fst s1), snd s1) \<or> s2 = (discard_stale_top (fst s1), snd (read_clock sys (snd s1)))"
    using tk(1) by (cases s1) (fastforce simp: get_next_timeout_ms_def Let_def split: list.splits prod.splits)
  have wf2: "server_wf s2"
    using nt(2) tk(2) server_wf_discard [of "fst s1" "snd s1"] server_wf_clock [of "discard_stale_top (fst s1)" "snd s1" sys] by auto
  have j2: "jobs_ok run (snd s2)" using nt(2) j1 keeps_jobs_ok [OF j1 read_clock_jobs [of "snd s1" sys]] by auto
  obtain r k where w: "poller_wait (sys_epoll_wait (ss_io sys)) True MAX_EVENTS ms (sv_poller (snd s2)) (sv_k (snd s2)) = (r, k)"
    by (rule prod.exhaust)
  let ?s3 = "(fst s2, (snd s2)\<lparr>sv_k := k\<rparr>)"
  have wf3: "server_wf ?s3" using wf2 by simp
  have j3: "jobs_ok run (snd ?s3)" using keeps_jobs_ok [OF j2, of "(snd s2)\<lparr>sv_k := k\<rparr>"] by simp
  have "\<exists>s'. handle_events execute start strerror sys evs ?s3 \<bind> tick (read_clock sys) (on_client_timeout sys) = Some s'" for evs
  proof -
    obtain s4 where h: "handle_events execute start strerror sys evs ?s3 = Some s4"
      using handle_events_returns [OF assms(1-3) wf3 j3] by blast
    then show ?thesis using tick_server_wf [of "fst s4" "snd s4" sys] handle_events_wf [OF wf3 h] by auto
  qed
  then show ?thesis using nt(1) w by (cases r) (simp_all add: server_iteration_def del: split_paired_Ex)
qed

section \<open>The workers\<close>

lemma proxy_task_returns:
  assumes "finite_law sys m" and "regular execute"
  shows "\<exists>ev s'. proxy_task_event execute start sys task s = Some (ev, s')"
proof -
  obtain f req where t: "task = (f, req)" by (rule prod.exhaust)
  obtain ok e s1 where "forward_connect_tunnel sys f req s = Some (ok, e, s1)" using tunnel_total [OF assms(1)] by blast
  moreover obtain ok' resp e' s1' where "forward_request execute start sys req s = Some (ok', resp, e', s1')"
    using forward_loop_returns [OF assms, of start req "build_forward_proxy_request req" 2 0 "[]" s]
    by (cases "build_forward_proxy_request req = []") (auto simp: forward_request_def Let_def)
  ultimately show ?thesis by (simp add: proxy_task_event_def t)
qed

lemma finish_task_returns:
  assumes "server_finite_law sys m" and "alloc_law sys" and "regular execute" and "jobs_ok run w"
  shows "\<exists>w'. finish_task execute start sys e0 task w = Some w'"
proof -
  have fin: "finite_law (ss_io sys) m" using assms(1) by (simp add: server_finite_law_def)
  obtain ev s where e: "proxy_task_event execute start (ss_io sys) task (Ps e0 (sv_k w)) = Some (ev, s)"
    using proxy_task_returns [OF fin assms(3)] by blast
  obtain ts us evs where "queued (w\<lparr>sv_k := ps_k s\<rparr>) ts us evs" using assms(4) by (auto simp: jobs_ok_def jobs_are_def)
  then show ?thesis using push_done_appends [OF assms(2), of "w\<lparr>sv_k := ps_k s\<rparr>" ts us evs ev] e by (auto simp: finish_task_def)
qed

lemma take_task_returns:
  assumes "jobs_ok run w"
  shows "\<exists>r w'. take_task c w = Some (r, w')"
proof -
  obtain ts us evs where "queued w ts us evs" using assms by (auto simp: jobs_ok_def jobs_are_def)
  then have p: "pool_repr (pool_of c w) (jobs_of c ts us)" by (rule queued_pool)
  show ?thesis
  proof (cases "jobs_of c ts us")
    case Nil
    then show ?thesis using pop_task_none [of "pool_of c w"] p by (simp add: take_task_def)
  next
    case (Cons t vs)
    then show ?thesis using pop_task_first [of "pool_of c w" t vs] p by (auto simp: take_task_def)
  qed
qed

text \<open>C5. The server never gets stuck: in every reachable state, if the environment produces finitely many events, an iteration of the
  event loop returns, a worker of either pool can look for a task, and a task that has been taken is finished, so none of
  the nested loops over accepted connections, received chunks, pending output, finished jobs and expired timers runs
  forever and no queue is ever found broken.\<close>

theorem server_never_stuck:
  assumes "reachable execute start strerror sys (hpserver_new hw addrs port pw tw pq tq po k) s run"
    and "server_finite_law sys m" and "alloc_law sys" and "names_known execute" and "regular execute"
  shows "(\<exists>s'. server_iteration execute start strerror sys s = Some s') \<and>
    (\<exists>r w'. take_task c (snd s) = Some (r, w')) \<and>
    (\<exists>w'. finish_task execute start sys e0 task (snd s) = Some w')"
  using server_iteration_returns [OF assms(2-4) reachable_wf [OF assms(1)] reachable_jobs [OF assms(1,3)]]
    take_task_returns [OF reachable_jobs [OF assms(1,3)]] finish_task_returns [OF assms(2,3,5) reachable_jobs [OF assms(1,3)]]
  by blast

theorem server_never_stuck_witness:
  "\<exists>s s'. reachable echo_execute 0 (\<lambda>e. []) demo_server_sys demo_server s [] \<and>
     server_iteration echo_execute 0 (\<lambda>e. []) demo_server_sys s = Some s'"
proof -
  obtain w where w: "reachable echo_execute 0 (\<lambda>e. []) demo_server_sys demo_server (timer_new, w) []" using demo_reachable by blast
  have fin: "server_finite_law demo_server_sys demo_events"
    by (simp add: server_finite_law_def demo_server_sys_def EAGAIN_def EINTR_def demo_finite_law)
  have nm: "names_known echo_execute"
    by (simp add: names_known_def echo_execute_def HPE_OK_def llhttp_errno_name_def http_errno_map_def)
  from server_never_stuck [OF w [unfolded demo_server_def] fin demo_alloc nm echo_regular] w show ?thesis by blast
qed
end
