(* ===== verification/Main_Args.thy ===== *)
theory Main_Args
  imports Server_Runs
begin

text \<open>
  \<^verbatim>\<open>src/main.cpp\<close>: the command line and the start of the server. What is printed to the standard error stream before the
  program exits is part of the result. The arguments are C strings, so \<^verbatim>\<open>strcmp\<close> is equality.
\<close>

section \<open>The command line\<close>

record options =
  op_port :: int
  op_proxy_workers :: u32
  op_tunnel_workers :: u32
  op_proxy_queue_size :: u64
  op_tunnel_queue_size :: u64

definition default_options :: options where
  "default_options = \<lparr>op_port = DEFAULT_PORT, op_proxy_workers = 0, op_tunnel_workers = 0, op_proxy_queue_size = 0, op_tunnel_queue_size = 0\<rparr>"

definition print_usage :: "string \<Rightarrow> string" where
  "print_usage program = ''Usage: '' @ program @ '' [--port N] [--proxy-workers N] [--tunnel-workers N] '' @
     ''[--proxy-queue N] [--tunnel-queue N]'' @ [LF]"

definition parse_unsigned :: "string \<Rightarrow> u64 option" where
  "parse_unsigned s =
     (if s = [] then None
      else let r = strtoul s
           in if st_range r \<or> st_used r = 0 \<or> st_used r \<noteq> length s then None else Some (st_value r))"

text \<open>The branch for one argument \<open>arg\<close> with the value \<open>v\<close>, read as \<open>parsed\<close>.\<close>

definition apply_option :: "string \<Rightarrow> string \<Rightarrow> string \<Rightarrow> u64 \<Rightarrow> options \<Rightarrow> (int \<times> string) + options" where
  "apply_option program arg v parsed opts =
     (if arg = ''--port'' then
        if parsed = 0 \<or> parsed > 65535 then Inl (1, ''Port out of range: '' @ v @ [LF]) else Inr (opts\<lparr>op_port := uint parsed\<rparr>)
      else if arg = ''--proxy-workers'' then
        if parsed > 0xFFFFFFFF then Inl (1, ''proxy-workers out of range: '' @ v @ [LF]) else Inr (opts\<lparr>op_proxy_workers := ucast parsed\<rparr>)
      else if arg = ''--tunnel-workers'' then
        if parsed > 0xFFFFFFFF then Inl (1, ''tunnel-workers out of range: '' @ v @ [LF]) else Inr (opts\<lparr>op_tunnel_workers := ucast parsed\<rparr>)
      else if arg = ''--proxy-queue'' then
        if parsed > 0xFFFFFFFFFFFFFFFF then Inl (1, ''proxy-queue out of range: '' @ v @ [LF]) else Inr (opts\<lparr>op_proxy_queue_size := parsed\<rparr>)
      else if arg = ''--tunnel-queue'' then
        if parsed > 0xFFFFFFFFFFFFFFFF then Inl (1, ''tunnel-queue out of range: '' @ v @ [LF]) else Inr (opts\<lparr>op_tunnel_queue_size := parsed\<rparr>)
      else Inl (1, ''Unknown argument: '' @ arg @ [LF] @ print_usage program))"

text \<open>The loop over the arguments: the exit status and the output, or the options.\<close>

fun parse_args :: "string \<Rightarrow> string list \<Rightarrow> options \<Rightarrow> (int \<times> string) + options" where
  "parse_args program [] opts = Inr opts"
| "parse_args program (arg # rest) opts =
     (if arg = ''--help'' \<or> arg = ''-h'' then Inl (0, print_usage program)
      else case rest of
        [] \<Rightarrow> Inl (1, ''Missing value for argument: '' @ arg @ [LF] @ print_usage program)
      | v # rest' \<Rightarrow>
          (case parse_unsigned v of
             None \<Rightarrow> Inl (1, ''Invalid numeric value for '' @ arg @ '': '' @ v @ [LF])
           | Some parsed \<Rightarrow>
               (case apply_option program arg v parsed opts of Inl e \<Rightarrow> Inl e | Inr opts' \<Rightarrow> parse_args program rest' opts')))"

text \<open>\<^verbatim>\<open>main\<close>: it exits with a status and the output of the argument loop, fails to start the server and exits with status 1,
  or enters the event loop in the given state. \<open>None\<close> is an uncaught exception.\<close>

datatype ('d, 'k) main_outcome = Exits int string | Start_failed "('d, 'k) world" | Serving "('d, 'k) server"

definition main_program ::
  "u32 \<Rightarrow> addr \<times> addr \<times> addr \<Rightarrow> poller \<Rightarrow> ('a, 'k) server_sys \<Rightarrow> (string \<Rightarrow> string option) \<Rightarrow> (string \<Rightarrow> 'd option) \<Rightarrow>
   string \<Rightarrow> string list \<Rightarrow> 'k \<Rightarrow> ('d, 'k) main_outcome option" where
  "main_program hw addrs po sys read_file open_db program args k =
     (case parse_args program args default_options of
        Inl (status, out) \<Rightarrow> Some (Exits status out)
      | Inr opts \<Rightarrow>
          do {
            let server = hpserver_new hw addrs (op_port opts) (op_proxy_workers opts) (op_tunnel_workers opts)
              (op_proxy_queue_size opts) (op_tunnel_queue_size opts) po k;
            (ok, w) \<leftarrow> listen_setup sys read_file open_db (snd server);
            Some (if ok then Serving (fst server, w) else Start_failed w)
          })"

section \<open>Reading the command line\<close>

lemma strtoul_range:
  assumes "n \<ge> 2 ^ 64"
  shows "st_range (strtoul (to_string n))"
proof -
  obtain c cs where c: "to_string n = c # cs" by (cases "to_string n") simp_all
  then have d: "isdigit c" using to_string_digits [of c n] by simp
  have "takeWhile isspace (to_string n) = []" using c d by (simp add: isdigit_not_space)
  moreover have "(case to_string n of c # _ \<Rightarrow> c = CHR ''-'' \<or> c = CHR ''+'' | [] \<Rightarrow> False) = False"
    using c isdigit_not_sign [OF d] by simp
  ultimately show ?thesis using assms by (simp add: strtoul_def Let_def)
qed

lemma parse_unsigned_to_string: "parse_unsigned (to_string n) = (if n < 2 ^ 64 then Some (of_nat n) else None)"
  using strtoul_range [of n] by (auto simp: parse_unsigned_def strtoul_to_string Let_def)

text \<open>The options by name, and the numbers each of them takes.\<close>

datatype setting = Port | Proxy_workers | Tunnel_workers | Proxy_queue | Tunnel_queue

fun setting_name :: "setting \<Rightarrow> string" where
  "setting_name Port = ''--port''"
| "setting_name Proxy_workers = ''--proxy-workers''"
| "setting_name Tunnel_workers = ''--tunnel-workers''"
| "setting_name Proxy_queue = ''--proxy-queue''"
| "setting_name Tunnel_queue = ''--tunnel-queue''"

fun admits :: "setting \<Rightarrow> nat \<Rightarrow> bool" where
  "admits Port n \<longleftrightarrow> 1 \<le> n \<and> n \<le> 65535"
| "admits Proxy_workers n \<longleftrightarrow> n < 2 ^ 32"
| "admits Tunnel_workers n \<longleftrightarrow> n < 2 ^ 32"
| "admits Proxy_queue n \<longleftrightarrow> n < 2 ^ 64"
| "admits Tunnel_queue n \<longleftrightarrow> n < 2 ^ 64"

fun apply_setting :: "setting \<times> nat \<Rightarrow> options \<Rightarrow> options" where
  "apply_setting (Port, n) opts = opts\<lparr>op_port := int n\<rparr>"
| "apply_setting (Proxy_workers, n) opts = opts\<lparr>op_proxy_workers := of_nat n\<rparr>"
| "apply_setting (Tunnel_workers, n) opts = opts\<lparr>op_tunnel_workers := of_nat n\<rparr>"
| "apply_setting (Proxy_queue, n) opts = opts\<lparr>op_proxy_queue_size := of_nat n\<rparr>"
| "apply_setting (Tunnel_queue, n) opts = opts\<lparr>op_tunnel_queue_size := of_nat n\<rparr>"

definition command_line :: "(setting \<times> nat) list \<Rightarrow> string list" where
  "command_line xs = concat (map (\<lambda>(x, n). [setting_name x, to_string n]) xs)"

lemma apply_option_setting:
  assumes "n < 2 ^ 64"
  shows "if admits x n then apply_option program (setting_name x) v (of_nat n) opts = Inr (apply_setting (x, n) opts)
    else \<exists>msg. apply_option program (setting_name x) v (of_nat n) opts = Inl (1, msg)"
proof -
  have u: "unat (of_nat n :: u64) = n" using assms by (simp add: unat_of_nat take_bit_nat_eq_self)
  have port: "(of_nat n :: u64) = 0 \<longleftrightarrow> n = 0" "(of_nat n :: u64) > 65535 \<longleftrightarrow> n > 65535" "(of_nat n :: u64) > 0xFFFFFFFF \<longleftrightarrow> n \<ge> 2 ^ 32"
    using u by (auto simp: word_less_nat_alt unat_eq_0 [symmetric])
  have top: "\<not> (of_nat n :: u64) > 0xFFFFFFFFFFFFFFFF" using assms u by (simp add: word_less_nat_alt)
  have "uint (of_nat n :: u64) = int n" using u by (metis uint_nat)
  moreover have "(ucast (of_nat n :: u64) :: u32) = of_nat n" 
    using assms by (simp add: unsigned_of_nat take_bit_nat_eq_self)
  ultimately show ?thesis using assms port top by (cases x) (auto simp: apply_option_def)
qed

lemma setting_not_help: "setting_name x \<noteq> ''--help'' \<and> setting_name x \<noteq> ''-h''"
  by (cases x) simp_all

lemma parse_args_setting:
  "if admits x n then parse_args program (setting_name x # to_string n # rest) opts = parse_args program rest (apply_setting (x, n) opts)
   else \<exists>msg. parse_args program (setting_name x # to_string n # rest) opts = Inl (1, msg)"
proof (cases "n < 2 ^ 64")
  case True
  then show ?thesis using apply_option_setting [OF True, of x program "to_string n" opts] setting_not_help [of x] parse_unsigned_to_string [of n]
    by (auto split: if_splits)
next
  case False
  then have "\<not> admits x n" by (cases x) auto
  then show ?thesis using False setting_not_help [of x] parse_unsigned_to_string [of n] by simp
qed

lemma parse_args_settings:
  "\<forall>(x, n) \<in> set xs. admits x n \<Longrightarrow> parse_args program (command_line xs @ rest) opts = parse_args program rest (fold apply_setting xs opts)"
proof (induction xs arbitrary: opts)
  case (Cons a xs)
  obtain x n where a: "a = (x, n)" by (rule prod.exhaust)
  then show ?case using Cons parse_args_setting [of x n program "command_line xs @ rest" opts] by (simp add: command_line_def)
qed (simp add: command_line_def)

section \<open>Properties\<close>

text \<open>C31. The command line is read back as it was written: options with numbers they admit set exactly those values, the last one winning;
  the first option whose number is out of its range, however large, stops the program with status 1, whatever follows;
  and \<open>--help\<close> stops it with status 0.\<close>

theorem command_line_roundtrip:
  assumes "\<forall>(x, n) \<in> set xs. admits x n"
  shows "parse_args program (command_line xs) opts = Inr (fold apply_setting xs opts) \<and>
    (\<not> admits x n \<longrightarrow> (\<exists>msg. parse_args program (command_line xs @ [setting_name x, to_string n] @ rest) opts = Inl (1, msg))) \<and>
    parse_args program (command_line xs @ ''--help'' # rest) opts = Inl (0, print_usage program)"
proof -
  have "parse_args program (''--help'' # rest) (fold apply_setting xs opts) = Inl (0, print_usage program)" by simp
  moreover have "\<not> admits x n \<longrightarrow> (\<exists>msg. parse_args program (setting_name x # to_string n # rest) (fold apply_setting xs opts) = Inl (1, msg))"
    using parse_args_setting [of x n program rest "fold apply_setting xs opts"] by (simp del: parse_args.simps)
  ultimately show ?thesis using parse_args_settings [OF assms, of program "[]" opts] parse_args_settings [OF assms, of program _ opts]
    by (simp del: parse_args.simps(2))
qed

theorem command_line_roundtrip_witness:
  "parse_args ''hp'' [''--port'', to_string 9000, ''--proxy-queue'', to_string 7] default_options =
     Inr (default_options\<lparr>op_port := 9000, op_proxy_queue_size := 7\<rparr>) \<and>
   (\<exists>msg. parse_args ''hp'' [''--port'', to_string 9000, ''--proxy-queue'', to_string 7, ''--port'', to_string 70000] default_options = Inl (1, msg))"
  using command_line_roundtrip [of "[(Port, 9000), (Proxy_queue, 7)]" "''hp''" default_options Port 70000 "[]"] by (simp add: command_line_def)

text \<open>A minus sign is accepted and wraps around: \<open>parse_unsigned\<close> reads \<open>-n\<close> as \<open>2^64 - n\<close>, so a queue size of -1 means practically no
  limit and a suitable large negative number is taken for a port.\<close>

theorem negative_numbers_accepted:
  assumes "0 < n" and "n < 2 ^ 64"
  shows "parse_unsigned (''-'' @ to_string n) = Some (- of_nat n) \<and> unat (- of_nat n :: u64) = 2 ^ 64 - n"
proof -
  have "isdigit CHR ''-'' = False" "isspace CHR ''-'' = False" by (simp_all add: isdigit_def isspace_def char_code_def)
  then have "strtoul (''-'' @ to_string n) = \<lparr>st_value = - of_nat n, st_range = False, st_used = Suc (length (to_string n))\<rparr>"
    using assms(2) by (simp add: strtoul_def Let_def)
  moreover have "unat (- of_nat n :: u64) = 2 ^ 64 - n"
  proof -
    have "(- of_nat n :: u64) = of_nat (2 ^ 64 - n)" using assms(2) by (simp add: of_nat_diff)
    also have "unat \<dots> = 2 ^ 64 - n" using assms by (simp only: unat_of_nat) (simp add: take_bit_nat_eq_self)
    finally show ?thesis .
  qed
  ultimately show ?thesis by (simp add: parse_unsigned_def)
qed

theorem negative_numbers_accepted_witness: "parse_unsigned (''-'' @ to_string 1) = Some (- 1)"
  using negative_numbers_accepted [of 1] by simp

definition options_valid :: "options \<Rightarrow> bool" where
  "options_valid opts \<longleftrightarrow> 1 \<le> op_port opts \<and> op_port opts \<le> 65535"

lemma apply_option_valid:
  assumes "options_valid opts" and "apply_option program arg v parsed opts = Inr opts'"
  shows "options_valid opts'"
proof -
  have "1 \<le> uint parsed \<and> uint parsed \<le> 65535" if "parsed \<noteq> 0" "\<not> parsed > 65535"
    using that by (simp add: word_less_alt word_neq_0_conv [symmetric] not_less) (metis int_one_le_iff_zero_less uint_0_iff uint_ge_0 order_le_less)
  then show ?thesis using assms by (auto simp: apply_option_def options_valid_def split: if_splits)
qed

lemma parse_args_valid: "parse_args program args opts = Inr opts' \<Longrightarrow> options_valid opts \<Longrightarrow> options_valid opts'"
proof (induction program args opts rule: parse_args.induct)
  case (2 program arg rest opts)
  then show ?case by (auto split: if_splits list.splits option.splits sum.splits dest: apply_option_valid)
qed simp

lemma workers_positive: "normalize_proxy_workers hw n \<noteq> 0" "normalize_tunnel_workers hw n \<noteq> 0"
proof -
  have "max 2 hw \<noteq> 0" "max 32 (hw * 8) \<noteq> 0" by (auto simp: max_def)
  then show "normalize_proxy_workers hw n \<noteq> 0" "normalize_tunnel_workers hw n \<noteq> 0"
    by (simp_all add: normalize_proxy_workers_def normalize_tunnel_workers_def default_proxy_worker_count_def default_tunnel_worker_count_def
        kFallbackProxyWorkers_def kFallbackTunnelWorkers_def)
qed

text \<open>The product in \<^verbatim>\<open>std::size_t\<close> does not wrap.\<close>

lemma queue_size_exact:
  fixes n :: u32 and t :: u64
  assumes "unat t \<le> 512"
  shows "unat (ucast n * t) = unat n * unat t"
proof -
  have "unat n < 2 ^ 32" using unsigned_less [of n, where ?'a = nat] by simp
  then have lt: "unat n * unat t < 2 ^ 64" using mult_le_mono [OF less_imp_le assms, of "unat n" "2 ^ 32"] by simp
  have u: "unat (ucast n :: u64) = unat n" using \<open>unat n < 2 ^ 32\<close> by (simp add: unsigned_ucast_eq take_bit_nat_eq_self)
  show ?thesis using unat_mult_lem [of "ucast n :: u64" t] lt u by simp
qed

lemma listen_setup_port: "listen_setup sys read_file open_db w = Some (ok, w') \<Longrightarrow> sv_port w' = sv_port w"
  by (auto simp: listen_setup_def server_init_def init_cache_db_def init_proxy_async_def Let_def
      split: Option.bind_splits prod.splits sum.splits if_splits)

lemma queue_sizes:
  "unat (normalize_proxy_queue_size 0 n) = unat n * 512" "unat (normalize_tunnel_queue_size 0 n) = unat n * 128"
  using queue_size_exact [of 512 n] queue_size_exact [of 128 n]
  by (simp_all add: normalize_proxy_queue_size_def normalize_tunnel_queue_size_def kTasksPerProxyWorker_def kTasksPerTunnelWorker_def)

lemma queue_sizes_positive:
  "n \<noteq> 0 \<Longrightarrow> normalize_proxy_queue_size q n \<noteq> 0" "n \<noteq> 0 \<Longrightarrow> normalize_tunnel_queue_size q n \<noteq> 0"
proof -
  have "unat n * 512 \<noteq> 0" "unat n * 128 \<noteq> 0" if "n \<noteq> 0" using that by (simp_all add: unat_eq_0)
  then show "n \<noteq> 0 \<Longrightarrow> normalize_proxy_queue_size q n \<noteq> 0" "n \<noteq> 0 \<Longrightarrow> normalize_tunnel_queue_size q n \<noteq> 0"
    using queue_sizes [of n] by (cases "q = 0"; force simp: normalize_proxy_queue_size_def normalize_tunnel_queue_size_def)+
qed

text \<open>C30. Whatever the command line, a server that starts to serve is well configured: its port is a valid one, both pools have workers, both
  queues have room for a task, a queue size that is not given is 512 tasks for each proxy worker and 128 for each tunnel
  worker without wrap-around, and the state is the initial state of a run.\<close>

theorem serving_configuration_valid:
  fixes s :: "('d, 'k) server"
  assumes "main_program hw addrs po sys read_file open_db program args k = Some (Serving s)"
  shows "\<exists>opts. parse_args program args default_options = Inr opts \<and>
    1 \<le> sv_port (snd s) \<and> sv_port (snd s) \<le> 65535 \<and>
    tp_threads (sv_proxy_pool (snd s)) > 0 \<and> tp_threads (sv_tunnel_pool (snd s)) > 0 \<and>
    tp_max (sv_proxy_pool (snd s)) \<noteq> 0 \<and> tp_max (sv_tunnel_pool (snd s)) \<noteq> 0 \<and>
    (op_proxy_queue_size opts = 0 \<longrightarrow> unat (tp_max (sv_proxy_pool (snd s))) = tp_threads (sv_proxy_pool (snd s)) * 512) \<and>
    (op_tunnel_queue_size opts = 0 \<longrightarrow> unat (tp_max (sv_tunnel_pool (snd s))) = tp_threads (sv_tunnel_pool (snd s)) * 128) \<and>
    reachable execute start strerror sys (hpserver_new hw addrs (op_port opts) (op_proxy_workers opts) (op_tunnel_workers opts)
      (op_proxy_queue_size opts) (op_tunnel_queue_size opts) po k) s []"
proof -
  from assms obtain opts where o: "parse_args program args default_options = Inr opts"
    by (auto simp: main_program_def split: sum.splits)
  define s0 :: "('d, 'k) server" where "s0 = hpserver_new hw addrs (op_port opts) (op_proxy_workers opts) (op_tunnel_workers opts)
      (op_proxy_queue_size opts) (op_tunnel_queue_size opts) po k"
  from assms o obtain w where l: "listen_setup sys read_file open_db (snd s0) = Some (True, w)" "s = (fst s0, w)"
    by (auto simp: main_program_def s0_def Let_def split: Option.bind_splits if_splits)
  obtain a b c where ad: "addrs = (a, b, c)" by (metis prod_cases3)
  define pw where "pw = normalize_proxy_workers hw (op_proxy_workers opts)"
  define tw where "tw = normalize_tunnel_workers hw (op_tunnel_workers opts)"
  have pools: "sv_proxy_pool (snd s) = thread_pool_new a (unat pw) (normalize_proxy_queue_size (op_proxy_queue_size opts) pw)"
    "sv_tunnel_pool (snd s) = thread_pool_new b (unat tw) (normalize_tunnel_queue_size (op_tunnel_queue_size opts) tw)"
    "sv_port (snd s) = op_port opts"
    using listen_setup_queues [OF l(1)] listen_setup_port [OF l(1)] l(2)
    by (simp_all add: s0_def hpserver_new_def Let_def ad pw_def tw_def)
  have pos: "pw \<noteq> 0" "tw \<noteq> 0" using workers_positive by (simp_all add: pw_def tw_def)
  have "options_valid opts" by (rule parse_args_valid [OF o]) (simp add: options_valid_def default_options_def DEFAULT_PORT_def)
  moreover have "reachable execute start strerror sys s0 s []" using started [OF l(1)] l(2) by simp
  ultimately show ?thesis
    using o pos queue_sizes_positive [OF pos(1), of "op_proxy_queue_size opts"] queue_sizes_positive [OF pos(2), of "op_tunnel_queue_size opts"]
    by (intro exI [of _ opts]) (auto simp: pools thread_pool_new_def options_valid_def queue_sizes unat_gt_0 s0_def)
qed

theorem serving_configuration_valid_witness:
  "\<exists>s. main_program 4 (0, 0, 0) \<lparr>po_epoll_fd = 3\<rparr> demo_server_sys (\<lambda>_. None) (\<lambda>_. Some ()) ''hp'' [] (ps_k (demo_boot [] [])) = Some (Serving s) \<and>
     1 \<le> sv_port (snd s) \<and> tp_threads (sv_proxy_pool (snd s)) > 0 \<and> tp_max (sv_tunnel_pool (snd s)) \<noteq> 0"
proof -
  have "\<exists>s. main_program 4 (0, 0, 0) \<lparr>po_epoll_fd = 3\<rparr> demo_server_sys (\<lambda>_. None) (\<lambda>_. Some ()) ''hp'' [] (ps_k (demo_boot [] [])) = Some (Serving s)"
    by (simp add: main_program_def default_options_def listen_setup_def server_init_def init_cache_db_def init_proxy_async_def hpserver_new_def
        demo_server_sys_def demo_sys_def Let_def ip_filter_init_def blacklist_path_def cache_open_def l2_open_def http_cache_new_def
        set_nonblocking_def socket_bind_def socket_listen_def reported_def socket_open_def poller_add_def poller_control_def)
  then obtain s where s: "main_program 4 (0, 0, 0) \<lparr>po_epoll_fd = 3\<rparr> demo_server_sys (\<lambda>_. None) (\<lambda>_. Some ()) ''hp'' [] (ps_k (demo_boot [] [])) = Some (Serving s)"
    by blast
  from serving_configuration_valid [OF s] s show ?thesis by blast
qed
end
