(* ===== verification/Ring_Buffer.thy ===== *)
theory Ring_Buffer
  imports Interfaces
begin

text \<open>
  \<^verbatim>\<open>src/util/ring_buffer.h\<close>: the bounded queue of log lines, an array of capacity + 1 slots with a
  head and a tail index. The first part models the operations as the calls do them and shows the FIFO
  contract. The second part splits \<^verbatim>\<open>push\<close> and \<^verbatim>\<open>pop\<close> at their atomic accesses: the tail
  mutex admits one producer and the head mutex one consumer at a time, and the two interleave freely.
\<close>

section \<open>Model\<close>

record 'a ring_buffer =
  rb_capacity :: nat
  rb_data :: "'a list"
  rb_head :: nat
  rb_tail :: nat

text \<open>The array is filled with default-constructed elements, here \<open>d\<close>.\<close>

definition ring_buffer_new :: "'a \<Rightarrow> nat \<Rightarrow> 'a ring_buffer" where
  "ring_buffer_new d capacity =
     \<lparr>rb_capacity = capacity, rb_data = replicate (capacity + 1) d, rb_head = 0, rb_tail = 0\<rparr>"

definition next_index :: "'a ring_buffer \<Rightarrow> nat \<Rightarrow> nat" where
  "next_index b i = (i + 1) mod length (rb_data b)"

definition ring_push :: "'a \<Rightarrow> 'a ring_buffer \<Rightarrow> bool \<times> 'a ring_buffer" where
  "ring_push item b =
     (let next_tail = next_index b (rb_tail b)
      in if next_tail = rb_head b then (False, b)
         else (True, b\<lparr>rb_data := (rb_data b)[rb_tail b := item], rb_tail := next_tail\<rparr>))"

definition ring_pop :: "'a ring_buffer \<Rightarrow> 'a option \<times> 'a ring_buffer" where
  "ring_pop b =
     (if rb_head b = rb_tail b then (None, b)
      else (Some (rb_data b ! rb_head b), b\<lparr>rb_head := next_index b (rb_head b)\<rparr>))"

definition ring_empty :: "'a ring_buffer \<Rightarrow> bool" where
  "ring_empty b \<longleftrightarrow> rb_head b = rb_tail b"

definition ring_size :: "'a ring_buffer \<Rightarrow> nat" where
  "ring_size b =
     (if rb_tail b \<ge> rb_head b then rb_tail b - rb_head b
      else length (rb_data b) - (rb_head b - rb_tail b))"

section \<open>Contents\<close>

definition ring_wf :: "'a ring_buffer \<Rightarrow> bool" where
  "ring_wf b \<longleftrightarrow> length (rb_data b) = Suc (rb_capacity b) \<and> rb_head b \<le> rb_capacity b \<and>
     rb_tail b \<le> rb_capacity b"

definition ring_list :: "'a ring_buffer \<Rightarrow> 'a list" where
  "ring_list b = map (\<lambda>i. rb_data b ! ((rb_head b + i) mod length (rb_data b))) [0..<ring_size b]"

lemma ring_wf_new: "ring_wf (ring_buffer_new d n)"
  by (simp add: ring_wf_def ring_buffer_new_def)

lemma rb_capacity_new: "rb_capacity (ring_buffer_new d n) = n"
  by (simp add: ring_buffer_new_def)

lemma ring_list_new [simp]: "ring_list (ring_buffer_new d n) = []"
  by (simp add: ring_list_def ring_buffer_new_def ring_size_def)

lemma length_ring_list [simp]: "length (ring_list b) = ring_size b"
  by (simp add: ring_list_def)

lemma next_index_eq:
  "ring_wf b \<Longrightarrow> i \<le> rb_capacity b \<Longrightarrow> next_index b i = (if i = rb_capacity b then 0 else Suc i)"
  by (auto simp: ring_wf_def next_index_def)

lemma ring_size_le: "ring_wf b \<Longrightarrow> ring_size b \<le> rb_capacity b"
  by (auto simp: ring_wf_def ring_size_def)

lemma ring_size_0: "ring_wf b \<Longrightarrow> ring_size b = 0 \<longleftrightarrow> rb_head b = rb_tail b"
  by (auto simp: ring_wf_def ring_size_def)

lemma ring_list_Nil: "ring_wf b \<Longrightarrow> ring_list b = [] \<longleftrightarrow> rb_head b = rb_tail b"
  using ring_size_0 [of b] by (simp flip: length_ring_list)

lemma ring_full:
  assumes "ring_wf b"
  shows "next_index b (rb_tail b) = rb_head b \<longleftrightarrow> ring_size b = rb_capacity b"
  using assms by (simp add: next_index_eq ring_wf_def) (auto simp: ring_wf_def ring_size_def)

text \<open>Slot \<open>i\<close> of the contents, and when it is the tail slot.\<close>

lemma slot_eq:
  assumes "ring_wf b" and "i \<le> rb_capacity b"
  shows "(rb_head b + i) mod length (rb_data b) =
     (if rb_head b + i \<le> rb_capacity b then rb_head b + i else rb_head b + i - Suc (rb_capacity b))"
  using assms by (auto simp: ring_wf_def le_mod_geq)

lemma slot_tail:
  assumes "ring_wf b" and "i \<le> ring_size b"
  shows "(rb_head b + i) mod length (rb_data b) = rb_tail b \<longleftrightarrow> i = ring_size b"
  using assms ring_size_le [OF assms(1)]
  by (subst slot_eq) (auto simp: ring_wf_def ring_size_def)

text \<open>Writing the tail slot does not change the contents; moving the tail appends the slot; moving
  the head drops the first element.\<close>

lemma ring_list_write_tail:
  assumes "ring_wf b"
  shows "ring_list (b\<lparr>rb_data := (rb_data b)[rb_tail b := x]\<rparr>) = ring_list b"
proof -
  have "ring_size (b\<lparr>rb_data := (rb_data b)[rb_tail b := x]\<rparr>) = ring_size b"
    by (simp add: ring_size_def)
  moreover have "rb_tail b \<noteq> (rb_head b + i) mod length (rb_data b)" if "i < ring_size b" for i
    using slot_tail [OF assms, of i] that by simp
  ultimately show ?thesis by (simp add: ring_list_def)
qed

lemma ring_size_advance_tail:
  assumes "ring_wf b" and "ring_size b < rb_capacity b"
  shows "ring_size (b\<lparr>rb_tail := next_index b (rb_tail b)\<rparr>) = Suc (ring_size b)"
  using assms by (simp add: next_index_eq ring_wf_def) (auto simp: ring_wf_def ring_size_def)

lemma ring_list_advance_tail:
  assumes "ring_wf b" and "ring_size b < rb_capacity b"
  shows "ring_list (b\<lparr>rb_tail := next_index b (rb_tail b)\<rparr>) = ring_list b @ [rb_data b ! rb_tail b]"
  using ring_size_advance_tail [OF assms] slot_tail [OF assms(1), of "ring_size b"]
  by (simp add: ring_list_def)

lemma ring_size_advance_head:
  assumes "ring_wf b" and "rb_head b \<noteq> rb_tail b"
  shows "ring_size b = Suc (ring_size (b\<lparr>rb_head := next_index b (rb_head b)\<rparr>))"
  using assms by (simp add: next_index_eq ring_wf_def) (auto simp: ring_wf_def ring_size_def)

lemma ring_list_advance_head:
  assumes "ring_wf b" and "rb_head b \<noteq> rb_tail b"
  shows "ring_list b = rb_data b ! rb_head b # ring_list (b\<lparr>rb_head := next_index b (rb_head b)\<rparr>)"
proof -
  let ?n = "length (rb_data b)"
  have h: "rb_head b mod ?n = rb_head b" using assms(1) by (simp add: ring_wf_def)
  have "(rb_head b + Suc i) mod ?n = ((rb_head b + 1) mod ?n + i) mod ?n" for i
    by (simp add: mod_simps)
  then show ?thesis
    using ring_size_advance_head [OF assms] h
    by (simp add: ring_list_def next_index_def map_upt_Suc del: upt_Suc)
qed

lemma ring_wf_update [simp]:
  "ring_wf (b\<lparr>rb_data := (rb_data b)[i := x]\<rparr>) = ring_wf b"
  by (simp add: ring_wf_def)

lemma ring_wf_advance:
  assumes "ring_wf b"
  shows "ring_wf (b\<lparr>rb_head := next_index b (rb_head b)\<rparr>)" and "ring_wf (b\<lparr>rb_tail := next_index b (rb_tail b)\<rparr>)"
  using assms by (auto simp: ring_wf_def next_index_def intro: less_Suc_eq_le [THEN iffD1])

lemma ring_write_simps [simp]:
  "ring_size (b\<lparr>rb_data := (rb_data b)[i := x]\<rparr>) = ring_size b"
  "next_index (b\<lparr>rb_data := (rb_data b)[i := x]\<rparr>) j = next_index b j"
  by (simp_all add: ring_size_def next_index_def)

lemma write_tail_read: "ring_wf b \<Longrightarrow> (rb_data b)[rb_tail b := x] ! rb_tail b = x"
  by (simp add: ring_wf_def)

interpretation ring: bounded_fifo ring_wf ring_list rb_capacity ring_push ring_pop
proof unfold_locales
  fix q :: "'a ring_buffer" and x
  assume wf: "ring_wf q"
  show "length (ring_list q) \<le> rb_capacity q" using wf by (simp add: ring_size_le)
  show "length (ring_list q) = rb_capacity q \<Longrightarrow> ring_push x q = (False, q)"
    using wf by (simp add: ring_push_def Let_def ring_full)
  show "ring_list q = [] \<Longrightarrow> ring_pop q = (None, q)"
    using wf ring_size_0 [OF wf] by (simp add: ring_pop_def flip: length_0_conv)
  assume lt: "length (ring_list q) < rb_capacity q"
  define c where "c = q\<lparr>rb_data := (rb_data q)[rb_tail q := x]\<rparr>"
  have c: "ring_wf c" "ring_list c = ring_list q" "ring_size c = ring_size q" "rb_capacity c = rb_capacity q"
    "rb_data c ! rb_tail c = x"
    using wf ring_list_write_tail [OF wf] by (simp_all add: c_def ring_size_def ring_wf_def)
  have "ring_push x q = (True, c\<lparr>rb_tail := next_index c (rb_tail c)\<rparr>)"
    using lt ring_full [OF wf] by (simp add: ring_push_def Let_def c_def next_index_def)
  then show "fst (ring_push x q) \<and> ring_wf (snd (ring_push x q)) \<and>
      ring_list (snd (ring_push x q)) = ring_list q @ [x] \<and>
      rb_capacity (snd (ring_push x q)) = rb_capacity q"
    using c lt ring_list_advance_tail [of c] ring_wf_advance [of c] by simp
next
  fix q :: "'a ring_buffer" and y ys
  assume wf: "ring_wf q" and l: "ring_list q = y # ys"
  then have ne: "rb_head q \<noteq> rb_tail q" using ring_size_0 [OF wf] by (auto simp flip: length_ring_list)
  show "fst (ring_pop q) = Some y \<and> ring_wf (snd (ring_pop q)) \<and> ring_list (snd (ring_pop q)) = ys \<and>
      rb_capacity (snd (ring_pop q)) = rb_capacity q"
    using l ring_list_advance_head [OF wf ne] ne ring_wf_advance [OF wf] by (simp add: ring_pop_def)
qed


section \<open>Interleaved producer and consumer\<close>

text \<open>
  The accesses of one \<^verbatim>\<open>push\<close> are: read the tail and compute the next tail; read the head and
  compare; write the slot; store the tail. Those of one \<^verbatim>\<open>pop\<close> are: compare head and tail; move
  the item out of the slot; store the head. The program counters below stand between them. The lists
  \<open>rs_pushed\<close> and \<open>rs_popped\<close> record the items of the pushes that returned true and of the pops
  that returned an item.
\<close>

datatype 'a producer =
    P_idle
  | P_check 'a nat
  | P_write 'a nat
  | P_store 'a nat

datatype 'a consumer =
    C_idle
  | C_read nat
  | C_store nat 'a

record 'a ring_system =
  rs_buf :: "'a ring_buffer"
  rs_prod :: "'a producer"
  rs_cons :: "'a consumer"
  rs_pushed :: "'a list"
  rs_popped :: "'a list"

definition ring_system_new :: "'a \<Rightarrow> nat \<Rightarrow> 'a ring_system" where
  "ring_system_new d n =
     \<lparr>rs_buf = ring_buffer_new d n, rs_prod = P_idle, rs_cons = C_idle, rs_pushed = [], rs_popped = []\<rparr>"

inductive ring_step :: "'a ring_system \<Rightarrow> 'a ring_system \<Rightarrow> bool" where
  push_begin:
    "rs_prod s = P_idle \<Longrightarrow>
     ring_step s (s\<lparr>rs_prod := P_check x (next_index (rs_buf s) (rb_tail (rs_buf s)))\<rparr>)"
| push_full:
    "rs_prod s = P_check x nt \<Longrightarrow> nt = rb_head (rs_buf s) \<Longrightarrow> ring_step s (s\<lparr>rs_prod := P_idle\<rparr>)"
| push_room:
    "rs_prod s = P_check x nt \<Longrightarrow> nt \<noteq> rb_head (rs_buf s) \<Longrightarrow>
     ring_step s (s\<lparr>rs_prod := P_write x nt\<rparr>)"
| push_write:
    "rs_prod s = P_write x nt \<Longrightarrow>
     ring_step s (s\<lparr>rs_prod := P_store x nt,
       rs_buf := (rs_buf s)\<lparr>rb_data := (rb_data (rs_buf s))[rb_tail (rs_buf s) := x]\<rparr>\<rparr>)"
| push_store:
    "rs_prod s = P_store x nt \<Longrightarrow>
     ring_step s (s\<lparr>rs_prod := P_idle, rs_buf := (rs_buf s)\<lparr>rb_tail := nt\<rparr>,
       rs_pushed := rs_pushed s @ [x]\<rparr>)"
| pop_none:
    "rs_cons s = C_idle \<Longrightarrow> rb_head (rs_buf s) = rb_tail (rs_buf s) \<Longrightarrow> ring_step s s"
| pop_begin:
    "rs_cons s = C_idle \<Longrightarrow> rb_head (rs_buf s) \<noteq> rb_tail (rs_buf s) \<Longrightarrow>
     ring_step s (s\<lparr>rs_cons := C_read (rb_head (rs_buf s))\<rparr>)"
| pop_read:
    "rs_cons s = C_read h \<Longrightarrow>
     ring_step s (s\<lparr>rs_cons := C_store h (rb_data (rs_buf s) ! h)\<rparr>)"
| pop_store:
    "rs_cons s = C_store h x \<Longrightarrow>
     ring_step s (s\<lparr>rs_cons := C_idle, rs_buf := (rs_buf s)\<lparr>rb_head := next_index (rs_buf s) h\<rparr>,
       rs_popped := rs_popped s @ [x]\<rparr>)"

text \<open>The producer's knowledge survives the consumer's steps because the head only moves away from
  the tail slot; the consumer's because the producer never writes an occupied slot.\<close>

fun producer_ok :: "'a ring_buffer \<Rightarrow> 'a producer \<Rightarrow> bool" where
  "producer_ok b P_idle \<longleftrightarrow> True"
| "producer_ok b (P_check x nt) \<longleftrightarrow> nt = next_index b (rb_tail b)"
| "producer_ok b (P_write x nt) \<longleftrightarrow> nt = next_index b (rb_tail b) \<and> ring_size b < rb_capacity b"
| "producer_ok b (P_store x nt) \<longleftrightarrow> nt = next_index b (rb_tail b) \<and> ring_size b < rb_capacity b \<and>
     rb_data b ! rb_tail b = x"

fun consumer_ok :: "'a ring_buffer \<Rightarrow> 'a consumer \<Rightarrow> bool" where
  "consumer_ok b C_idle \<longleftrightarrow> True"
| "consumer_ok b (C_read h) \<longleftrightarrow> h = rb_head b \<and> rb_head b \<noteq> rb_tail b"
| "consumer_ok b (C_store h x) \<longleftrightarrow> h = rb_head b \<and> rb_head b \<noteq> rb_tail b \<and> x = rb_data b ! h"

definition ring_inv :: "'a ring_system \<Rightarrow> bool" where
  "ring_inv s \<longleftrightarrow> ring_wf (rs_buf s) \<and> producer_ok (rs_buf s) (rs_prod s) \<and>
     consumer_ok (rs_buf s) (rs_cons s) \<and> rs_pushed s = rs_popped s @ ring_list (rs_buf s)"

text \<open>The effect of one write of the buffer on what the other side knows.\<close>

lemma consumer_ok_write:
  assumes "ring_wf b" and "consumer_ok b c"
  shows "consumer_ok (b\<lparr>rb_data := (rb_data b)[rb_tail b := x]\<rparr>) c"
  using assms by (cases c) auto

lemma consumer_ok_tail:
  assumes "ring_wf b" and "consumer_ok b c" and "ring_size b < rb_capacity b"
  shows "consumer_ok (b\<lparr>rb_tail := next_index b (rb_tail b)\<rparr>) c"
  using assms ring_full [OF assms(1)] by (cases c) auto

lemma producer_ok_head:
  assumes "ring_wf b" and "producer_ok b p" and "rb_head b \<noteq> rb_tail b"
  shows "producer_ok (b\<lparr>rb_head := next_index b (rb_head b)\<rparr>) p"
  using assms ring_size_advance_head [OF assms(1,3)] by (cases p) (auto simp: next_index_def)

lemma ring_inv_step:
  assumes "ring_step s t" and "ring_inv s"
  shows "ring_inv t"
  using assms
proof (induction rule: ring_step.induct)
  case (push_room s x nt)
  then have "ring_size (rs_buf s) < rb_capacity (rs_buf s)"
    using ring_full ring_size_le [of "rs_buf s"] by (fastforce simp: ring_inv_def)
  with push_room show ?case by (simp add: ring_inv_def)
next
  case (push_write s x nt)
  then have "ring_wf (rs_buf s)" and c: "consumer_ok (rs_buf s) (rs_cons s)" by (simp_all add: ring_inv_def)
  with push_write show ?case
    using ring_list_write_tail [of "rs_buf s" x] consumer_ok_write [OF _ c, of x] write_tail_read
    by (simp add: ring_inv_def)
next
  case (push_store s x nt)
  then have "ring_wf (rs_buf s)" "consumer_ok (rs_buf s) (rs_cons s)"
    "ring_size (rs_buf s) < rb_capacity (rs_buf s)" "rs_prod s = P_store x nt"
    "producer_ok (rs_buf s) (P_store x nt)" "rs_pushed s = rs_popped s @ ring_list (rs_buf s)"
    by (simp_all add: ring_inv_def)
  then show ?case
    by (simp add: ring_inv_def ring_list_advance_tail ring_wf_advance consumer_ok_tail)
next
  case (pop_store s h x)
  then have "rb_head (rs_buf s) \<noteq> rb_tail (rs_buf s)" "ring_wf (rs_buf s)"
    by (simp_all add: ring_inv_def)
  with pop_store show ?case
    using ring_list_advance_head [of "rs_buf s"] by (simp add: ring_inv_def ring_wf_advance producer_ok_head)
qed (simp_all add: ring_inv_def)

lemma ring_inv_new: "ring_inv (ring_system_new d n)"
  by (simp add: ring_inv_def ring_system_new_def ring_wf_new)

section \<open>Properties\<close>

text \<open>C36. FIFO contract of \<open>ring_buffer\<close>: in every run of pushes and pops from a fresh buffer the
  items delivered are, in order, a prefix of the items accepted; the rest is the contents, never more
  than the capacity.\<close>

theorem ring_buffer_fifo:
  "case ring.bq_run ops (ring_buffer_new d n) of (accepted, delivered, b) \<Rightarrow>
     accepted = delivered @ ring_list b \<and> ring_size b \<le> n"
  using ring.run_fifo [OF ring_wf_new, of ops d n] ring.len_cap [of "snd (snd (ring.bq_run ops (ring_buffer_new d n)))"]
  by (auto split: prod.splits simp: rb_capacity_new)

text \<open>A push on a well-formed ring buffer is refused, without effect, exactly when the buffer
  holds \<open>capacity\<close> items (the extra slot is never used for data).\<close>

theorem ring_push_refused_iff_full:
  assumes "ring_wf b"
  shows "(fst (ring_push x b) \<longleftrightarrow> ring_size b < rb_capacity b) \<and>
    (\<not> fst (ring_push x b) \<longrightarrow> snd (ring_push x b) = b) \<and> (ring_empty b \<longleftrightarrow> ring_size b = 0)"
  using assms ring_full [OF assms] ring_size_le [OF assms] ring_size_0 [OF assms]
  by (auto simp: ring_push_def Let_def ring_empty_def)

theorem ring_push_refused_iff_full_witness:
  "ring_wf (ring_buffer_new ''a'' 1) \<and>
   fst (ring_push ''b'' (ring_buffer_new ''a'' 1)) = (ring_size (ring_buffer_new ''a'' 1) < 1)"
  using ring_push_refused_iff_full [of "ring_buffer_new ''a'' 1" "''b''"]
  by (simp add: ring_buffer_new_def ring_wf_def)

text \<open>C11. Under every interleaving of one producer inside the tail mutex and one consumer inside the
  head mutex, the items popped so far followed by the contents are exactly the items pushed so far:
  nothing is lost, duplicated, reordered or read from a slot being written.\<close>

theorem ring_buffer_concurrent_fifo:
  assumes "ring_step\<^sup>*\<^sup>* (ring_system_new d n) s"
  shows "rs_pushed s = rs_popped s @ ring_list (rs_buf s) \<and> ring_size (rs_buf s) \<le> rb_capacity (rs_buf s)"
proof -
  have "ring_inv s" using assms by (induction rule: rtranclp_induct) (auto intro: ring_inv_new ring_inv_step)
  then show ?thesis by (auto simp: ring_inv_def ring_size_le)
qed

theorem ring_buffer_concurrent_fifo_witness:
  "\<exists>s. ring_step\<^sup>*\<^sup>* (ring_system_new (0::nat) 2) s \<and> rs_prod s = P_check 7 1 \<and>
     rs_pushed s = rs_popped s @ ring_list (rs_buf s)"
proof -
  let ?s = "ring_system_new (0::nat) 2"
  let ?t = "?s\<lparr>rs_prod := P_check 7 1\<rparr>"
  have "ring_step ?s (?s\<lparr>rs_prod := P_check 7 (next_index (rs_buf ?s) (rb_tail (rs_buf ?s)))\<rparr>)"
    by (rule push_begin) (simp add: ring_system_new_def)
  then have "ring_step\<^sup>*\<^sup>* ?s ?t"
    by (simp add: ring_system_new_def ring_buffer_new_def next_index_def)
  with ring_buffer_concurrent_fifo [OF this] show ?thesis
    by (intro exI [of _ ?t]) (simp add: ring_system_new_def)
qed

end
