(* ===== verification/Logger.thy ===== *)
theory Logger
  imports Ring_Buffer
begin

text \<open>
  \<^verbatim>\<open>src/logger/logger.h\<close> and \<^verbatim>\<open>src/logger/logger.cpp\<close>: the text of a log line, the bounded
  queue between the logging calls and the writer thread, and the writer loop. The clock, the local time
  and the formatted user message are arguments; the file or standard output is the list of lines
  written to it.
\<close>

section \<open>The log line\<close>

datatype log_level = Info | Warning | Error | Debug

fun level_str :: "log_level \<Rightarrow> string" where
  "level_str Info = ''INFO''"
| "level_str Warning = ''WARN''"
| "level_str Error = ''ERROR''"
| "level_str Debug = ''DEBUG''"

record tm =
  tm_year :: int
  tm_mon :: int
  tm_mday :: int
  tm_hour :: int
  tm_min :: int
  tm_sec :: int

text \<open>The format specification \<open>{:0wd}\<close>: zero padded to width \<open>w\<close>, the sign included.\<close>

definition fmt_int :: "nat \<Rightarrow> int \<Rightarrow> string" where
  "fmt_int w i =
     (let s = to_string (nat \<bar>i\<bar>); sign = (if i < 0 then ''-'' else [])
      in sign @ replicate (w - length s - length sign) CHR ''0'' @ s)"

text \<open>\<^verbatim>\<open>std::filesystem::path(p).filename()\<close>: what follows the last separator.\<close>

definition path_filename :: "string \<Rightarrow> string" where
  "path_filename p = (case rfind_char CHR ''/'' p of None \<Rightarrow> p | Some i \<Rightarrow> drop (Suc i) p)"

definition log_entry :: "tm \<Rightarrow> int \<Rightarrow> log_level \<Rightarrow> string \<Rightarrow> nat \<Rightarrow> string \<Rightarrow> string" where
  "log_entry tm_now now_ms level file line user_msg =
     ''['' @ fmt_int 4 (tm_year tm_now + 1900) @ ''-'' @ fmt_int 2 (tm_mon tm_now + 1) @ ''-'' @
     fmt_int 2 (tm_mday tm_now) @ '' '' @ fmt_int 2 (tm_hour tm_now) @ '':'' @ fmt_int 2 (tm_min tm_now) @
     '':'' @ fmt_int 2 (tm_sec tm_now) @ ''.'' @ fmt_int 3 (now_ms mod 1000) @ ''] ['' @
     level_str level @ ''] ['' @ path_filename file @ '':'' @ to_string line @ ''] '' @ user_msg"

section \<open>Queue, writer loop and shutdown\<close>

text \<open>
  \<open>lg_sink\<close> is what the writer has written and \<open>lg_to_file\<close> says where: \<^verbatim>\<open>out.is_open()\<close>.
\<close>

record logger =
  lg_queue :: "string ring_buffer option"
  lg_running :: bool
  lg_to_file :: bool
  lg_sink :: "string list"

definition logger_instance :: logger where
  "logger_instance = \<lparr>lg_queue = None, lg_running = False, lg_to_file = False, lg_sink = []\<rparr>"

text \<open>\<open>can_open\<close> says whether the log file opens for appending.\<close>

definition logger_init :: "(string \<Rightarrow> bool) \<Rightarrow> string \<Rightarrow> nat \<Rightarrow> logger \<Rightarrow> logger" where
  "logger_init can_open log_path buffer_size l =
     l\<lparr>lg_queue := Some (ring_buffer_new [] buffer_size), lg_running := True,
       lg_to_file := (log_path \<noteq> [] \<and> can_open log_path)\<rparr>"

text \<open>The result says whether the writer is notified.\<close>

definition write_log :: "string \<Rightarrow> logger \<Rightarrow> bool \<times> logger" where
  "write_log entry l =
     (case lg_queue l of
        None \<Rightarrow> (False, l)
      | Some q \<Rightarrow> (let (ok, q') = ring_push entry q in (ok, l\<lparr>lg_queue := Some q'\<rparr>)))"

definition queue_nonempty :: "logger \<Rightarrow> bool" where
  "queue_nonempty l \<longleftrightarrow> (case lg_queue l of None \<Rightarrow> False | Some q \<Rightarrow> \<not> ring_empty q)"

definition writer_continues :: "logger \<Rightarrow> bool" where
  "writer_continues l \<longleftrightarrow> lg_running l \<or> queue_nonempty l"

definition wait_predicate :: "logger \<Rightarrow> bool" where
  "wait_predicate l \<longleftrightarrow> \<not> lg_running l \<or> queue_nonempty l"

text \<open>The loop body after the wait.\<close>

definition writer_body :: "logger \<Rightarrow> logger" where
  "writer_body l =
     (case lg_queue l of
        None \<Rightarrow> l
      | Some q \<Rightarrow>
          (case ring_pop q of
             (None, q') \<Rightarrow> l\<lparr>lg_queue := Some q'\<rparr>
           | (Some e, q') \<Rightarrow> l\<lparr>lg_queue := Some q', lg_sink := lg_sink l @ [e]\<rparr>))"

text \<open>
  The writer thread, the logging calls and the destructor interleave. The writer stands at its loop
  condition, in the wait with the mutex held and the predicate not yet evaluated, just before it blocks
  (the predicate was false), blocked with the mutex released, at the pop (still holding the mutex), or
  has left the loop. A logging call pushes and only then notifies, without the mutex; \<open>ls_notify\<close>
  counts the calls between the two. The destructor clears the flag under the mutex, so only while the
  writer does not hold it, and then notifies (\<open>ls_closing\<close>).
\<close>

datatype writer = W_loop | W_wait | W_before_block | W_blocked | W_pop | W_exit

record log_system =
  ls_logger :: logger
  ls_writer :: writer
  ls_notify :: nat
  ls_closing :: bool
  ls_accepted :: "string list"

definition log_system_start :: "(string \<Rightarrow> bool) \<Rightarrow> string \<Rightarrow> nat \<Rightarrow> log_system" where
  "log_system_start can_open log_path n =
     \<lparr>ls_logger = logger_init can_open log_path n logger_instance, ls_writer = W_loop, ls_notify = 0,
      ls_closing = False, ls_accepted = []\<rparr>"

definition woken :: "writer \<Rightarrow> writer" where
  "woken w = (if w = W_blocked then W_wait else w)"

inductive log_step :: "log_system \<Rightarrow> log_system \<Rightarrow> bool" where
  log_call:
    "write_log e (ls_logger s) = (ok, l') \<Longrightarrow>
     log_step s (s\<lparr>ls_logger := l', ls_notify := ls_notify s + (if ok then 1 else 0),
       ls_accepted := ls_accepted s @ (if ok then [e] else [])\<rparr>)"
| log_notify:
    "ls_notify s = Suc n \<Longrightarrow> log_step s (s\<lparr>ls_notify := n, ls_writer := woken (ls_writer s)\<rparr>)"
| writer_leave:
    "ls_writer s = W_loop \<Longrightarrow> \<not> writer_continues (ls_logger s) \<Longrightarrow> log_step s (s\<lparr>ls_writer := W_exit\<rparr>)"
| writer_enter:
    "ls_writer s = W_loop \<Longrightarrow> writer_continues (ls_logger s) \<Longrightarrow> log_step s (s\<lparr>ls_writer := W_wait\<rparr>)"
| writer_ready:
    "ls_writer s = W_wait \<Longrightarrow> wait_predicate (ls_logger s) \<Longrightarrow> log_step s (s\<lparr>ls_writer := W_pop\<rparr>)"
| writer_not_ready:
    "ls_writer s = W_wait \<Longrightarrow> \<not> wait_predicate (ls_logger s) \<Longrightarrow>
     log_step s (s\<lparr>ls_writer := W_before_block\<rparr>)"
| writer_block:
    "ls_writer s = W_before_block \<Longrightarrow> log_step s (s\<lparr>ls_writer := W_blocked\<rparr>)"
| writer_spurious:
    "ls_writer s = W_blocked \<Longrightarrow> log_step s (s\<lparr>ls_writer := W_wait\<rparr>)"
| writer_pops:
    "ls_writer s = W_pop \<Longrightarrow>
     log_step s (s\<lparr>ls_logger := writer_body (ls_logger s), ls_writer := W_loop\<rparr>)"
| shutdown_flag:
    "ls_writer s \<in> {W_loop, W_blocked, W_exit} \<Longrightarrow>
     log_step s (s\<lparr>ls_logger := (ls_logger s)\<lparr>lg_running := False\<rparr>, ls_closing := True\<rparr>)"
| shutdown_notify:
    "ls_closing s \<Longrightarrow> log_step s (s\<lparr>ls_closing := False, ls_writer := woken (ls_writer s)\<rparr>)"

section \<open>Every accepted line is written, in order\<close>

definition logger_contents :: "logger \<Rightarrow> string list" where
  "logger_contents l = (case lg_queue l of None \<Rightarrow> [] | Some q \<Rightarrow> ring_list q)"

definition logger_wf :: "logger \<Rightarrow> bool" where
  "logger_wf l \<longleftrightarrow> (case lg_queue l of None \<Rightarrow> True | Some q \<Rightarrow> ring_wf q)"

definition logger_cap :: "logger \<Rightarrow> nat" where
  "logger_cap l = (case lg_queue l of None \<Rightarrow> 0 | Some q \<Rightarrow> rb_capacity q)"

lemma logger_init_wf:
  "logger_wf (logger_init f p n l)" "logger_contents (logger_init f p n l) = []"
  "lg_sink (logger_init f p n l) = lg_sink l" "logger_cap (logger_init f p n l) = n"
  by (simp_all add: logger_cap_def rb_capacity_new logger_wf_def logger_contents_def logger_init_def ring_wf_new)

lemma write_log_contents:
  assumes "write_log e l = (ok, l')" and "logger_wf l"
  shows "logger_wf l' \<and> logger_contents l' = logger_contents l @ (if ok then [e] else []) \<and>
    lg_sink l' = lg_sink l \<and> logger_cap l' = logger_cap l"
proof (cases "lg_queue l")
  case None
  with assms show ?thesis by (auto simp: write_log_def)
next
  case (Some q)
  with assms(2) have q: "ring_wf q" by (simp add: logger_wf_def)
  show ?thesis
  proof (cases "ring_size q < rb_capacity q")
    case True
    with ring.push_ok [OF q, of e] Some assms(1) show ?thesis
      by (auto simp: write_log_def logger_wf_def logger_cap_def logger_contents_def split: prod.splits)
  next
    case False
    with ring_size_le [OF q] have "ring_push e q = (False, q)" by (intro ring.push_full q) simp
    with Some assms q show ?thesis
      by (auto simp: write_log_def logger_wf_def logger_cap_def logger_contents_def)
  qed
qed

lemma writer_body_contents:
  assumes "logger_wf l"
  shows "logger_wf (writer_body l) \<and> logger_cap (writer_body l) = logger_cap l \<and>
    lg_sink (writer_body l) @ logger_contents (writer_body l) = lg_sink l @ logger_contents l"
proof (cases "lg_queue l")
  case None
  then show ?thesis by (simp add: writer_body_def logger_wf_def)
next
  case (Some q)
  with assms have q: "ring_wf q" by (simp add: logger_wf_def)
  show ?thesis
  proof (cases "ring_list q")
    case Nil
    with ring.pop_empty [OF q] Some q show ?thesis
      by (simp add: writer_body_def logger_wf_def logger_cap_def logger_contents_def)
  next
    case (Cons y ys)
    with ring.pop_ok [OF q Cons] Some show ?thesis
      by (auto simp: writer_body_def logger_wf_def logger_cap_def logger_contents_def split: prod.splits)
  qed
qed

lemma queue_nonempty_iff: "logger_wf l \<Longrightarrow> queue_nonempty l \<longleftrightarrow> logger_contents l \<noteq> []"
  by (auto simp: queue_nonempty_def logger_wf_def logger_contents_def ring_empty_def ring_list_Nil
      split: option.splits)

lemma length_contents_le: "logger_wf l \<Longrightarrow> length (logger_contents l) \<le> logger_cap l"
  by (simp add: logger_wf_def logger_contents_def logger_cap_def ring_size_le split: option.splits)

definition log_inv :: "nat \<Rightarrow> log_system \<Rightarrow> bool" where
  "log_inv n s \<longleftrightarrow> logger_wf (ls_logger s) \<and> logger_cap (ls_logger s) = n \<and>
     ls_accepted s = lg_sink (ls_logger s) @ logger_contents (ls_logger s)"

lemma log_inv_step: "log_step s t \<Longrightarrow> log_inv n s \<Longrightarrow> log_inv n t"
proof (induction rule: log_step.induct)
  case (log_call e s ok l')
  then show ?case using write_log_contents [OF log_call(1)] by (simp add: log_inv_def)
next
  case (writer_pops s)
  then show ?case using writer_body_contents [of "ls_logger s"] by (simp add: log_inv_def)
qed (simp_all add: log_inv_def logger_wf_def logger_contents_def logger_cap_def)

lemma log_inv_start: "log_inv n (log_system_start f p n)"
  by (simp add: log_inv_def log_system_start_def logger_init_wf) (simp add: logger_instance_def)

lemma log_inv_reachable:
  assumes "log_step\<^sup>*\<^sup>* (log_system_start f p n) s"
  shows "log_inv n s"
  using assms by (induction rule: rtranclp_induct) (rule log_inv_start, erule log_inv_step)

section \<open>Properties\<close>

text \<open>C34. The writer thread writes the accepted log lines in the order in which they were accepted,
  each once, and when it leaves its loop (only after the shutdown flag is set) every line accepted so
  far has been written.\<close>

theorem logger_writes_accepted:
  assumes "log_step\<^sup>*\<^sup>* (log_system_start can_open log_path n) s"
  shows "(\<exists>rest. ls_accepted s = lg_sink (ls_logger s) @ rest \<and> length rest \<le> n) \<and>
    (ls_writer s = W_loop \<and> \<not> writer_continues (ls_logger s) \<longrightarrow>
       \<not> lg_running (ls_logger s) \<and> lg_sink (ls_logger s) = ls_accepted s)"
  using log_inv_reachable [OF assms] length_contents_le [of "ls_logger s"]
  by (auto simp: log_inv_def writer_continues_def queue_nonempty_iff)

theorem logger_writes_accepted_witness:
  "\<exists>rest. ls_accepted (log_system_start (\<lambda>_. True) [] 4) =
     lg_sink (ls_logger (log_system_start (\<lambda>_. True) [] 4)) @ rest \<and> length rest \<le> 4"
  using logger_writes_accepted [OF rtranclp.rtrancl_refl, of "\<lambda>_. True" "[]" 4] by blast

text \<open>A logging call notifies without the mutex, so the notification can fall between the
  writer's evaluation of the wait predicate and its blocking: a state is reachable in which a line is
  queued, the writer is blocked and no notification is outstanding, so the line stays unwritten until
  another line is logged, the wait returns spuriously or the logger is destroyed.\<close>

theorem logger_lost_wakeup:
  "\<exists>s. log_step\<^sup>*\<^sup>* (log_system_start (\<lambda>_. True) [] 4) s \<and> ls_writer s = W_blocked \<and>
     queue_nonempty (ls_logger s) \<and> ls_notify s = 0 \<and> lg_running (ls_logger s)"
proof -
  define s0 where "s0 = log_system_start (\<lambda>_. True) [] 4"
  define s1 where "s1 = s0\<lparr>ls_writer := W_wait\<rparr>"
  define s2 where "s2 = s1\<lparr>ls_writer := W_before_block\<rparr>"
  define l3 where "l3 = snd (write_log ''x'' (ls_logger s2))"
  define s3 where "s3 = s2\<lparr>ls_logger := l3, ls_notify := 1, ls_accepted := [''x'']\<rparr>"
  define s4 where "s4 = s3\<lparr>ls_notify := 0\<rparr>"
  define s5 where "s5 = s4\<lparr>ls_writer := W_blocked\<rparr>"
  note d = s0_def s1_def s2_def s3_def s4_def s5_def l3_def log_system_start_def logger_init_def
    logger_instance_def ring_buffer_new_def write_log_def ring_push_def next_index_def
    writer_continues_def wait_predicate_def queue_nonempty_def ring_empty_def woken_def
  have "log_step s0 s1" unfolding s1_def by (rule writer_enter) (simp_all add: d)
  moreover have "log_step s1 s2" unfolding s2_def by (rule writer_not_ready) (simp_all add: d)
  moreover have "log_step s2 s3"
    using log_call [of "''x''" s2 True l3] by (simp add: d)
  moreover have "log_step s3 s4" using log_notify [of s3 0] by (simp add: d)
  moreover have "log_step s4 s5" unfolding s5_def by (rule writer_block) (simp add: d)
  ultimately have "log_step\<^sup>*\<^sup>* s0 s5" by (meson converse_rtranclp_into_rtranclp rtranclp.rtrancl_refl)
  then show ?thesis by (intro exI [of _ s5]) (simp add: d)
qed

end
