(* ===== verification/Queue_Threads.thy ===== *)
theory Queue_Threads
  imports Threadsafe_Queue
begin

text \<open>
  \<^verbatim>\<open>src/util/threadsafe_queue.h\<close> under concurrency. Producers hold only the tail mutex and consumers only the head
  mutex, apart from the moment in which a consumer reads the tail, so a push and a pop run at the same time on the same
  list. A step relation splits the member functions at every access to shared memory and at the mutexes; any number of
  threads may call any member function. The pool and the server use \<^verbatim>\<open>push\<close> and \<^verbatim>\<open>try_pop\<close> as single steps, which is
  justified here: both take effect at one point.
\<close>

section \<open>Model\<close>

type_synonym tid = nat

text \<open>The member functions that lock the head mutex.\<close>

datatype head_call = Try_pop | Wait_pop | Empty

text \<open>
  Where a thread stands. In \<^verbatim>\<open>push\<close>: with its node allocated; with the tail mutex locked; data written; link written;
  tail moved; mutex released and notification pending. In the other functions: with the head mutex locked; with the tail
  seen equal to, or different from, the head; with the item moved out; with the head advanced; with the mutex released
  and the old node still to be freed. A thread in \<^verbatim>\<open>wait_pop\<close> may be asleep on the condition variable or woken.
\<close>

datatype 'a pc =
    Idle
  | Allocated 'a addr | Tail_locked 'a addr | Data_set 'a addr | Next_set 'a addr | Tail_moved | Notifying
  | Head_locked head_call | Seen_empty head_call | Seen_item head_call | Moved_out 'a | Head_moved addr | Dropping addr
  | Asleep | Woken

record 'a queue_threads = "'a threadsafe_queue" +
  qt_head_mtx :: "tid option"
  qt_tail_mtx :: "tid option"
  qt_pc :: "tid \<Rightarrow> 'a pc"
  qt_pushed :: "'a list"
  qt_popped :: "'a list"

definition queue_threads_new :: "addr \<Rightarrow> 'a queue_threads" where
  "queue_threads_new p =
     threadsafe_queue.extend (threadsafe_queue_new p)
       \<lparr>qt_head_mtx = None, qt_tail_mtx = None, qt_pc = (\<lambda>_. Idle), qt_pushed = [], qt_popped = []\<rparr>"

definition qgoto :: "tid \<Rightarrow> 'a pc \<Rightarrow> 'a queue_threads \<Rightarrow> 'a queue_threads" where
  "qgoto i c s = s\<lparr>qt_pc := (qt_pc s)(i := c)\<rparr>"

text \<open>\<^verbatim>\<open>push\<close>; a notification wakes one sleeper if there is one.\<close>

inductive push_step :: "'a queue_threads \<Rightarrow> 'a queue_threads \<Rightarrow> bool" where
  push_alloc:
    "qt_pc s i = Idle \<Longrightarrow> tq_heap s p = None \<Longrightarrow>
     push_step s (qgoto i (Allocated x p) (s\<lparr>tq_heap := (tq_heap s)(p \<mapsto> empty_node)\<rparr>))"
| push_lock:
    "qt_pc s i = Allocated x p \<Longrightarrow> qt_tail_mtx s = None \<Longrightarrow>
     push_step s (qgoto i (Tail_locked x p) (s\<lparr>qt_tail_mtx := Some i\<rparr>))"
| push_data:
    "qt_pc s i = Tail_locked x p \<Longrightarrow> tq_heap s (tq_tail s) = Some n \<Longrightarrow>
     push_step s (qgoto i (Data_set x p) (s\<lparr>tq_heap := (tq_heap s)(tq_tail s \<mapsto> n\<lparr>nd_data := Some x\<rparr>)\<rparr>))"
| push_next:
    "qt_pc s i = Data_set x p \<Longrightarrow> tq_heap s (tq_tail s) = Some n \<Longrightarrow>
     push_step s (qgoto i (Next_set x p) (s\<lparr>tq_heap := (tq_heap s)(tq_tail s \<mapsto> n\<lparr>nd_next := Some p\<rparr>)\<rparr>))"
| push_tail:
    "qt_pc s i = Next_set x p \<Longrightarrow>
     push_step s (qgoto i Tail_moved (s\<lparr>tq_tail := p, qt_pushed := qt_pushed s @ [x]\<rparr>))"
| push_unlock:
    "qt_pc s i = Tail_moved \<Longrightarrow> push_step s (qgoto i Notifying (s\<lparr>qt_tail_mtx := None\<rparr>))"
| push_notify_one:
    "qt_pc s i = Notifying \<Longrightarrow> qt_pc s j = Asleep \<Longrightarrow> push_step s (qgoto j Woken (qgoto i Idle s))"
| push_notify_none:
    "qt_pc s i = Notifying \<Longrightarrow> \<forall>j. qt_pc s j \<noteq> Asleep \<Longrightarrow> push_step s (qgoto i Idle s)"

text \<open>\<^verbatim>\<open>try_pop\<close>, \<^verbatim>\<open>wait_pop\<close> and \<^verbatim>\<open>empty\<close>; \<^verbatim>\<open>get_tail\<close> locks and unlocks the tail mutex. A sleeper may wake without a
  notification.\<close>

inductive pop_step :: "'a queue_threads \<Rightarrow> 'a queue_threads \<Rightarrow> bool" where
  pop_lock:
    "qt_pc s i = Idle \<Longrightarrow> qt_head_mtx s = None \<Longrightarrow>
     pop_step s (qgoto i (Head_locked c) (s\<lparr>qt_head_mtx := Some i\<rparr>))"
| pop_sees_empty:
    "qt_pc s i = Head_locked c \<Longrightarrow> qt_tail_mtx s = None \<Longrightarrow> tq_head s = tq_tail s \<Longrightarrow>
     pop_step s (qgoto i (Seen_empty c) s)"
| pop_sees_item:
    "qt_pc s i = Head_locked c \<Longrightarrow> qt_tail_mtx s = None \<Longrightarrow> tq_head s \<noteq> tq_tail s \<Longrightarrow>
     pop_step s (qgoto i (Seen_item c) s)"
| pop_nothing:
    "qt_pc s i = Seen_empty c \<Longrightarrow> c \<noteq> Wait_pop \<Longrightarrow> pop_step s (qgoto i Idle (s\<lparr>qt_head_mtx := None\<rparr>))"
| pop_not_empty:
    "qt_pc s i = Seen_item Empty \<Longrightarrow> pop_step s (qgoto i Idle (s\<lparr>qt_head_mtx := None\<rparr>))"
| pop_sleep:
    "qt_pc s i = Seen_empty Wait_pop \<Longrightarrow> pop_step s (qgoto i Asleep (s\<lparr>qt_head_mtx := None\<rparr>))"
| pop_spurious:
    "qt_pc s i = Asleep \<Longrightarrow> pop_step s (qgoto i Woken s)"
| pop_relock:
    "qt_pc s i = Woken \<Longrightarrow> qt_head_mtx s = None \<Longrightarrow>
     pop_step s (qgoto i (Head_locked Wait_pop) (s\<lparr>qt_head_mtx := Some i\<rparr>))"
| pop_move:
    "qt_pc s i = Seen_item c \<Longrightarrow> c \<noteq> Empty \<Longrightarrow> tq_heap s (tq_head s) = Some n \<Longrightarrow> nd_data n = Some x \<Longrightarrow>
     pop_step s (qgoto i (Moved_out x) s)"
| pop_advance:
    "qt_pc s i = Moved_out x \<Longrightarrow> tq_heap s (tq_head s) = Some n \<Longrightarrow> nd_next n = Some nx \<Longrightarrow>
     pop_step s (qgoto i (Head_moved (tq_head s)) (s\<lparr>tq_head := nx, qt_popped := qt_popped s @ [x]\<rparr>))"
| pop_unlock:
    "qt_pc s i = Head_moved old \<Longrightarrow> pop_step s (qgoto i (Dropping old) (s\<lparr>qt_head_mtx := None\<rparr>))"
| pop_free:
    "qt_pc s i = Dropping old \<Longrightarrow> pop_step s (qgoto i Idle (s\<lparr>tq_heap := (tq_heap s)(old := None)\<rparr>))"

definition queue_step :: "'a queue_threads \<Rightarrow> 'a queue_threads \<Rightarrow> bool" where
  "queue_step s s' \<longleftrightarrow> push_step s s' \<or> pop_step s s'"

section \<open>Invariant\<close>

fun in_head :: "'a pc \<Rightarrow> bool" where
  "in_head (Head_locked _) = True" | "in_head (Seen_empty _) = True" | "in_head (Seen_item _) = True"
| "in_head (Moved_out _) = True" | "in_head (Head_moved _) = True" | "in_head _ = False"

fun in_tail :: "'a pc \<Rightarrow> bool" where
  "in_tail (Tail_locked _ _) = True" | "in_tail (Data_set _ _) = True" | "in_tail (Next_set _ _) = True"
| "in_tail Tail_moved = True" | "in_tail _ = False"

text \<open>The node a thread owns: one that is not yet linked, or one that is no longer linked.\<close>

fun fresh_of :: "'a pc \<Rightarrow> addr option" where
  "fresh_of (Allocated _ p) = Some p" | "fresh_of (Tail_locked _ p) = Some p" | "fresh_of (Data_set _ p) = Some p"
| "fresh_of (Next_set _ p) = Some p" | "fresh_of _ = None"

fun old_of :: "'a pc \<Rightarrow> addr option" where
  "old_of (Head_moved p) = Some p" | "old_of (Dropping p) = Some p" | "old_of _ = None"

definition owned :: "'a pc \<Rightarrow> addr option" where
  "owned c = (case fresh_of c of Some p \<Rightarrow> Some p | None \<Rightarrow> old_of c)"

lemma owned_simps [simp]:
  "owned Idle = None" "owned (Allocated x p) = Some p" "owned (Tail_locked x p) = Some p" "owned (Data_set x p) = Some p"
  "owned (Next_set x p) = Some p" "owned Tail_moved = None" "owned Notifying = None" "owned (Head_locked c) = None"
  "owned (Seen_empty c) = None" "owned (Seen_item c) = None" "owned (Moved_out x) = None" "owned (Head_moved p) = Some p"
  "owned (Dropping p) = Some p" "owned Asleep = None" "owned Woken = None"
  by (simp_all add: owned_def)

lemma fresh_owned: "fresh_of c = Some p \<Longrightarrow> owned c = Some p"
  by (simp add: owned_def)

definition tail_node :: "'a queue_threads \<Rightarrow> 'a node" where
  "tail_node s =
     (case qt_tail_mtx s of
        None \<Rightarrow> empty_node
      | Some i \<Rightarrow> (case qt_pc s i of
                    Data_set x p \<Rightarrow> \<lparr>nd_data = Some x, nd_next = None\<rparr>
                  | Next_set x p \<Rightarrow> \<lparr>nd_data = Some x, nd_next = Some p\<rparr>
                  | _ \<Rightarrow> empty_node))"

definition locks_ok :: "'a queue_threads \<Rightarrow> bool" where
  "locks_ok s \<longleftrightarrow> (\<forall>i. qt_head_mtx s = Some i \<longleftrightarrow> in_head (qt_pc s i)) \<and> (\<forall>i. qt_tail_mtx s = Some i \<longleftrightarrow> in_tail (qt_pc s i))"

definition seen_ok :: "'a queue_threads \<Rightarrow> 'a list \<Rightarrow> bool" where
  "seen_ok s xs \<longleftrightarrow> (\<forall>i. (\<exists>c. qt_pc s i = Seen_item c) \<longrightarrow> xs \<noteq> []) \<and> (\<forall>i x. qt_pc s i = Moved_out x \<longrightarrow> xs \<noteq> [] \<and> hd xs = x)"

definition nodes_ok :: "'a queue_threads \<Rightarrow> addr list \<Rightarrow> bool" where
  "nodes_ok s as \<longleftrightarrow> distinct (as @ [tq_tail s]) \<and>
     (\<forall>i p. owned (qt_pc s i) = Some p \<longrightarrow> p \<notin> set as \<and> p \<noteq> tq_tail s) \<and>
     (\<forall>i j p. owned (qt_pc s i) = Some p \<longrightarrow> owned (qt_pc s j) = Some p \<longrightarrow> i = j) \<and>
     (\<forall>i p. fresh_of (qt_pc s i) = Some p \<longrightarrow> tq_heap s p = Some empty_node) \<and>
     dom (tq_heap s) = set as \<union> {tq_tail s} \<union> {p. \<exists>i. owned (qt_pc s i) = Some p}"

definition queue_inv :: "'a queue_threads \<Rightarrow> addr list \<Rightarrow> 'a list \<Rightarrow> bool" where
  "queue_inv s as xs \<longleftrightarrow> chain (tq_heap s) (tq_head s) as xs (tq_tail s) \<and> tq_heap s (tq_tail s) = Some (tail_node s) \<and>
     locks_ok s \<and> seen_ok s xs \<and> nodes_ok s as \<and> qt_pushed s = qt_popped s @ xs"

lemma qgoto_simps [simp]:
  "tq_heap (qgoto i c s) = tq_heap s" "tq_head (qgoto i c s) = tq_head s" "tq_tail (qgoto i c s) = tq_tail s"
  "qt_head_mtx (qgoto i c s) = qt_head_mtx s" "qt_tail_mtx (qgoto i c s) = qt_tail_mtx s"
  "qt_pc (qgoto i c s) = (qt_pc s)(i := c)" "qt_pushed (qgoto i c s) = qt_pushed s" "qt_popped (qgoto i c s) = qt_popped s"
  by (simp_all add: qgoto_def)

lemma queue_inv_new: "queue_inv (queue_threads_new p) [] []"
  by (auto simp: queue_inv_def queue_threads_new_def threadsafe_queue.defs threadsafe_queue_new_def tail_node_def locks_ok_def
      seen_ok_def nodes_ok_def owned_def)

text \<open>A thread keeps, takes or releases a mutex.\<close>

definition lock_move :: "tid option \<Rightarrow> tid option \<Rightarrow> tid \<Rightarrow> bool \<Rightarrow> bool \<Rightarrow> bool" where
  "lock_move m m' i before after \<longleftrightarrow>
     m' = m \<and> after = before \<or> m = None \<and> m' = Some i \<and> after \<or> before \<and> m' = None \<and> \<not> after"

lemma lock_move_owner:
  assumes "\<forall>j. m = Some j \<longleftrightarrow> P (f j)" and "lock_move m m' i (P (f i)) (P c)"
  shows "\<forall>j. m' = Some j \<longleftrightarrow> P ((f(i := c)) j)"
proof -
  have "P (f i) \<Longrightarrow> P (f j) \<Longrightarrow> j = i" for j using assms(1) by (metis option.inject)
  then show ?thesis using assms by (auto simp: lock_move_def)
qed

lemma locks_ok_goto:
  assumes "locks_ok s" and "qt_pc s' = (qt_pc s)(i := c)"
    and "lock_move (qt_head_mtx s) (qt_head_mtx s') i (in_head (qt_pc s i)) (in_head c)"
    and "lock_move (qt_tail_mtx s) (qt_tail_mtx s') i (in_tail (qt_pc s i)) (in_tail c)"
  shows "locks_ok s'"
  using lock_move_owner [of "qt_head_mtx s" in_head "qt_pc s" "qt_head_mtx s'" i c]
    lock_move_owner [of "qt_tail_mtx s" in_tail "qt_pc s" "qt_tail_mtx s'" i c] assms
  by (simp add: locks_ok_def)

lemma head_exclusive: "locks_ok s \<Longrightarrow> in_head (qt_pc s i) \<Longrightarrow> in_head (qt_pc s j) \<Longrightarrow> i = j"
  unfolding locks_ok_def by (metis option.inject)

lemma tail_exclusive: "locks_ok s \<Longrightarrow> in_tail (qt_pc s i) \<Longrightarrow> in_tail (qt_pc s j) \<Longrightarrow> i = j"
  unfolding locks_ok_def by (metis option.inject)

lemma tail_owner: "locks_ok s \<Longrightarrow> in_tail (qt_pc s i) \<Longrightarrow> qt_tail_mtx s = Some i"
  by (simp add: locks_ok_def)

lemma tail_node_cong:
  "qt_tail_mtx s' = qt_tail_mtx s \<Longrightarrow> (\<And>i. qt_tail_mtx s = Some i \<Longrightarrow> qt_pc s' i = qt_pc s i) \<Longrightarrow> tail_node s' = tail_node s"
  by (simp add: tail_node_def split: option.split)

lemma tail_node_outside:
  assumes "locks_ok s" and "qt_pc s' = (qt_pc s)(i := c)" and "qt_tail_mtx s' = qt_tail_mtx s" and "\<not> in_tail (qt_pc s i)"
  shows "tail_node s' = tail_node s"
  using assms by (intro tail_node_cong) (auto simp: locks_ok_def)

definition sees :: "'a pc \<Rightarrow> 'a list \<Rightarrow> bool" where
  "sees c xs \<longleftrightarrow> (case c of Seen_item _ \<Rightarrow> xs \<noteq> [] | Moved_out x \<Rightarrow> xs \<noteq> [] \<and> hd xs = x | _ \<Rightarrow> True)"

lemma seen_ok_alt: "seen_ok s xs \<longleftrightarrow> (\<forall>i. sees (qt_pc s i) xs)"
  by (force simp: seen_ok_def sees_def split: pc.splits)

lemma seen_ok_goto: "seen_ok s xs \<Longrightarrow> qt_pc s' = (qt_pc s)(i := c) \<Longrightarrow> sees c xs \<Longrightarrow> seen_ok s' xs"
  by (simp add: seen_ok_alt)

text \<open>The nodes that belong to the other threads, and the conditions for a step of thread \<open>i\<close>.\<close>

definition others :: "'a queue_threads \<Rightarrow> tid \<Rightarrow> addr set" where
  "others s i = {p. \<exists>j. j \<noteq> i \<and> owned (qt_pc s j) = Some p}"

lemma nodes_ok_distinct: "nodes_ok s as \<Longrightarrow> distinct (as @ [tq_tail s])"
  by (simp add: nodes_ok_def)

lemma nodes_okD:
  assumes "nodes_ok s as"
  shows "others s i \<inter> set as = {}" and "tq_tail s \<notin> others s i"
    and "\<And>p. owned (qt_pc s i) = Some p \<Longrightarrow> p \<notin> set as \<and> p \<noteq> tq_tail s \<and> p \<notin> others s i"
    and "dom (tq_heap s) = set as \<union> {tq_tail s} \<union> others s i \<union> set_option (owned (qt_pc s i))"
    and "\<And>p. fresh_of (qt_pc s i) = Some p \<Longrightarrow> tq_heap s p = Some empty_node"
proof -
  show "dom (tq_heap s) = set as \<union> {tq_tail s} \<union> others s i \<union> set_option (owned (qt_pc s i))"
    using assms unfolding nodes_ok_def others_def by (auto simp: elem_set)
qed (use assms in \<open>auto simp: nodes_ok_def others_def\<close>)

lemma nodes_okI:
  assumes ok: "nodes_ok s as" and pc: "qt_pc s' = (qt_pc s)(i := c)"
    and "distinct (as' @ [tq_tail s'])" and "others s i \<inter> set as' = {}" and "tq_tail s' \<notin> others s i"
    and "\<And>p. owned c = Some p \<Longrightarrow> p \<notin> set as' \<and> p \<noteq> tq_tail s' \<and> p \<notin> others s i"
    and "dom (tq_heap s') = set as' \<union> {tq_tail s'} \<union> others s i \<union> set_option (owned c)"
    and "\<And>p. fresh_of c = Some p \<Longrightarrow> tq_heap s' p = Some empty_node"
    and same: "\<And>p. p \<in> others s i \<Longrightarrow> tq_heap s' p = tq_heap s p"
  shows "nodes_ok s' as'"
proof -
  have "tq_heap s' p = Some empty_node" if "fresh_of (qt_pc s j) = Some p" "j \<noteq> i" for j p
    using ok same [of p] that fresh_owned [OF that(1)] by (auto simp: nodes_ok_def others_def)
  moreover have "dom (tq_heap s') = set as' \<union> {tq_tail s'} \<union> {p. \<exists>j. owned (qt_pc s' j) = Some p}"
    unfolding assms(7) others_def pc by (auto simp: elem_set)
  ultimately show ?thesis
    using assms(3-6,8) ok unfolding nodes_ok_def others_def pc by (auto split: if_splits)
qed

text \<open>A step of one thread that changes no node and keeps what the thread owns.\<close>

lemma queue_inv_goto:
  assumes inv: "queue_inv s as xs"
    and same: "tq_heap s1 = tq_heap s" "tq_head s1 = tq_head s" "tq_tail s1 = tq_tail s" "qt_pc s1 = qt_pc s"
      "qt_pushed s1 = qt_pushed s" "qt_popped s1 = qt_popped s"
    and "owned c = owned (qt_pc s i)" "fresh_of c = fresh_of (qt_pc s i)" "sees c xs"
      "tail_node (qgoto i c s1) = tail_node s"
    and "lock_move (qt_head_mtx s) (qt_head_mtx s1) i (in_head (qt_pc s i)) (in_head c)"
    and "lock_move (qt_tail_mtx s) (qt_tail_mtx s1) i (in_tail (qt_pc s i)) (in_tail c)"
  shows "queue_inv (qgoto i c s1) as xs"
proof -
  have own: "owned (qt_pc (qgoto i c s1) j) = owned (qt_pc s j)" "fresh_of (qt_pc (qgoto i c s1) j) = fresh_of (qt_pc s j)" for j
    using assms by auto
  have "nodes_ok s as" using inv by (simp add: queue_inv_def)
  then have "nodes_ok (qgoto i c s1) as" unfolding nodes_ok_def own by (simp add: same)
  then show ?thesis
    using assms locks_ok_goto [of s "qgoto i c s1" i c] seen_ok_goto [of s xs "qgoto i c s1" i c] by (simp add: queue_inv_def)
qed

lemma pop_goto:
  assumes inv: "queue_inv s as xs"
    and same: "tq_heap s1 = tq_heap s" "tq_head s1 = tq_head s" "tq_tail s1 = tq_tail s" "qt_pc s1 = qt_pc s"
      "qt_pushed s1 = qt_pushed s" "qt_popped s1 = qt_popped s" "qt_tail_mtx s1 = qt_tail_mtx s"
    and "\<not> in_tail (qt_pc s i)" "\<not> in_tail c"
    and "owned c = owned (qt_pc s i)" "fresh_of c = fresh_of (qt_pc s i)" "sees c xs"
    and "lock_move (qt_head_mtx s) (qt_head_mtx s1) i (in_head (qt_pc s i)) (in_head c)"
  shows "\<exists>as xs. queue_inv (qgoto i c s1) as xs"
proof -
  have "tail_node (qgoto i c s1) = tail_node s"
    using inv assms tail_node_outside [of s "qgoto i c s1" i c] by (simp add: queue_inv_def)
  then have "queue_inv (qgoto i c s1) as xs" using assms by (intro queue_inv_goto [OF inv]) (simp_all add: lock_move_def)
  then show ?thesis by blast
qed

text \<open>The item is taken from the first node, which then belongs to the consumer until it is freed.\<close>

lemma advance_inv:
  assumes inv: "queue_inv s as xs" and pc: "qt_pc s i = Moved_out x"
    and nd: "tq_heap s (tq_head s) = Some n" "nd_next n = Some nx"
    and s': "s' = qgoto i (Head_moved (tq_head s)) (s\<lparr>tq_head := nx, qt_popped := qt_popped s @ [x]\<rparr>)"
  shows "queue_inv s' (tl as) (tl xs)"
proof -
  have xs: "xs = x # tl xs" using inv pc by (cases xs) (auto simp: queue_inv_def seen_ok_def)
  then obtain bs where as: "as = tq_head s # bs" and c: "chain (tq_heap s) nx bs (tl xs) (tq_tail s)"
    using inv nd by (cases as; cases xs) (auto simp: queue_inv_def)
  have locks: "locks_ok s" and nodes: "nodes_ok s as" using inv by (simp_all add: queue_inv_def)
  have "sees (qt_pc s j) (tl xs)" if "j \<noteq> i" for j
    using head_exclusive [OF locks, of i j] pc that by (auto simp: sees_def split: pc.split)
  then have "seen_ok s' (tl xs)" by (simp add: seen_ok_alt s' sees_def)
  moreover have "locks_ok s'" using pc by (intro locks_ok_goto [OF locks, of _ i]) (auto simp: s' lock_move_def)
  moreover have "tail_node s' = tail_node s" using pc by (intro tail_node_outside [OF locks, of _ i]) (auto simp: s')
  moreover have "nodes_ok s' bs"
    using nodes_okD [OF nodes, of i] nodes_ok_distinct [OF nodes] pc unfolding as by (intro nodes_okI [OF nodes, of _ i]) (auto simp: s')
  moreover have "qt_pushed s = (qt_popped s @ [x]) @ tl xs" using inv xs by (simp add: queue_inv_def)
  ultimately show ?thesis using inv c as by (simp add: queue_inv_def s')
qed

lemma free_inv:
  assumes inv: "queue_inv s as xs" and pc: "qt_pc s i = Dropping old"
    and s': "s' = qgoto i Idle (s\<lparr>tq_heap := (tq_heap s)(old := None)\<rparr>)"
  shows "queue_inv s' as xs"
proof -
  have locks: "locks_ok s" and nodes: "nodes_ok s as" using inv by (simp_all add: queue_inv_def)
  note D = nodes_okD [OF nodes, of i]
  have old: "old \<notin> set as" "old \<noteq> tq_tail s" "old \<notin> others s i" using D(3) [of old] pc by auto
  have "chain (tq_heap s') (tq_head s) as xs (tq_tail s)"
    using inv old by (subst chain_cong [of _ _ "tq_heap s"]) (auto simp: queue_inv_def s')
  moreover have "tail_node s' = tail_node s" using pc by (intro tail_node_outside [OF locks, of _ i]) (auto simp: s')
  moreover have "locks_ok s'" using pc by (intro locks_ok_goto [OF locks, of _ i]) (auto simp: s' lock_move_def)
  moreover have "nodes_ok s' as"
    using D nodes_ok_distinct [OF nodes] pc old by (intro nodes_okI [OF nodes, of _ i]) (auto simp: s')
  ultimately show ?thesis using inv old by (simp add: queue_inv_def s' seen_ok_alt sees_def)
qed

lemma pop_inv:
  assumes "queue_inv s as xs" and "pop_step s s'"
  shows "\<exists>as xs. queue_inv s' as xs"
  using assms(2)
proof cases
  case (pop_sees_item i c)
  have "xs \<noteq> []" using assms(1) pop_sees_item(4) by (cases as) (auto simp: queue_inv_def dest: chain_length)
  with pop_sees_item show ?thesis unfolding pop_sees_item(1)
    by (intro pop_goto [OF assms(1)]) (simp_all add: lock_move_def sees_def)
next
  case (pop_move i c n x)
  have "xs \<noteq> [] \<and> hd xs = x"
    using assms(1) pop_move by (cases as; cases xs) (auto simp: queue_inv_def seen_ok_def)
  with pop_move show ?thesis unfolding pop_move(1)
    by (intro pop_goto [OF assms(1)]) (simp_all add: lock_move_def sees_def)
next
  case (pop_advance i x n nx)
  then show ?thesis using advance_inv [OF assms(1)] by blast
next
  case (pop_free i old)
  then show ?thesis using free_inv [OF assms(1)] by blast
qed (hypsubst, rule pop_goto [OF assms(1)]; simp add: lock_move_def sees_def)+

text \<open>A producer prepares its node, fills the old dummy and moves the tail, at which point the item is in the queue.\<close>

lemma alloc_inv:
  assumes inv: "queue_inv s as xs" and pc: "qt_pc s i = Idle" and free: "tq_heap s p = None"
    and s': "s' = qgoto i (Allocated x p) (s\<lparr>tq_heap := (tq_heap s)(p \<mapsto> empty_node)\<rparr>)"
  shows "queue_inv s' as xs"
proof -
  have locks: "locks_ok s" and nodes: "nodes_ok s as" using inv by (simp_all add: queue_inv_def)
  note D = nodes_okD [OF nodes, of i]
  have p: "p \<notin> set as" "p \<noteq> tq_tail s" "p \<notin> others s i" using D(4) free domIff [of p "tq_heap s"] by auto
  have "chain (tq_heap s') (tq_head s) as xs (tq_tail s)"
    using inv p by (subst chain_cong [of _ _ "tq_heap s"]) (auto simp: queue_inv_def s')
  moreover have "tail_node s' = tail_node s" using pc by (intro tail_node_outside [OF locks, of _ i]) (auto simp: s')
  moreover have "locks_ok s'" using pc by (intro locks_ok_goto [OF locks, of _ i]) (auto simp: s' lock_move_def)
  moreover have "nodes_ok s' as"
    using D nodes_ok_distinct [OF nodes] pc p by (intro nodes_okI [OF nodes, of _ i]) (auto simp: s')
  ultimately show ?thesis using inv p by (simp add: queue_inv_def s' seen_ok_alt sees_def)
qed

lemma fill_inv:
  assumes inv: "queue_inv s as xs" and pc: "in_tail (qt_pc s i)" "in_tail c" "in_head (qt_pc s i) = in_head c"
    "owned c = owned (qt_pc s i)" "fresh_of c = fresh_of (qt_pc s i)" "sees c xs"
    and s': "s' = qgoto i c (s\<lparr>tq_heap := (tq_heap s)(tq_tail s \<mapsto> n)\<rparr>)" and n: "n = tail_node s'"
  shows "queue_inv s' as xs"
proof -
  have locks: "locks_ok s" and nodes: "nodes_ok s as" using inv by (simp_all add: queue_inv_def)
  note D = nodes_okD [OF nodes, of i]
  have nt: "Some (tq_tail s) \<noteq> fresh_of (qt_pc s i)" using D(3) fresh_owned by metis
  have t: "tq_tail s \<notin> set as" using nodes_ok_distinct [OF nodes] by simp
  have "chain (tq_heap s') (tq_head s) as xs (tq_tail s)"
    using inv t by (subst chain_cong [of _ _ "tq_heap s"]) (auto simp: queue_inv_def s')
  moreover have "locks_ok s'" using pc by (intro locks_ok_goto [OF locks, of _ i c]) (auto simp: s' lock_move_def)
  moreover have "nodes_ok s' as"
    using D nt nodes_ok_distinct [OF nodes] pc by (intro nodes_okI [OF nodes, of _ i c]) (auto simp: s')
  moreover have "tq_heap s' (tq_tail s) = Some (tail_node s')" using n by (simp add: s')
  ultimately show ?thesis using inv pc by (simp add: queue_inv_def s' seen_ok_alt)
qed

lemma tail_inv:
  assumes inv: "queue_inv s as xs" and pc: "qt_pc s i = Next_set x p"
    and s': "s' = qgoto i Tail_moved (s\<lparr>tq_tail := p, qt_pushed := qt_pushed s @ [x]\<rparr>)"
  shows "queue_inv s' (as @ [tq_tail s]) (xs @ [x])"
proof -
  have locks: "locks_ok s" and nodes: "nodes_ok s as" using inv by (simp_all add: queue_inv_def)
  note D = nodes_okD [OF nodes, of i]
  have mtx: "qt_tail_mtx s = Some i" using tail_owner [OF locks, of i] pc by simp
  have "tq_heap s (tq_tail s) = Some \<lparr>nd_data = Some x, nd_next = Some p\<rparr>"
    using inv mtx pc by (simp add: queue_inv_def tail_node_def)
  then have "chain (tq_heap s) (tq_head s) (as @ [tq_tail s]) (xs @ [x]) p"
    using inv by (subst chain_snoc) (auto simp: queue_inv_def dest: chain_length)
  moreover have "locks_ok s'" using pc by (intro locks_ok_goto [OF locks, of _ i]) (auto simp: s' lock_move_def)
  moreover have "nodes_ok s' (as @ [tq_tail s])"
    using D D(3) [of p] nodes_ok_distinct [OF nodes] pc by (intro nodes_okI [OF nodes, of _ i]) (auto simp: s')
  moreover have "tq_heap s' p = Some (tail_node s')" using D(5) [of p] pc mtx by (simp add: s' tail_node_def)
  moreover have "sees c xs \<Longrightarrow> sees c (xs @ [x])" for c :: "'a pc" by (auto simp: sees_def split: pc.splits)
  ultimately show ?thesis using inv by (simp add: queue_inv_def s' seen_ok_alt sees_def)
qed

lemma push_inv:
  assumes "queue_inv s as xs" and "push_step s s'"
  shows "\<exists>as xs. queue_inv s' as xs"
  using assms(2)
proof cases
  case (push_alloc i p x)
  then show ?thesis using alloc_inv [OF assms(1)] by blast
next
  case (push_lock i x p)
  have "queue_inv s' as xs" unfolding push_lock(1)
    using push_lock by (intro queue_inv_goto [OF assms(1)]) (simp_all add: lock_move_def sees_def tail_node_def)
  then show ?thesis by blast
next
  case (push_data i x p n)
  have "qt_tail_mtx s = Some i" using assms(1) push_data tail_owner [of s i] by (simp add: queue_inv_def)
  then have "queue_inv s' as xs"
    using push_data assms(1) by (intro fill_inv [OF assms(1) _ _ _ _ _ _ push_data(1)])
      (simp_all add: sees_def tail_node_def queue_inv_def empty_node_def)
  then show ?thesis by blast
next
  case (push_next i x p n)
  have "qt_tail_mtx s = Some i" using assms(1) push_next tail_owner [of s i] by (simp add: queue_inv_def)
  then have "queue_inv s' as xs"
    using push_next assms(1) by (intro fill_inv [OF assms(1) _ _ _ _ _ _ push_next(1)])
      (simp_all add: sees_def tail_node_def queue_inv_def)
  then show ?thesis by blast
next
  case (push_tail i x p)
  then show ?thesis using tail_inv [OF assms(1)] by blast
next
  case (push_unlock i)
  have "qt_tail_mtx s = Some i" using assms(1) push_unlock tail_owner [of s i] by (simp add: queue_inv_def)
  then have "queue_inv s' as xs" unfolding push_unlock(1)
    using push_unlock by (intro queue_inv_goto [OF assms(1)]) (simp_all add: lock_move_def sees_def tail_node_def)
  then show ?thesis by blast
next
  case (push_notify_one i j)
  have "\<exists>as xs. queue_inv (qgoto i Idle s) as xs"
    using push_notify_one by (intro pop_goto [OF assms(1)]) (simp_all add: lock_move_def sees_def)
  then obtain as' xs' where "queue_inv (qgoto i Idle s) as' xs'" by blast
  then show ?thesis unfolding push_notify_one(1)
    using push_notify_one by (elim pop_goto) (auto simp: lock_move_def sees_def)
next
  case (push_notify_none i)
  then show ?thesis unfolding push_notify_none(1)
    by (intro pop_goto [OF assms(1)]) (simp_all add: lock_move_def sees_def)
qed

lemma queue_run_inv:
  assumes "queue_step\<^sup>*\<^sup>* (queue_threads_new p) s"
  shows "\<exists>as xs. queue_inv s as xs"
  using assms
proof (induction rule: rtranclp_induct)
  case base
  show ?case using queue_inv_new by blast
next
  case (step s s')
  then show ?case using push_inv pop_inv unfolding queue_step_def by blast
qed

section \<open>Properties\<close>

text \<open>The next access of a thread to a node finds it: a producer writes to the dummy, a consumer reads the first
  node, which is not the dummy, and frees a node that no other thread reaches.\<close>

definition access_ok :: "'a queue_threads \<Rightarrow> tid \<Rightarrow> bool" where
  "access_ok s i =
     (case qt_pc s i of
        Tail_locked x p \<Rightarrow> tq_heap s (tq_tail s) = Some empty_node
      | Data_set x p \<Rightarrow> tq_heap s (tq_tail s) \<noteq> None
      | Next_set x p \<Rightarrow> tq_heap s p = Some empty_node
      | Seen_item c \<Rightarrow> tq_head s \<noteq> tq_tail s \<and> (\<exists>n x. tq_heap s (tq_head s) = Some n \<and> nd_data n = Some x)
      | Moved_out x \<Rightarrow> tq_head s \<noteq> tq_tail s \<and>
          (\<exists>n nx. tq_heap s (tq_head s) = Some n \<and> nd_data n = Some x \<and> nd_next n = Some nx)
      | Dropping old \<Rightarrow> tq_heap s old \<noteq> None \<and> old \<noteq> tq_head s \<and> old \<noteq> tq_tail s \<and>
          (\<forall>j. j \<noteq> i \<longrightarrow> owned (qt_pc s j) \<noteq> Some old)
      | _ \<Rightarrow> True)"

definition at_rest :: "'a pc \<Rightarrow> bool" where
  "at_rest c \<longleftrightarrow> c = Idle \<or> c = Notifying \<or> c = Asleep \<or> c = Woken"

lemma inv_access:
  assumes "queue_inv s as xs"
  shows "access_ok s i"
proof -
  have locks: "locks_ok s" and nodes: "nodes_ok s as" and ch: "chain (tq_heap s) (tq_head s) as xs (tq_tail s)"
    and tl: "tq_heap s (tq_tail s) = Some (tail_node s)" and seen: "sees (qt_pc s i) xs"
    using assms by (simp_all add: queue_inv_def seen_ok_alt)
  have first: "\<exists>c. tq_heap s (tq_head s) = Some \<lparr>nd_data = Some (hd xs), nd_next = Some c\<rparr> \<and> tq_head s \<noteq> tq_tail s" if "xs \<noteq> []"
    using ch that nodes_ok_distinct [OF nodes] by (cases as; cases xs) auto
  have head_in: "tq_head s \<in> set as \<or> tq_head s = tq_tail s" using ch by (cases as; cases xs) auto
  show ?thesis
    using nodes_okD(3-5) [OF nodes, of i] tl tail_owner [OF locks, of i] first seen head_in
    by (cases "qt_pc s i") (auto simp: access_ok_def tail_node_def sees_def others_def)
qed

text \<open>C14. The two-lock queue under any number of threads. In every interleaving of pushes and pops the items leave in the
  order in which the tail was moved over them, none lost and none twice; no access meets a null or freed node, and a
  consumer never reads the node that a producer writes. When no thread is inside a member function, the nodes are again
  exactly the list of the items still queued.\<close>

theorem queue_threads_fifo:
  assumes "queue_step\<^sup>*\<^sup>* (queue_threads_new p) s"
  shows "\<exists>xs. qt_pushed s = qt_popped s @ xs \<and> (\<forall>i. access_ok s i) \<and>
    ((\<forall>i. at_rest (qt_pc s i)) \<longrightarrow> tq_repr (threadsafe_queue.truncate s) xs)"
proof -
  obtain as xs where inv: "queue_inv s as xs" using queue_run_inv [OF assms] by blast
  have "tq_repr (threadsafe_queue.truncate s) xs" if rest: "\<forall>i. at_rest (qt_pc s i)"
  proof -
    have no: "owned (qt_pc s i) = None" "\<not> in_tail (qt_pc s i)" for i
      using rest [rule_format, of i] by (auto simp: at_rest_def)
    then have "tail_node s = empty_node"
      using inv by (simp add: queue_inv_def locks_ok_def tail_node_def split: option.split)
    then show ?thesis
      using inv no unfolding tq_repr_def
      by (intro exI [of _ as]) (simp add: queue_inv_def nodes_ok_def threadsafe_queue.defs)
  qed
  then show ?thesis using inv inv_access [OF inv] by (intro exI [of _ xs]) (simp add: queue_inv_def)
qed

text \<open>A whole call of \<^verbatim>\<open>push\<close> by thread 1 while thread 0 in \<^verbatim>\<open>wait_pop\<close> has seen an empty queue and not gone to sleep yet.\<close>

definition demo_pc :: "nat pc \<Rightarrow> nat pc \<Rightarrow> tid \<Rightarrow> nat pc" where
  "demo_pc a b i = (if i = 0 then a else if i = 1 then b else Idle)"

lemma demo_pc_simps [simp]:
  "demo_pc a b 0 = a" "demo_pc a b (Suc 0) = b"
  "(demo_pc a b)(0 := c) = demo_pc c b" "(demo_pc a b)(Suc 0 := c) = demo_pc a c"
  by (auto simp: demo_pc_def fun_eq_iff)

definition demo_state ::
  "(addr \<rightharpoonup> nat node) \<Rightarrow> addr \<Rightarrow> tid option \<Rightarrow> tid option \<Rightarrow> nat pc \<Rightarrow> nat pc \<Rightarrow> nat list \<Rightarrow> nat queue_threads" where
  "demo_state h t hm tm a b pushed =
     \<lparr>tq_heap = h, tq_head = 0, tq_tail = t, qt_head_mtx = hm, qt_tail_mtx = tm, qt_pc = demo_pc a b,
      qt_pushed = pushed, qt_popped = []\<rparr>"

definition demo_slept :: "nat queue_threads" where
  "demo_slept = demo_state [0 \<mapsto> \<lparr>nd_data = Some 7, nd_next = Some 1\<rparr>, 1 \<mapsto> empty_node] 1 None None Asleep Idle [7]"

lemma queue_demo_start: "queue_threads_new 0 = demo_state [0 \<mapsto> empty_node] 0 None None Idle Idle []"
  by (auto simp: queue_threads_new_def threadsafe_queue.defs threadsafe_queue_new_def demo_state_def demo_pc_def fun_eq_iff)

lemma push_run: "push_step s s' \<Longrightarrow> queue_step\<^sup>*\<^sup>* s' t \<Longrightarrow> queue_step\<^sup>*\<^sup>* s t"
  by (rule converse_rtranclp_into_rtranclp) (simp_all add: queue_step_def)

lemma pop_run: "pop_step s s' \<Longrightarrow> queue_step\<^sup>*\<^sup>* s' t \<Longrightarrow> queue_step\<^sup>*\<^sup>* s t"
  by (rule converse_rtranclp_into_rtranclp) (simp_all add: queue_step_def)

lemmas demo_step = demo_state_def qgoto_def empty_node_def

lemma demo_waits:
  "queue_step\<^sup>*\<^sup>* (queue_threads_new 0) (demo_state [0 \<mapsto> empty_node] 0 (Some 0) None (Seen_empty Wait_pop) Idle [])"
proof -
  let ?s = "\<lambda>hm c. demo_state [0 \<mapsto> empty_node] 0 hm None c Idle []"
  have 1: "pop_step (?s None Idle) (?s (Some 0) (Head_locked Wait_pop))"
    using pop_lock [of "?s None Idle" 0 Wait_pop] by (simp add: demo_step)
  have 2: "pop_step (?s (Some 0) (Head_locked Wait_pop)) (?s (Some 0) (Seen_empty Wait_pop))"
    using pop_sees_empty [of "?s (Some 0) (Head_locked Wait_pop)" 0 Wait_pop] by (simp add: demo_step)
  show ?thesis unfolding queue_demo_start by (rule pop_run [OF 1 pop_run [OF 2 rtranclp.rtrancl_refl]])
qed

lemma demo_pushes:
  "queue_step\<^sup>*\<^sup>* (demo_state [0 \<mapsto> empty_node] 0 (Some 0) None (Seen_empty Wait_pop) Idle [])
     (demo_state [0 \<mapsto> \<lparr>nd_data = Some 7, nd_next = Some 1\<rparr>, 1 \<mapsto> empty_node] 1 (Some 0) None (Seen_empty Wait_pop) Idle [7])"
proof -
  let ?s = "\<lambda>n t tm c. demo_state [0 \<mapsto> n, 1 \<mapsto> empty_node] t (Some 0) tm (Seen_empty Wait_pop) c"
  let ?d = "\<lparr>nd_data = Some (7::nat), nd_next = None\<rparr>" and ?n = "\<lparr>nd_data = Some (7::nat), nd_next = Some 1\<rparr>"
  let ?init = "demo_state [0 \<mapsto> empty_node] 0 (Some 0) None (Seen_empty Wait_pop) Idle []"
  have 1: "push_step ?init (?s empty_node 0 None (Allocated 7 1) [])"
    using push_alloc [of ?init 1 1 7] by (simp add: demo_step)
  have 2: "push_step (?s empty_node 0 None (Allocated 7 1) []) (?s empty_node 0 (Some 1) (Tail_locked 7 1) [])"
    using push_lock [of "?s empty_node 0 None (Allocated 7 1) []" 1 7 1] by (simp add: demo_step)
  have 3: "push_step (?s empty_node 0 (Some 1) (Tail_locked 7 1) []) (?s ?d 0 (Some 1) (Data_set 7 1) [])"
    using push_data [of "?s empty_node 0 (Some 1) (Tail_locked 7 1) []" 1 7 1 empty_node] by (simp add: demo_step fun_upd_twist)
  have 4: "push_step (?s ?d 0 (Some 1) (Data_set 7 1) []) (?s ?n 0 (Some 1) (Next_set 7 1) [])"
    using push_next [of "?s ?d 0 (Some 1) (Data_set 7 1) []" 1 7 1 ?d] by (simp add: demo_step fun_upd_twist)
  have 5: "push_step (?s ?n 0 (Some 1) (Next_set 7 1) []) (?s ?n 1 (Some 1) Tail_moved [7])"
    using push_tail [of "?s ?n 0 (Some 1) (Next_set 7 1) []" 1 7 1] by (simp add: demo_step)
  have 6: "push_step (?s ?n 1 (Some 1) Tail_moved [7]) (?s ?n 1 None Notifying [7])"
    using push_unlock [of "?s ?n 1 (Some 1) Tail_moved [7]" 1] by (simp add: demo_step)
  have 7: "push_step (?s ?n 1 None Notifying [7]) (?s ?n 1 None Idle [7])"
    using push_notify_none [of "?s ?n 1 None Notifying [7]" 1] by (simp add: demo_step demo_pc_def)
  show ?thesis
    by (rule push_run [OF 1 push_run [OF 2 push_run [OF 3 push_run [OF 4 push_run [OF 5 push_run [OF 6 push_run
      [OF 7 rtranclp.rtrancl_refl]]]]]]])
qed

lemma demo_lost: "queue_step\<^sup>*\<^sup>* (queue_threads_new 0) demo_slept"
proof -
  let ?s = "demo_state [0 \<mapsto> \<lparr>nd_data = Some 7, nd_next = Some 1\<rparr>, 1 \<mapsto> empty_node] 1 (Some 0) None (Seen_empty Wait_pop) Idle [7]"
  have "pop_step ?s demo_slept" using pop_sleep [of ?s 0] by (simp add: demo_slept_def demo_step)
  from pop_run [OF this rtranclp.rtrancl_refl] show ?thesis
    by (rule rtranclp_trans [OF rtranclp_trans [OF demo_waits demo_pushes]])
qed

theorem queue_threads_fifo_witness: "tq_repr (threadsafe_queue.truncate demo_slept) [7]"
proof -
  have "\<forall>i. at_rest (qt_pc demo_slept i)" "qt_pushed demo_slept = [7]" "qt_popped demo_slept = []"
    by (simp_all add: demo_slept_def demo_state_def demo_pc_def at_rest_def)
  with queue_threads_fifo [OF demo_lost] show ?thesis by auto
qed

text \<open>A wake-up can be lost: \<^verbatim>\<open>push\<close> notifies without holding the mutex under which \<^verbatim>\<open>wait_pop\<close> tests the queue, so a push
  that runs between that test and the sleep wakes nobody. The item is queued, no thread is inside \<^verbatim>\<open>push\<close>, and the
  consumer sleeps.\<close>

theorem queue_lost_wakeup:
  "\<exists>s. queue_step\<^sup>*\<^sup>* (queue_threads_new 0) s \<and> qt_pushed s = [7::nat] \<and> qt_popped s = [] \<and> qt_pc s 0 = Asleep \<and>
     (\<forall>i. i \<noteq> 0 \<longrightarrow> qt_pc s i = Idle)"
  using demo_lost by (intro exI [of _ demo_slept]) (simp add: demo_slept_def demo_state_def demo_pc_def)

end
