(* ===== verification/Spec2Isabelle.thy ===== *)
theory Spec2Isabelle
  imports Server_Requests Server_Progress Main_Args Logger Queue_Threads
begin

text \<open>
  \<^bold>\<open>hpserver, an HTTP forward proxy.\<close>

  One reactor thread accepts clients, reads and parses their requests and writes what they are sent. It hands every
  complete request to one of two thread pools, plain requests to the proxy pool and CONNECT requests to the tunnel pool.
  A worker talks to the upstream and puts a finished job into a queue; it wakes the reactor through an event descriptor,
  and the reactor sends the response and closes the client. A timer closes idle clients, a blacklist refuses clients by
  address, and a log is written by its own thread. The response cache is opened at start-up and not used by the server.

  \<^bold>\<open>Theories.\<close> Paths are relative to \<^verbatim>\<open>src/src\<close>.

  \<^item> \<open>Prelude\<close>: machine integers, strings, and what the program uses of the C and C++ libraries.
  \<^item> \<open>Interfaces\<close>: the contracts between components as locales; each is interpreted in the theory of its provider.
  \<^item> \<open>Bitwise_Trie\<close>, \<open>Bloom_Filter\<close>, \<open>Memory_Cache\<close>, \<open>Ring_Buffer\<close>, \<open>Threadsafe_Queue\<close>, \<open>Thread_Pool\<close>, \<open>Timer\<close>:
    the headers of \<^verbatim>\<open>util/\<close> with the same names. The queue and the cache keep their nodes on an explicit heap, the pool and
    the ring buffer also have step relations for threads that interleave, as the queue has in \<open>Queue_Threads\<close>.
  \<^item> \<open>Logger\<close>: \<^verbatim>\<open>logger/logger.h\<close> and \<^verbatim>\<open>.cpp\<close>, the text of a line and the writer thread.
  \<^item> \<open>Ip_Filter\<close>, \<open>Socket_Ops\<close>: \<^verbatim>\<open>net/core/\<close>; \<open>Socket_Ops\<close> also has the poller.
  \<^item> \<open>Llhttp\<close>: the handwritten part of \<^verbatim>\<open>third_party/llhttp\<close>; \<open>Header_Assembly\<close>: what both parsers do with header callbacks.
  \<^item> \<open>Request_Parser\<close>, \<open>Response_Parser\<close>, \<open>Connection_Io\<close>, \<open>Http_Conn\<close>, \<open>Message_Builder\<close>, \<open>Cache_Entry\<close>, \<open>Persistent_Cache\<close>,
    \<open>Http_Cache\<close>: the files of \<^verbatim>\<open>net/http/\<close>; \<open>Cache_Entry\<close> is the generated \<^verbatim>\<open>http_cache.pb.cc\<close>.
  \<^item> \<open>Proxy_Io\<close>, \<open>Http_Proxy\<close>, \<open>Connect_Tunnel\<close>: \<^verbatim>\<open>net/proxy/http_proxy.cpp\<close>, that is its helpers on non-blocking sockets,
    \<^verbatim>\<open>forward_request\<close> and \<^verbatim>\<open>forward_connect_tunnel\<close>.
  \<^item> \<open>Server\<close>: \<^verbatim>\<open>hpserver.h\<close> and \<^verbatim>\<open>hpserver.cpp\<close>. A state is the connection timer with a record \<open>world\<close> of the other members;
    every member function is a definition of the same name (\<open>listen_setup\<close> and \<open>server_iteration\<close> are the two halves of
    \<^verbatim>\<open>listen\<close>, \<open>handle_done_event\<close> the body of the loop of \<^verbatim>\<open>drain_proxy_done_events\<close>, \<open>take_task\<close> and \<open>finish_task\<close> what a worker
    does with a job).
  \<^item> \<open>Server_Invariant\<close>, \<open>Server_Runs\<close>, \<open>Server_Requests\<close>, \<open>Server_Progress\<close>: what is shown of the server.
  \<^item> \<open>Main_Args\<close>: \<^verbatim>\<open>main.cpp\<close>.

  \<^bold>\<open>Conventions.\<close> System calls, the clock, the allocator, the database, the protobuf runtime and the generated llhttp
  automaton are arguments of the definitions. The state of the kernel is a type variable, threaded through every call, so a
  system call may return anything at any time. Where a property needs documented behaviour of such code, it is a named
  hypothesis with a concrete instance in a witness: \<open>kernel_law\<close> (what is received and sent is a stream, a new descriptor is
  not open, other calls leave streams alone), \<open>finite_law\<close> and \<open>server_finite_law\<close> (the environment produces finitely many
  events), \<open>alloc_law\<close> (a new object is not at the address of an existing one), \<open>kv_law\<close> (the database returns what was put),
  \<open>runtime_law\<close> and \<open>reads_law\<close> (the wire format of protobuf, and that its readers make progress),
  \<open>regular\<close> and \<open>names_known\<close> (llhttp reports numbers that have a name). Error numbers are values of a sum type, or explicit
  in the state where the code reads \<^verbatim>\<open>errno\<close> later. \<open>None\<close> is an endless loop, an abort, an uncaught exception or the use of
  a null pointer. Loops whose end depends on the environment are partial functions, and that they return is proved
  separately.

  \<^bold>\<open>What is shown.\<close>

  \<^item> The data structures implement their abstract counterparts: the trie a map, the Bloom filter a set without false
    negatives, the memory cache an LRU list within its limits, the queues FIFO lists, also under interleaving; the pool
    runs every accepted task exactly once; the timer keeps a heap node for every entry.
  \<^item> The parsers give the request or response that the callbacks describe however the input is cut; the builders give
    messages that read back; the buffers of a connection lose, repeat and reorder nothing.
  \<^item> A hit of the cache was stored for, or read from the database for, the key of the request; keys are injective on
    fields without the separator; without a memory cache the cache is the persistent one. A stored
    response is served until its time to live has passed, if it is UTF-8; the encoding of an entry has the computed size
    and parses back, and parsing ends on every input.
  \<^item> Forwarding closes what it opens and returns one complete response of one connection; a tunnel relays both streams in
    order; both return when the environment produces finitely many events.
  \<^item> The server keeps its bookkeeping in every reachable state, in which reactor steps alternate arbitrarily with workers
    that take and finish jobs; no request in flight is lost between the queues; a complete request becomes one job and a
    queued one is answered; blocked clients are refused; exactly the idle clients are closed; no step gets stuck.
  \<^item> Whatever the command line, a server that starts has a valid configuration.
  \<^item> Some theorems state behaviour the code hardly means to have, for example that a response is delivered to whoever
    has the descriptor number by then.

  \<^bold>\<open>Bounds.\<close> No fuel is used. The bounds in the model are those of the code: 65536 descriptors, 1024 events for one wait, two
  attempts to forward, at most five more timeouts after a partial response, buffers of 8192 bytes.
  Words have the width of the target, a 64-bit Linux.

  \<^bold>\<open>Simplifications.\<close> Log calls are left out of the callers. In runs of the server, a job is run by a worker in one step, after
  an earlier step took it; the accesses of the pool to its queue, counter and flags interleave only in \<open>Thread_Pool\<close>, and those of
  the queue to its nodes only in \<open>Queue_Threads\<close>. Timers
  with equal deadlines fire in an order that the model fixes and the standard library does not. The three vectors of the
  server that are indexed by descriptor are resized together and are functions with one common size. The waiting counter
  and the futures of the pool are left out, since nothing reads them. Unknown fields of a stored entry are skipped and not
  kept, since an entry that was read is never written.

  \<^bold>\<open>Not modelled.\<close>

  \<^item> Arenas, reflection, descriptors and swapping in \<^verbatim>\<open>net/http/http_cache.pb.cc\<close> and \<^verbatim>\<open>.h\<close>, which the program does not use.
  \<^item> \<^verbatim>\<open>third_party/llhttp/src/llhttp.c\<close>, a generated automaton: the argument \<open>execute\<close> of the parsers.
  \<^item> RocksDB, the protobuf runtime, resolver, kernel and C++ runtime: arguments.
  \<^item> The macros that select logging, build files and tests: no behaviour of the program.
\<close>

end
